(* ===== verification/Prelude.thy ===== *)
theory Prelude
  imports Main "HOL-Library.Word" "HOL-Library.Char_ord" "HOL-Library.List_Lexorder"
    "HOL-Library.Sublist" "HOL-Library.Multiset"
begin

text \<open>
  Shared ground of the development: the names of the machine types of the program
  (\<open>u8\<close>, \<open>u32\<close>, \<open>u64\<close>, \<open>u128\<close>), \<open>DispatchResult\<close>, the checked and the
  build-dependent integer operations of Rust, and the generic facts on lists, prefixes and
  words that the component theories use.

  A computation that may panic returns an \<open>option\<close>: \<open>None\<close> is the panic.
\<close>

named_theorems pallet_defs \<open>the operations of the pallets, for unfolding\<close>
named_theorems synced_defs \<open>what it means that the store is in step with the runtime, for unfolding\<close>

section \<open>Machine types\<close>

type_synonym byte = "8 word"
type_synonym bytes = "byte list"
type_synonym u32 = "32 word"
type_synonym u64 = "64 word"
type_synonym u128 = "128 word"

text \<open>\<open>Result<(), &'static str>\<close> and \<open>Result<(), String>\<close>: the error is on the left.\<close>

type_synonym dispatch_result = "string + unit"
type_synonym store_result = "string + unit"

abbreviation Ok_unit :: "'e + unit" where
  "Ok_unit \<equiv> Inr ()"

text \<open>A byte-string literal \<open>b"..."\<close> of the source: the codes of its characters.\<close>

definition byte_of :: "char \<Rightarrow> byte" where
  "byte_of c = word_of_nat (of_char c)"

definition byte_str :: "string \<Rightarrow> bytes" where
  "byte_str s = map byte_of s"

lemma unat_byte_of [simp]: "unat (byte_of c) = of_char c"
  by (simp add: byte_of_def unat_of_nat)

section \<open>Integer operations\<close>

text \<open>\<open>checked_add\<close> and \<open>checked_sub\<close> of unsigned integers: \<open>None\<close> on overflow.\<close>

definition checked_add :: "'w::len word \<Rightarrow> 'w word \<Rightarrow> 'w word option" where
  "checked_add a b = (if unat a + unat b < 2 ^ LENGTH('w) then Some (a + b) else None)"

definition checked_sub :: "'w::len word \<Rightarrow> 'w word \<Rightarrow> 'w word option" where
  "checked_sub a b = (if unat b \<le> unat a then Some (a - b) else None)"

text \<open>
  The plain operators \<open>+\<close> and \<open>*\<close> panic on overflow when the build has overflow checks
  (the default of \<open>cargo run\<close>) and wrap around when it has not; the flag \<open>oc\<close> says which.
\<close>

definition plain_add :: "bool \<Rightarrow> 'w::len word \<Rightarrow> 'w word \<Rightarrow> 'w word option" where
  "plain_add oc a b =
     (if oc \<and> \<not> unat a + unat b < 2 ^ LENGTH('w) then None else Some (a + b))"

definition plain_mul :: "bool \<Rightarrow> 'w::len word \<Rightarrow> 'w word \<Rightarrow> 'w word option" where
  "plain_mul oc a b =
     (if oc \<and> \<not> unat a * unat b < 2 ^ LENGTH('w) then None else Some (a * b))"

lemma checked_add_SomeD:
  "checked_add a b = Some c \<Longrightarrow> c = a + b \<and> unat c = unat a + unat b"
  by (auto simp: checked_add_def unat_word_ariths split: if_splits)

lemma checked_sub_SomeD:
  "checked_sub a b = Some c \<Longrightarrow> c = a - b \<and> unat b \<le> unat a \<and> unat c = unat a - unat b"
  by (auto simp: checked_sub_def unat_sub word_le_nat_alt split: if_splits)

lemma checked_add_None_iff:
  "checked_add (a::'w::len word) b = None \<longleftrightarrow> 2 ^ LENGTH('w) \<le> unat a + unat b"
  by (auto simp: checked_add_def)

lemma checked_sub_None_iff: "checked_sub a b = None \<longleftrightarrow> unat a < unat b"
  by (auto simp: checked_sub_def)

lemma checked_add_one_cases:
  fixes n :: "'w::len word"
  shows "(checked_add n 1 = None \<and> unat n = 2 ^ LENGTH('w) - 1) \<or>
         (checked_add n 1 = Some (n + 1) \<and> unat (n + 1) = Suc (unat n))"
proof (cases "unat n + 1 < 2 ^ LENGTH('w)")
  case True
  then have "unat (n + 1) = Suc (unat n)"
    by (simp add: unat_word_ariths)
  with True show ?thesis
    by (simp add: checked_add_def)
next
  case False
  moreover have "unat n < 2 ^ LENGTH('w)"
    by (fact unsigned_less)
  ultimately have "unat n = 2 ^ LENGTH('w) - 1"
    by linarith
  with False show ?thesis
    by (simp add: checked_add_def)
qed

section \<open>Maps\<close>

lemma map_le_upd_hit: "m \<subseteq>\<^sub>m n \<Longrightarrow> n k = Some v \<Longrightarrow> m(k \<mapsto> v) \<subseteq>\<^sub>m n"
  by (auto simp: map_le_def)

section \<open>Byte prefixes\<close>

text \<open>Two byte strings, neither a prefix of the other, name disjoint parts of a key space.\<close>

definition apart :: "bytes \<Rightarrow> bytes \<Rightarrow> bool" where
  "apart p q \<longleftrightarrow> \<not> prefix p q \<and> \<not> prefix q p"

lemma apart_sym: "apart p q \<Longrightarrow> apart q p"
  by (simp add: apart_def)

lemma apart_append: "apart p q \<Longrightarrow> \<not> prefix p (q @ r)"
  unfolding apart_def by (metis prefix_append prefix_same_cases prefixI)

lemma apart_append_neq: "apart p q \<Longrightarrow> p @ r \<noteq> q @ r'"
  by (metis apart_append prefixI)

lemma apart_prefix_neq: "apart p q \<Longrightarrow> prefix p key \<Longrightarrow> key \<noteq> q @ r"
  by (auto dest: apart_append)

end
