(* ===== verification/BTree_Map.thy ===== *)
theory BTree_Map
  imports Prelude
begin

text \<open>
  \<open>std::collections::BTreeMap\<close> as the program uses it: a map kept in ascending key order,
  so that iteration, \<open>keys().last()\<close> and equality are those of the ordered entry list.
  The pallets keep their state in such maps and the in-memory store is one.
\<close>

type_synonym ('k, 'v) btree_map = "('k \<times> 'v) list"

definition bt_wf :: "('k::linorder, 'v) btree_map \<Rightarrow> bool" where
  "bt_wf m \<longleftrightarrow> sorted_wrt (<) (map fst m)"

definition bt_get :: "('k, 'v) btree_map \<Rightarrow> 'k \<Rightarrow> 'v option" where
  "bt_get m = map_of m"

definition bt_contains_key :: "('k, 'v) btree_map \<Rightarrow> 'k \<Rightarrow> bool" where
  "bt_contains_key m k \<longleftrightarrow> bt_get m k \<noteq> None"

fun bt_insert :: "'k::linorder \<Rightarrow> 'v \<Rightarrow> ('k, 'v) btree_map \<Rightarrow> ('k, 'v) btree_map" where
  "bt_insert k v [] = [(k, v)]"
| "bt_insert k v (e # m) =
     (if k < fst e then (k, v) # e # m
      else if k = fst e then (k, v) # m
      else e # bt_insert k v m)"

definition bt_remove :: "'k \<Rightarrow> ('k, 'v) btree_map \<Rightarrow> ('k, 'v) btree_map" where
  "bt_remove k m = filter (\<lambda>e. fst e \<noteq> k) m"

text \<open>\<open>keys().last()\<close>: the greatest key, \<open>None\<close> for the empty map.\<close>

definition bt_last_key :: "('k, 'v) btree_map \<Rightarrow> 'k option" where
  "bt_last_key m = (if m = [] then None else Some (fst (last m)))"

section \<open>Reads after writes\<close>

lemma bt_get_Nil [simp]: "bt_get [] k = None"
  by (simp add: bt_get_def)

lemma bt_get_insert [simp]: "bt_get (bt_insert k v m) = (bt_get m)(k \<mapsto> v)"
  unfolding bt_get_def by (induction m) (auto simp: fun_eq_iff)

lemma bt_get_remove [simp]: "bt_get (bt_remove k m) = (bt_get m)(k := None)"
  unfolding bt_get_def bt_remove_def by (induction m) (auto simp: fun_eq_iff)

lemma bt_get_SomeD: "bt_get m k = Some v \<Longrightarrow> (k, v) \<in> set m"
  by (simp add: bt_get_def map_of_SomeD)

lemma fst_set_bt_insert: "fst ` set (bt_insert k v m) = insert k (fst ` set m)"
  by (induction m) auto

lemma bt_insert_not_Nil [simp]: "bt_insert k v m \<noteq> []"
  by (cases m) auto

section \<open>The order invariant\<close>

lemma bt_wf_Nil [simp]: "bt_wf []"
  by (simp add: bt_wf_def)

lemma bt_wf_Cons: "bt_wf (e # m) \<longleftrightarrow> (\<forall>x \<in> fst ` set m. fst e < x) \<and> bt_wf m"
  by (auto simp: bt_wf_def)

lemma bt_wf_insert [simp, intro]: "bt_wf m \<Longrightarrow> bt_wf (bt_insert k v m)"
proof (induction m)
  case Nil
  then show ?case by (simp add: bt_wf_def)
next
  case (Cons e m)
  then show ?case
    by (auto simp: bt_wf_Cons fst_set_bt_insert dest: order.strict_trans)
qed

lemma bt_wf_remove [simp, intro]: "bt_wf m \<Longrightarrow> bt_wf (bt_remove k m)"
  unfolding bt_remove_def by (induction m) (auto simp: bt_wf_Cons)

lemma bt_wf_distinct: "bt_wf m \<Longrightarrow> distinct (map fst m)"
  by (simp add: bt_wf_def strict_sorted_iff)

lemma bt_get_eq_Some_iff: "bt_wf m \<Longrightarrow> bt_get m k = Some v \<longleftrightarrow> (k, v) \<in> set m"
  by (auto simp: bt_get_def bt_wf_distinct map_of_is_SomeI dest: map_of_SomeD)

text \<open>Two ordered maps with the same lookups are the same map.\<close>

lemma bt_ext:
  assumes "bt_wf m" and "bt_wf m'" and "bt_get m = bt_get m'"
  shows "m = m'"
proof -
  have set_eq: "set m = set m'"
    using assms by (auto simp flip: bt_get_eq_Some_iff)
  have "map fst m = map fst m'"
  proof (rule strict_sorted_equal)
    show "sorted_wrt (<) (map fst m)" and "sorted_wrt (<) (map fst m')"
      using assms by (auto simp: bt_wf_def)
    show "set (map fst m) = set (map fst m')"
      using set_eq by simp
  qed
  moreover have "inj_on fst (set m \<union> set m')"
    using bt_wf_distinct [OF assms(1)] set_eq by (simp add: distinct_map)
  ultimately show ?thesis
    by (metis inj_on_map_eq_map)
qed

section \<open>The greatest key\<close>

lemma bt_last_key_insert: "\<exists>l. bt_last_key (bt_insert k v m) = Some l"
  by (simp add: bt_last_key_def)

lemma bt_last_key_in:
  "bt_wf m \<Longrightarrow> bt_last_key m = Some l \<Longrightarrow> bt_get m l = Some (snd (last m))"
  by (auto simp: bt_last_key_def bt_get_eq_Some_iff split: if_splits)

lemma bt_last_key_greatest:
  assumes "bt_wf m" and "bt_last_key m = Some l" and "bt_get m k = Some v"
  shows "k \<le> l"
proof -
  from assms(2) obtain m' where m: "m = m' @ [last m]" and l: "l = fst (last m)"
    by (auto simp: bt_last_key_def split: if_splits) (metis append_butlast_last_id)
  have "sorted_wrt (<) (map fst (m' @ [last m]))"
    using assms(1) m by (simp add: bt_wf_def)
  then have "\<forall>x \<in> fst ` set m'. x < l"
    by (simp add: sorted_wrt_append l)
  moreover have "(k, v) \<in> set (m' @ [last m])"
    using bt_get_SomeD [OF assms(3)] m by simp
  ultimately show ?thesis
    using l by (cases "last m = (k, v)") (auto simp: less_imp_le image_iff)
qed

lemma bt_last_key_eqI:
  assumes "bt_wf m" and "bt_get m l = Some v" and "\<And>k w. bt_get m k = Some w \<Longrightarrow> k \<le> l"
  shows "bt_last_key m = Some l"
proof -
  have "m \<noteq> []" using assms(2) by auto
  then obtain l' where l': "bt_last_key m = Some l'"
    by (simp add: bt_last_key_def)
  have "l \<le> l'"
    using assms(1) l' assms(2) by (rule bt_last_key_greatest)
  moreover have "l' \<le> l"
    using bt_last_key_in [OF assms(1) l'] by (rule assms(3))
  ultimately show ?thesis using l' by simp
qed

section \<open>The interface of an ordered map\<close>

text \<open>
  What the pallets rely on: lookups after inserts and removals, the order invariant, and
  extensionality. The client lemmas are proved once in the locale.
\<close>

locale ordered_map =
  fixes get :: "'m \<Rightarrow> 'k::linorder \<Rightarrow> 'v option"
    and ins :: "'k \<Rightarrow> 'v \<Rightarrow> 'm \<Rightarrow> 'm"
    and rem :: "'k \<Rightarrow> 'm \<Rightarrow> 'm"
    and wf_map :: "'m \<Rightarrow> bool"
  assumes get_ins: "get (ins k v m) = (get m)(k \<mapsto> v)"
    and get_rem: "get (rem k m) = (get m)(k := None)"
    and wf_ins: "wf_map m \<Longrightarrow> wf_map (ins k v m)"
    and wf_rem: "wf_map m \<Longrightarrow> wf_map (rem k m)"
    and ext_map: "wf_map m \<Longrightarrow> wf_map m' \<Longrightarrow> get m = get m' \<Longrightarrow> m = m'"
begin

lemma ins_same: "wf_map m \<Longrightarrow> get m k = Some v \<Longrightarrow> ins k v m = m"
  by (rule ext_map) (auto simp: wf_ins get_ins)

lemma ins_ins: "wf_map m \<Longrightarrow> ins k v (ins k w m) = ins k v m"
  by (rule ext_map) (auto simp: wf_ins get_ins)

lemma ins_commute: "wf_map m \<Longrightarrow> k \<noteq> l \<Longrightarrow> ins k v (ins l w m) = ins l w (ins k v m)"
  by (rule ext_map) (auto simp: wf_ins get_ins fun_upd_twist)

lemma rem_ins_fresh: "wf_map m \<Longrightarrow> get m k = None \<Longrightarrow> rem k (ins k v m) = m"
  by (rule ext_map) (auto simp: wf_ins wf_rem get_ins get_rem fun_eq_iff)

end

interpretation bt: ordered_map bt_get bt_insert bt_remove bt_wf
  by unfold_locales (auto intro: bt_ext)

section \<open>Sums over the values of a map\<close>

text \<open>The sum of \<open>f\<close> over the stored values, the measure behind the token supply.\<close>

definition bt_sum :: "('v \<Rightarrow> nat) \<Rightarrow> ('k, 'v) btree_map \<Rightarrow> nat" where
  "bt_sum f m = sum_list (map (\<lambda>e. f (snd e)) m)"

lemma bt_sum_insert:
  assumes "bt_wf m"
  shows "bt_sum f (bt_insert k v m) + (case bt_get m k of None \<Rightarrow> 0 | Some w \<Rightarrow> f w) =
         bt_sum f m + f v"
  using assms
proof (induction m)
  case Nil
  then show ?case by (simp add: bt_sum_def)
next
  case (Cons e m)
  obtain k' w where e: "e = (k', w)" by (cases e)
  from Cons.prems have wf: "bt_wf m" and lt: "\<forall>x \<in> fst ` set m. k' < x"
    by (auto simp: bt_wf_Cons e)
  have fresh: "bt_get m k = None" if "k \<le> k'"
    using lt that by (force simp: bt_get_def map_of_eq_None_iff)
  show ?case
    using Cons.IH [OF wf] fresh
    by (auto simp: e bt_sum_def bt_get_def not_less)
qed

end
