(* ===== verification/Key_Value_Store.thy ===== *)
theory Key_Value_Store
  imports BTree_Map "HOL-Library.AList"
begin

text \<open>
  The storage layer of \<open>src/support.rs\<close>: the trait \<open>KeyValueStore\<close> as a record of its
  methods, its two implementations (\<open>MemStore\<close>, the store of the unit tests, and
  \<open>RocksDbStore\<close> over the database handle), and the path cell of the database. The traits
  \<open>Encode\<close> and \<open>Decode\<close> of the SCALE codec crate are a record too: the crate is a
  parameter, and \<open>codec_ok\<close> is what the program relies on.

  The interface the pallets use is the locale \<open>reliable_store\<close>: reads after writes and
  prefix scans of a store whose writes succeed. Its client lemmas say how a group of keys
  under one prefix, a \<open>storage_map\<close>, mirrors an in-memory map.
\<close>

section \<open>The traits\<close>

text \<open>\<open>KeyValueStore\<close>: every method takes the state of the store and returns it updated.\<close>

record 'st kv_store =
  kv_get :: "'st \<Rightarrow> bytes \<Rightarrow> bytes option"
  kv_put :: "'st \<Rightarrow> bytes \<Rightarrow> bytes \<Rightarrow> store_result \<times> 'st"
  kv_delete :: "'st \<Rightarrow> bytes \<Rightarrow> store_result \<times> 'st"
  kv_scan_prefix :: "'st \<Rightarrow> bytes \<Rightarrow> (bytes \<times> bytes) list"

text \<open>
  \<open>Encode + Decode\<close>: every call site decodes a whole slice and ignores what is left of it,
  so \<open>decode\<close> is the value or nothing.
\<close>

record 'a codec =
  encode :: "'a \<Rightarrow> bytes"
  decode :: "bytes \<Rightarrow> 'a option"

definition codec_ok :: "'a codec \<Rightarrow> bool" where
  "codec_ok c \<longleftrightarrow> (\<forall>x. decode c (encode c x) = Some x)"

definition key_codec_ok :: "'a codec \<Rightarrow> bool" where
  "key_codec_ok c \<longleftrightarrow> codec_ok c \<and> (\<forall>x. encode c x \<noteq> [])"

lemma decode_encode [simp]: "codec_ok c \<Longrightarrow> decode c (encode c x) = Some x"
  by (simp add: codec_ok_def)

lemma encode_inject: "codec_ok c \<Longrightarrow> encode c x = encode c y \<longleftrightarrow> x = y"
  by (metis decode_encode option.inject)

lemma key_codec_okD: "key_codec_ok c \<Longrightarrow> codec_ok c" "key_codec_ok c \<Longrightarrow> encode c x \<noteq> []"
  by (simp_all add: key_codec_ok_def)

section \<open>MemStore\<close>

type_synonym mem = "(bytes, bytes) btree_map"

definition mem_get :: "mem \<Rightarrow> bytes \<Rightarrow> bytes option" where
  "mem_get m key = bt_get m key"

definition mem_put :: "mem \<Rightarrow> bytes \<Rightarrow> bytes \<Rightarrow> store_result \<times> mem" where
  "mem_put m key value = (Ok_unit, bt_insert key value m)"

definition mem_delete :: "mem \<Rightarrow> bytes \<Rightarrow> store_result \<times> mem" where
  "mem_delete m key = (Ok_unit, bt_remove key m)"

definition mem_scan_prefix :: "mem \<Rightarrow> bytes \<Rightarrow> (bytes \<times> bytes) list" where
  "mem_scan_prefix m p = filter (\<lambda>e. prefix p (fst e)) m"

definition mem_store :: "mem kv_store" where
  "mem_store = \<lparr>kv_get = mem_get, kv_put = mem_put, kv_delete = mem_delete,
                kv_scan_prefix = mem_scan_prefix\<rparr>"

lemmas mem_store_defs = mem_store_def mem_get_def mem_put_def mem_delete_def mem_scan_prefix_def

section \<open>RocksDbStore\<close>

text \<open>
  The handle of the RocksDB crate, a parameter: each call may return an I/O error, and the
  iterator yields one result per entry.
\<close>

record 'db rocksdb =
  db_get :: "'db \<Rightarrow> bytes \<Rightarrow> string + bytes option"
  db_put :: "'db \<Rightarrow> bytes \<Rightarrow> bytes \<Rightarrow> store_result \<times> 'db"
  db_delete :: "'db \<Rightarrow> bytes \<Rightarrow> store_result \<times> 'db"
  db_iterator :: "'db \<Rightarrow> (string + bytes \<times> bytes) list"

definition rocks_get :: "'db rocksdb \<Rightarrow> 'db \<Rightarrow> bytes \<Rightarrow> bytes option" where
  "rocks_get R d key = (case db_get R d key of Inl _ \<Rightarrow> None | Inr v \<Rightarrow> v)"

definition rocks_scan_prefix :: "'db rocksdb \<Rightarrow> 'db \<Rightarrow> bytes \<Rightarrow> (bytes \<times> bytes) list" where
  "rocks_scan_prefix R d p =
     List.map_filter (\<lambda>kv. if prefix p (fst kv) then Some kv else None)
       (List.map_filter (\<lambda>res. case res of Inl _ \<Rightarrow> None | Inr kv \<Rightarrow> Some kv) (db_iterator R d))"

definition rocks_store :: "'db rocksdb \<Rightarrow> 'db kv_store" where
  "rocks_store R = \<lparr>kv_get = rocks_get R, kv_put = db_put R, kv_delete = db_delete R,
                    kv_scan_prefix = rocks_scan_prefix R\<rparr>"

text \<open>
  What RocksDB documents, in a run without I/O errors: reads return the last write, and the
  iterator from the start visits every entry once.
\<close>

definition rocks_healthy :: "'db rocksdb \<Rightarrow> ('db \<Rightarrow> bytes \<rightharpoonup> bytes) \<Rightarrow> bool" where
  "rocks_healthy R content \<longleftrightarrow>
     (\<forall>d k. db_get R d k = Inr (content d k)) \<and>
     (\<forall>d k v. fst (db_put R d k v) = Ok_unit \<and>
              content (snd (db_put R d k v)) = (content d)(k \<mapsto> v)) \<and>
     (\<forall>d k. fst (db_delete R d k) = Ok_unit \<and>
            content (snd (db_delete R d k)) = (content d)(k := None)) \<and>
     (\<forall>d. \<exists>kvs. db_iterator R d = map Inr kvs \<and> distinct (map fst kvs) \<and>
                (\<forall>k v. (k, v) \<in> set kvs \<longleftrightarrow> content d k = Some v))"

section \<open>The path of the database\<close>

text \<open>
  \<open>DB_PATH\<close> is a cell that can be set once, \<open>ROCKS_DB\<close> is opened on first use at the
  path the cell holds then. \<open>None\<close> is the panic of \<open>init_db_path\<close>.
\<close>

record db_cells =
  DB_PATH :: "string option"
  ROCKS_DB :: "string option"

definition init_db_path :: "string \<Rightarrow> db_cells \<Rightarrow> db_cells option" where
  "init_db_path path c =
     (case DB_PATH c of None \<Rightarrow> Some (c\<lparr>DB_PATH := Some path\<rparr>) | Some _ \<Rightarrow> None)"

definition db_path :: "db_cells \<Rightarrow> string" where
  "db_path c = (case DB_PATH c of None \<Rightarrow> ''state.db'' | Some p \<Rightarrow> p)"

definition force_rocks_db :: "db_cells \<Rightarrow> db_cells" where
  "force_rocks_db c =
     (case ROCKS_DB c of None \<Rightarrow> c\<lparr>ROCKS_DB := Some (db_path c)\<rparr> | Some _ \<Rightarrow> c)"

section \<open>Loading a map from a prefix\<close>

text \<open>
  The loop of the three pallet constructors: entries whose key is no longer than the prefix
  are skipped, and so are entries that do not decode.
\<close>

definition load_entry ::
  "bytes \<Rightarrow> 'k::linorder codec \<Rightarrow> 'v codec \<Rightarrow> ('k, 'v) btree_map \<Rightarrow> bytes \<times> bytes \<Rightarrow>
   ('k, 'v) btree_map" where
  "load_entry p ck cv m kv =
     (if length (fst kv) \<le> length p then m
      else case (decode ck (drop (length p) (fst kv)), decode cv (snd kv)) of
             (Some k, Some v) \<Rightarrow> bt_insert k v m
           | _ \<Rightarrow> m)"

definition load_entries ::
  "bytes \<Rightarrow> 'k::linorder codec \<Rightarrow> 'v codec \<Rightarrow> (bytes \<times> bytes) list \<Rightarrow> ('k, 'v) btree_map" where
  "load_entries p ck cv kvs = foldl (load_entry p ck cv) [] kvs"

lemma load_entry_encoded [simp]:
  "key_codec_ok ck \<Longrightarrow> codec_ok cv \<Longrightarrow>
   load_entry p ck cv m (p @ encode ck k, encode cv v) = bt_insert k v m"
  by (simp add: load_entry_def key_codec_okD)

lemma bt_wf_load_entry: "bt_wf m \<Longrightarrow> bt_wf (load_entry p ck cv m kv)"
  by (auto simp: load_entry_def split: option.splits)

lemma bt_wf_load_entries [simp, intro]: "bt_wf (load_entries p ck cv kvs)"
proof -
  have "bt_wf m \<Longrightarrow> bt_wf (foldl (load_entry p ck cv) m kvs)" for m
    by (induction kvs arbitrary: m) (auto intro: bt_wf_load_entry)
  then show ?thesis by (simp add: load_entries_def)
qed

lemma bt_get_foldl_load:
  assumes "key_codec_ok ck" and "codec_ok cv"
    and "\<And>key val. (key, val) \<in> set kvs \<Longrightarrow> \<exists>k v. key = p @ encode ck k \<and> val = encode cv v"
    and "distinct (map fst kvs)"
  shows "bt_get (foldl (load_entry p ck cv) m kvs) k =
         (case map_of kvs (p @ encode ck k) of None \<Rightarrow> bt_get m k | Some b \<Rightarrow> decode cv b)"
  using assms(3,4)
proof (induction kvs arbitrary: m)
  case Nil
  then show ?case by simp
next
  case (Cons e kvs)
  obtain k' v where e: "e = (p @ encode ck k', encode cv v)"
    using Cons.prems(1) by (metis list.set_intros(1) surj_pair)
  have "bt_get (foldl (load_entry p ck cv) (bt_insert k' v m) kvs) k =
        (case map_of kvs (p @ encode ck k) of
           None \<Rightarrow> bt_get (bt_insert k' v m) k | Some b \<Rightarrow> decode cv b)"
    using Cons.prems by (intro Cons.IH) auto
  moreover have "map_of kvs (p @ encode ck k') = None"
    using Cons.prems(2) by (simp add: e map_of_eq_None_iff)
  ultimately show ?case
    using assms(1,2) by (auto simp: e encode_inject key_codec_okD split: option.split)
qed

section \<open>Key spaces\<close>

text \<open>A prefix with the codecs of its keys and values: where a pallet keeps one map.\<close>

record ('k, 'v) storage_map =
  sm_prefix :: bytes
  sm_key :: "'k codec"
  sm_val :: "'v codec"

definition sm_ok :: "('k, 'v) storage_map \<Rightarrow> bool" where
  "sm_ok c \<longleftrightarrow> key_codec_ok (sm_key c) \<and> codec_ok (sm_val c)"

definition sm_at :: "('k, 'v) storage_map \<Rightarrow> 'k \<Rightarrow> bytes" where
  "sm_at c k = sm_prefix c @ encode (sm_key c) k"

definition sm_load :: "'st kv_store \<Rightarrow> ('k::linorder, 'v) storage_map \<Rightarrow> 'st \<Rightarrow> ('k, 'v) btree_map" where
  "sm_load K c s = load_entries (sm_prefix c) (sm_key c) (sm_val c) (kv_scan_prefix K s (sm_prefix c))"

text \<open>
  \<open>sm_view\<close> is the map a store holds under a prefix; \<open>sm_clean\<close> says that every entry
  under the prefix is an encoding.
\<close>

definition sm_view :: "'st kv_store \<Rightarrow> ('k, 'v) storage_map \<Rightarrow> 'st \<Rightarrow> 'k \<rightharpoonup> 'v" where
  "sm_view K c s k = (case kv_get K s (sm_at c k) of None \<Rightarrow> None | Some b \<Rightarrow> decode (sm_val c) b)"

definition sm_clean :: "'st kv_store \<Rightarrow> ('k, 'v) storage_map \<Rightarrow> 'st \<Rightarrow> bool" where
  "sm_clean K c s \<longleftrightarrow>
     (\<forall>key val. prefix (sm_prefix c) key \<longrightarrow> kv_get K s key = Some val \<longrightarrow>
        (\<exists>k v. key = sm_at c k \<and> val = encode (sm_val c) v))"

definition sm_mirrors ::
  "'st kv_store \<Rightarrow> ('k, 'v) storage_map \<Rightarrow> 'st \<Rightarrow> ('k, 'v) btree_map \<Rightarrow> bool" where
  "sm_mirrors K c s m \<longleftrightarrow> sm_clean K c s \<and> sm_view K c s = bt_get m"

definition sm_below ::
  "'st kv_store \<Rightarrow> ('k, 'v) storage_map \<Rightarrow> 'st \<Rightarrow> ('k, 'v) btree_map \<Rightarrow> bool" where
  "sm_below K c s m \<longleftrightarrow> sm_clean K c s \<and> sm_view K c s \<subseteq>\<^sub>m bt_get m"

declare sm_mirrors_def [synced_defs] sm_below_def [synced_defs]

lemma sm_at_inject: "sm_ok c \<Longrightarrow> sm_at c k = sm_at c l \<longleftrightarrow> k = l"
  by (simp add: sm_at_def sm_ok_def encode_inject key_codec_okD)

lemma prefix_sm_at [simp]: "prefix (sm_prefix c) (sm_at c k)"
  by (simp add: sm_at_def)

lemma sm_mirrors_below: "sm_mirrors K c s m \<Longrightarrow> sm_below K c s m"
  by (simp add: sm_mirrors_def sm_below_def)

section \<open>The interface of a store\<close>

locale reliable_store =
  fixes K :: "'st kv_store"
    and inv :: "'st \<Rightarrow> bool"
  assumes put_ok: "inv s \<Longrightarrow> fst (kv_put K s k v) = Ok_unit"
    and delete_ok: "inv s \<Longrightarrow> fst (kv_delete K s k) = Ok_unit"
    and get_put: "inv s \<Longrightarrow> kv_get K (snd (kv_put K s k v)) = (kv_get K s)(k \<mapsto> v)"
    and get_delete: "inv s \<Longrightarrow> kv_get K (snd (kv_delete K s k)) = (kv_get K s)(k := None)"
    and scan_distinct: "inv s \<Longrightarrow> distinct (map fst (kv_scan_prefix K s p))"
    and scan_set: "inv s \<Longrightarrow>
      (k, v) \<in> set (kv_scan_prefix K s p) \<longleftrightarrow> prefix p k \<and> kv_get K s k = Some v"
    and inv_put: "inv s \<Longrightarrow> inv (snd (kv_put K s k v))"
    and inv_delete: "inv s \<Longrightarrow> inv (snd (kv_delete K s k))"
begin

lemma map_of_scan:
  "inv s \<Longrightarrow> prefix p k \<Longrightarrow> map_of (kv_scan_prefix K s p) k = kv_get K s k"
  by (cases "kv_get K s k")
    (auto simp: map_of_eq_None_iff scan_set scan_distinct image_iff intro!: map_of_is_SomeI)

text \<open>Loading a clean key space gives exactly what the store holds there.\<close>

lemma bt_get_sm_load:
  assumes "inv s" and "sm_ok c" and "sm_clean K c s"
  shows "bt_get (sm_load K c s) = sm_view K c s"
proof
  fix k
  have enc: "\<exists>k v. key = sm_prefix c @ encode (sm_key c) k \<and> val = encode (sm_val c) v"
    if "(key, val) \<in> set (kv_scan_prefix K s (sm_prefix c))" for key val
    using that assms by (auto simp: scan_set sm_clean_def sm_at_def)
  have "bt_get (sm_load K c s) k =
        (case map_of (kv_scan_prefix K s (sm_prefix c)) (sm_at c k) of
           None \<Rightarrow> None | Some b \<Rightarrow> decode (sm_val c) b)"
    unfolding sm_load_def load_entries_def sm_at_def
    using assms enc by (subst bt_get_foldl_load) (auto simp: sm_ok_def scan_distinct split: option.split)
  then show "bt_get (sm_load K c s) k = sm_view K c s k"
    using assms by (simp add: map_of_scan sm_view_def)
qed

lemma sm_load_mirrors:
  assumes "inv s" and "sm_ok c" and "sm_mirrors K c s m" and "bt_wf m"
  shows "sm_load K c s = m"
proof (rule bt_ext)
  show "bt_wf (sm_load K c s)" by (simp add: sm_load_def)
  show "bt_get (sm_load K c s) = bt_get m"
    using assms by (simp add: bt_get_sm_load sm_mirrors_def)
qed (fact assms(4))

lemma sm_load_below:
  "inv s \<Longrightarrow> sm_ok c \<Longrightarrow> sm_below K c s m \<Longrightarrow> bt_get (sm_load K c s) \<subseteq>\<^sub>m bt_get m"
  by (simp add: bt_get_sm_load sm_below_def)

text \<open>Writes and deletions inside a key space.\<close>

lemma sm_clean_put:
  "inv s \<Longrightarrow> sm_clean K c s \<Longrightarrow> sm_clean K c (snd (kv_put K s (sm_at c k) (encode (sm_val c) v)))"
  unfolding sm_clean_def get_put by (metis fun_upd_apply option.inject)

lemma sm_view_put:
  "inv s \<Longrightarrow> sm_ok c \<Longrightarrow>
   sm_view K c (snd (kv_put K s (sm_at c k) (encode (sm_val c) v))) = (sm_view K c s)(k \<mapsto> v)"
  by (auto simp: sm_view_def get_put sm_at_inject fun_eq_iff sm_ok_def)

lemma sm_clean_delete:
  "inv s \<Longrightarrow> sm_clean K c s \<Longrightarrow> sm_clean K c (snd (kv_delete K s key))"
  unfolding sm_clean_def get_delete by (metis fun_upd_apply option.distinct(1))

lemma sm_view_delete:
  "inv s \<Longrightarrow> sm_ok c \<Longrightarrow>
   sm_view K c (snd (kv_delete K s (sm_at c k))) = (sm_view K c s)(k := None)"
  by (auto simp: sm_view_def get_delete sm_at_inject fun_eq_iff)

lemma sm_mirrors_put:
  "inv s \<Longrightarrow> sm_ok c \<Longrightarrow> sm_mirrors K c s m \<Longrightarrow>
   sm_mirrors K c (snd (kv_put K s (sm_at c k) (encode (sm_val c) v))) (bt_insert k v m)"
  by (simp add: sm_mirrors_def sm_clean_put sm_view_put)

lemma sm_below_delete:
  "inv s \<Longrightarrow> sm_ok c \<Longrightarrow> sm_below K c s m \<Longrightarrow>
   sm_below K c (snd (kv_delete K s (sm_at c k))) (bt_remove k m)"
  by (auto simp: sm_below_def sm_clean_delete sm_view_delete map_le_def)

text \<open>Writes outside a key space.\<close>

lemma sm_put_outside:
  assumes "inv s" and "\<not> prefix (sm_prefix c) key"
  shows "sm_clean K c (snd (kv_put K s key v)) = sm_clean K c s"
    and "sm_view K c (snd (kv_put K s key v)) = sm_view K c s"
proof -
  have "sm_at c k \<noteq> key" for k
    using assms(2) by auto
  then show "sm_view K c (snd (kv_put K s key v)) = sm_view K c s"
    using assms(1) by (simp add: sm_view_def get_put fun_eq_iff)
  show "sm_clean K c (snd (kv_put K s key v)) = sm_clean K c s"
    using assms unfolding sm_clean_def get_put [OF assms(1)] by (metis fun_upd_apply)
qed

lemma sm_delete_outside:
  assumes "inv s" and "\<not> prefix (sm_prefix c) key"
  shows "sm_clean K c (snd (kv_delete K s key)) = sm_clean K c s"
    and "sm_view K c (snd (kv_delete K s key)) = sm_view K c s"
proof -
  have "sm_at c k \<noteq> key" for k
    using assms(2) by auto
  then show "sm_view K c (snd (kv_delete K s key)) = sm_view K c s"
    using assms(1) by (simp add: sm_view_def get_delete fun_eq_iff)
  show "sm_clean K c (snd (kv_delete K s key)) = sm_clean K c s"
    using assms unfolding sm_clean_def get_delete [OF assms(1)] by (metis fun_upd_apply)
qed

lemmas sm_outside = sm_put_outside sm_delete_outside

end

section \<open>The two stores provide the interface\<close>

lemma mem_scan_filter:
  "bt_wf m \<Longrightarrow> (k, v) \<in> set (mem_scan_prefix m p) \<longleftrightarrow> prefix p k \<and> bt_get m k = Some v"
  by (auto simp: mem_scan_prefix_def bt_get_eq_Some_iff)

interpretation mem: reliable_store mem_store bt_wf
proof unfold_locales
  fix m :: mem and p
  assume wf: "bt_wf m"
  show "distinct (map fst (kv_scan_prefix mem_store m p))"
    using bt_wf_distinct [OF wf] by (simp add: mem_store_defs distinct_map_filter)
  show "(k, v) \<in> set (kv_scan_prefix mem_store m p) \<longleftrightarrow>
        prefix p k \<and> kv_get mem_store m k = Some v" for k v
    using mem_scan_filter [OF wf] by (simp add: mem_store_def mem_get_def)
qed (auto simp: mem_store_defs)

lemma map_filter_Inr:
  "List.map_filter (\<lambda>res. case res of Inl _ \<Rightarrow> None | Inr kv \<Rightarrow> Some kv) (map Inr kvs) = kvs"
  by (induction kvs) (auto simp: List.map_filter_simps)

lemma map_filter_guard:
  "List.map_filter (\<lambda>x. if P x then Some x else None) xs = filter P xs"
  by (induction xs) (auto simp: List.map_filter_simps)

text \<open>A database that never fails, as an association list: it meets the hypothesis.\<close>

definition assoc_rocksdb :: "(bytes \<times> bytes) list rocksdb" where
  "assoc_rocksdb = \<lparr>db_get = (\<lambda>d k. Inr (map_of d k)), db_put = (\<lambda>d k v. (Ok_unit, (k, v) # d)),
     db_delete = (\<lambda>d k. (Ok_unit, AList.delete k d)), db_iterator = (\<lambda>d. map Inr (AList.clearjunk d))\<rparr>"

lemma assoc_rocksdb_healthy: "rocks_healthy assoc_rocksdb map_of"
proof -
  have "(k, v) \<in> set (AList.clearjunk d) \<longleftrightarrow> map_of d k = Some v" for d :: "(bytes \<times> bytes) list" and k v
    by (metis distinct_clearjunk map_of_clearjunk map_of_eq_Some_iff)
  then show ?thesis
    by (auto simp: rocks_healthy_def assoc_rocksdb_def delete_conv' distinct_clearjunk)
qed

text \<open>The two cells at the start of the process.\<close>

definition fresh_cells :: db_cells where
  "fresh_cells = \<lparr>DB_PATH = None, ROCKS_DB = None\<rparr>"

section \<open>Properties\<close>

text \<open>C39: Over a RocksDB handle that reads back what was written and iterates over every entry
  once, \<open>RocksDbStore\<close> keeps the whole contract the pallets rely on: puts and deletes
  succeed and change exactly their key, and a prefix scan yields exactly the entries under
  the prefix, each once.\<close>

theorem rocks_store_contract:
  assumes "rocks_healthy R content"
  shows "reliable_store (rocks_store R) (\<lambda>_. True)"
proof -
  have get: "db_get R d k = Inr (content d k)" for d k
    using assms by (simp add: rocks_healthy_def)
  have iter: "\<exists>kvs. db_iterator R d = map Inr kvs \<and> distinct (map fst kvs) \<and>
                (\<forall>k v. (k, v) \<in> set kvs \<longleftrightarrow> content d k = Some v)" for d
    using assms by (simp add: rocks_healthy_def)
  have scan: "\<exists>kvs. kv_scan_prefix (rocks_store R) d p = filter (\<lambda>kv. prefix p (fst kv)) kvs \<and>
                distinct (map fst kvs) \<and> (\<forall>k v. (k, v) \<in> set kvs \<longleftrightarrow> content d k = Some v)" for d p
    using iter [of d] by (auto simp: rocks_store_def rocks_scan_prefix_def map_filter_Inr map_filter_guard)
  show ?thesis
  proof
    fix d p k v
    obtain kvs where "kv_scan_prefix (rocks_store R) d p = filter (\<lambda>kv. prefix p (fst kv)) kvs"
      and "distinct (map fst kvs)" and "\<forall>k v. (k, v) \<in> set kvs \<longleftrightarrow> content d k = Some v"
      using scan by blast
    then show "distinct (map fst (kv_scan_prefix (rocks_store R) d p))"
      and "(k, v) \<in> set (kv_scan_prefix (rocks_store R) d p) \<longleftrightarrow>
           prefix p k \<and> kv_get (rocks_store R) d k = Some v"
      by (auto simp: distinct_map_filter rocks_store_def rocks_get_def get)
  qed (use assms in \<open>auto simp: rocks_healthy_def rocks_store_def rocks_get_def\<close>)
qed

theorem rocks_store_contract_witness:
  "rocks_healthy assoc_rocksdb map_of \<and> reliable_store (rocks_store assoc_rocksdb) (\<lambda>_. True)"
  using rocks_store_contract [OF assoc_rocksdb_healthy] assoc_rocksdb_healthy by blast

text \<open>\<open>init_db_path\<close> panics exactly when a path was set before, whether or not the
  database is open. Called before the first use it decides where the database opens; called
  after it, it returns, the database stays where it was opened, and \<open>db_path\<close> then names
  a path that is not the open one.\<close>

lemma init_db_path_spec:
  "(init_db_path path c = None \<longleftrightarrow> DB_PATH c \<noteq> None) \<and>
   (\<exists>c. init_db_path path fresh_cells = Some c \<and> ROCKS_DB (force_rocks_db c) = Some path) \<and>
   (\<exists>c. init_db_path path (force_rocks_db fresh_cells) = Some c \<and>
        ROCKS_DB (force_rocks_db c) = Some ''state.db'' \<and> db_path c = path)"
  by (simp add: init_db_path_def force_rocks_db_def db_path_def fresh_cells_def split: option.splits)

end
