(* ===== verification/Scale_Reference.thy ===== *)
theory Scale_Reference
  imports Key_Value_Store
begin

text \<open>
  A concrete codec for the parameters of the model: little-endian fixed-width integers and
  length-prefixed vectors and strings, as the SCALE format lays them out. It shows that the
  laws the theorems ask of the codec crate can hold, and the witnesses evaluate with it. It
  models no code of the repository.

  A parser takes a byte list to a value and the bytes left; \<open>parses p e\<close> says that \<open>p\<close>
  reads back what \<open>e\<close> wrote, whatever follows.
\<close>

type_synonym 'a parser = "bytes \<Rightarrow> ('a \<times> bytes) option"

definition parses :: "'a parser \<Rightarrow> ('a \<Rightarrow> bytes) \<Rightarrow> bool" where
  "parses p e \<longleftrightarrow> (\<forall>x r. p (e x @ r) = Some (x, r))"

definition codec_of :: "'a parser \<Rightarrow> ('a \<Rightarrow> bytes) \<Rightarrow> 'a codec" where
  "codec_of p e = \<lparr>encode = e, decode = (\<lambda>bs. map_option fst (p bs))\<rparr>"

lemma parsesD [simp]: "parses p e \<Longrightarrow> p (e x @ r) = Some (x, r)"
  by (simp add: parses_def)

lemma parses_Nil [simp]: "parses p e \<Longrightarrow> p (e x) = Some (x, [])"
  using parsesD [of p e x "[]"] by simp

lemma codec_ok_codec_of: "parses p e \<Longrightarrow> codec_ok (codec_of p e)"
  by (simp add: codec_ok_def codec_of_def)

lemma key_codec_ok_codec_of:
  "parses p e \<Longrightarrow> (\<And>x. e x \<noteq> []) \<Longrightarrow> key_codec_ok (codec_of p e)"
  by (simp add: key_codec_ok_def codec_ok_codec_of) (simp add: codec_of_def)

section \<open>Fixed-width integers\<close>

fun to_le :: "nat \<Rightarrow> nat \<Rightarrow> bytes" where
  "to_le 0 x = []"
| "to_le (Suc n) x = word_of_nat (x mod 256) # to_le n (x div 256)"

fun from_le :: "bytes \<Rightarrow> nat" where
  "from_le [] = 0"
| "from_le (b # bs) = unat b + 256 * from_le bs"

lemma length_to_le [simp]: "length (to_le n x) = n"
  by (induction n arbitrary: x) auto

lemma from_le_to_le: "x < 256 ^ n \<Longrightarrow> from_le (to_le n x) = x"
proof (induction n arbitrary: x)
  case 0
  then show ?case by simp
next
  case (Suc n)
  then have "from_le (to_le n (x div 256)) = x div 256"
    by (intro Suc.IH) (simp add: less_mult_imp_div_less mult.commute)
  then show ?case
    by (simp add: unat_of_nat)
qed

definition word_enc :: "nat \<Rightarrow> 'w::len word \<Rightarrow> bytes" where
  "word_enc n w = to_le n (unat w)"

definition word_par :: "nat \<Rightarrow> 'w::len word parser" where
  "word_par n bs =
     (if length bs < n then None else Some (word_of_nat (from_le (take n bs)), drop n bs))"

lemma parses_word:
  assumes "LENGTH('w) \<le> 8 * n"
  shows "parses (word_par n :: 'w::len word parser) (word_enc n)"
proof -
  have "unat w < 256 ^ n" for w :: "'w word"
  proof -
    have "unat w < 2 ^ LENGTH('w)"
      by (fact unsigned_less)
    also have "\<dots> \<le> 2 ^ (8 * n)"
      using assms by (simp add: power_increasing)
    finally show ?thesis
      by (simp add: power_mult)
  qed
  then show ?thesis
    by (simp add: parses_def word_par_def word_enc_def from_le_to_le)
qed

definition u32_codec :: "u32 codec" where
  "u32_codec = codec_of (word_par 4) (word_enc 4)"

definition u128_codec :: "u128 codec" where
  "u128_codec = codec_of (word_par 16) (word_enc 16)"

lemma u32_codec_ok [simp]: "codec_ok u32_codec"
  by (simp add: u32_codec_def codec_ok_codec_of parses_word)

lemma u128_codec_ok [simp]: "codec_ok u128_codec"
  by (simp add: u128_codec_def codec_ok_codec_of parses_word)

section \<open>Compact lengths and vectors\<close>

text \<open>
  The three short modes of a compact length. A length of \<open>2 ^ 30\<close> or more is written in
  the fourth mode, item by item with a marker, so that the codec is total.
\<close>

definition compact :: "nat \<Rightarrow> bytes" where
  "compact n =
     (if n < 64 then to_le 1 (4 * n)
      else if n < 2 ^ 14 then to_le 2 (4 * n + 1)
      else if n < 2 ^ 30 then to_le 4 (4 * n + 2)
      else [3])"

definition compact_width :: "nat \<Rightarrow> nat" where
  "compact_width mode = (if mode = 0 then 1 else if mode = 1 then 2 else if mode = 2 then 4 else 1)"

definition compact_par :: "nat option parser" where
  "compact_par bs =
     (case bs of
        [] \<Rightarrow> None
      | b # _ \<Rightarrow>
         (let mode = unat b mod 4; w = compact_width mode
          in if length bs < w then None
             else if mode = 3 then Some (None, drop 1 bs)
             else Some (Some (from_le (take w bs) div 4), drop w bs)))"

lemma compact_par_to_le:
  assumes "x < 256 ^ k" and "k = compact_width (x mod 4)" and "x mod 4 \<noteq> 3"
  shows "compact_par (to_le k x @ r) = Some (Some (x div 4), r)"
proof -
  obtain k' where k': "k = Suc k'"
    using assms(2) by (cases k) (auto simp: compact_width_def split: if_splits)
  then obtain b bs where bs: "to_le k x @ r = b # bs" and b: "b = word_of_nat (x mod 256)"
    by simp
  have mode: "unat b mod 4 = x mod 4"
    by (simp add: b unat_of_nat mod_mod_cancel)
  have "take k (b # bs) = to_le k x" and "drop k (b # bs) = r" and "k \<le> length (b # bs)"
    unfolding bs [symmetric] by simp_all
  then show ?thesis
    using assms(3) mode unfolding bs compact_par_def
    by (simp add: assms(2) [symmetric] from_le_to_le [OF assms(1)] Let_def)
qed

lemma compact_par_compact:
  "compact_par (compact n @ r) = Some (if n < 2 ^ 30 then Some n else None, r)"
proof -
  have div_mod: "(4 * n + 1) mod 4 = 1" "(4 * n + 2) mod 4 = 2"
    "(4 * n + 1) div 4 = n" "(4 * n + 2) div 4 = n"
    by presburger+
  consider (a) "n < 64" | (b) "64 \<le> n" "n < 2 ^ 14" | (c) "2 ^ 14 \<le> n" "n < 2 ^ 30"
    | (d) "2 ^ 30 \<le> n"
    by linarith
  then show ?thesis
  proof cases
    case a
    then have "compact_par (to_le 1 (4 * n) @ r) = Some (Some n, r)"
      by (subst compact_par_to_le) (simp_all add: compact_width_def)
    with a show ?thesis by (simp add: compact_def)
  next
    case b
    then have "compact_par (to_le 2 (4 * n + 1) @ r) = Some (Some n, r)"
      by (subst compact_par_to_le) (simp_all only: compact_width_def div_mod, simp_all)
    with b show ?thesis by (simp add: compact_def)
  next
    case c
    then have "compact_par (to_le 4 (4 * n + 2) @ r) = Some (Some n, r)"
      by (subst compact_par_to_le) (simp_all only: compact_width_def div_mod, simp_all)
    with c show ?thesis by (simp add: compact_def)
  next
    case d
    then show ?thesis
      by (simp add: compact_def compact_par_def compact_width_def)
  qed
qed

lemma compact_not_Nil [simp]: "compact n \<noteq> []"
proof -
  have "to_le k x \<noteq> []" if "k \<noteq> 0" for k x
    using that by (cases k) simp_all
  then show ?thesis by (simp add: compact_def)
qed

fun items_enc :: "('a \<Rightarrow> bytes) \<Rightarrow> 'a list \<Rightarrow> bytes" where
  "items_enc e [] = [0]"
| "items_enc e (x # xs) = 1 # e x @ items_enc e xs"

fun items_par :: "'a parser \<Rightarrow> nat \<Rightarrow> 'a list parser" where
  "items_par p 0 bs = None"
| "items_par p (Suc f) bs =
     (case bs of
        [] \<Rightarrow> None
      | b # bs' \<Rightarrow>
         if b = 0 then Some ([], bs')
         else (case p bs' of
                 None \<Rightarrow> None
               | Some (x, r) \<Rightarrow> map_option (\<lambda>(xs, r'). (x # xs, r')) (items_par p f r)))"

fun times_par :: "'a parser \<Rightarrow> nat \<Rightarrow> 'a list parser" where
  "times_par p 0 bs = Some ([], bs)"
| "times_par p (Suc n) bs =
     (case p bs of
        None \<Rightarrow> None
      | Some (x, r) \<Rightarrow> map_option (\<lambda>(xs, r'). (x # xs, r')) (times_par p n r))"

definition vec_enc :: "('a \<Rightarrow> bytes) \<Rightarrow> 'a list \<Rightarrow> bytes" where
  "vec_enc e xs =
     compact (length xs) @ (if length xs < 2 ^ 30 then concat (map e xs) else items_enc e xs)"

definition vec_par :: "'a parser \<Rightarrow> 'a list parser" where
  "vec_par p bs =
     (case compact_par bs of
        None \<Rightarrow> None
      | Some (Some n, r) \<Rightarrow> times_par p n r
      | Some (None, r) \<Rightarrow> items_par p (length r) r)"

lemma times_par_concat:
  "parses p e \<Longrightarrow> times_par p (length xs) (concat (map e xs) @ r) = Some (xs, r)"
  by (induction xs) auto

lemma items_par_items:
  "parses p e \<Longrightarrow> length xs < f \<Longrightarrow> items_par p f (items_enc e xs @ r) = Some (xs, r)"
proof (induction xs arbitrary: f)
  case Nil
  then show ?case by (cases f) auto
next
  case (Cons x xs)
  then show ?case by (cases f) auto
qed

lemma length_items_enc: "length xs < length (items_enc e xs)"
  by (induction xs) auto

lemma parses_vec: "parses p e \<Longrightarrow> parses (vec_par p) (vec_enc e)"
  unfolding parses_def
proof (intro allI)
  fix xs r
  assume "\<forall>x r. p (e x @ r) = Some (x, r)"
  then have pe: "parses p e" by (simp add: parses_def)
  show "vec_par p (vec_enc e xs @ r) = Some (xs, r)"
    using items_par_items [OF pe, of xs "length (items_enc e xs @ r)" r] length_items_enc [of xs e]
    by (simp add: vec_par_def vec_enc_def compact_par_compact times_par_concat [OF pe])
qed

section \<open>Strings\<close>

text \<open>A string is the vector of its bytes.\<close>

definition char_enc :: "char \<Rightarrow> bytes" where
  "char_enc c = [byte_of c]"

definition char_par :: "char parser" where
  "char_par bs = (case bs of [] \<Rightarrow> None | b # r \<Rightarrow> Some (char_of (unat b), r))"

lemma parses_char: "parses char_par char_enc"
  by (simp add: parses_def char_par_def char_enc_def)

definition string_codec :: "string codec" where
  "string_codec = codec_of (vec_par char_par) (vec_enc char_enc)"

lemma string_codec_ok [simp]: "key_codec_ok string_codec" "codec_ok string_codec"
proof -
  show "key_codec_ok string_codec"
    unfolding string_codec_def
    by (rule key_codec_ok_codec_of) (auto simp: parses_vec parses_char vec_enc_def)
  then show "codec_ok string_codec"
    by (rule key_codec_okD)
qed

end
