(* ===== verification/System_Pallet.thy ===== *)
theory System_Pallet
  imports Scale_Reference
begin

text \<open>
  The system pallet, \<open>src/system.rs\<close>: the block number and the nonces of the accounts, each
  written to the store when it changes and read back by \<open>Pallet::new\<close>. The account type is
  generic, as in the source; block numbers and nonces are \<open>u32\<close>, as every \<open>Config\<close> of the
  repository sets them. \<open>checked_add(..).unwrap()\<close> panics at \<open>u32::MAX\<close>: the result is \<open>None\<close>.
\<close>

definition PREFIX_BLOCK_NUMBER :: bytes where
  "PREFIX_BLOCK_NUMBER = byte_str ''system:block_number''"

definition PREFIX_NONCE :: bytes where
  "PREFIX_NONCE = byte_str ''system:nonce:''"

record 'a system_pallet =
  sys_block_number :: u32
  sys_nonce :: "('a, u32) btree_map"

definition system_new ::
  "'st kv_store \<Rightarrow> 'a::linorder codec \<Rightarrow> u32 codec \<Rightarrow> 'st \<Rightarrow> 'a system_pallet" where
  "system_new K ca cu s =
     (let bn = (case kv_get K s PREFIX_BLOCK_NUMBER of
                  None \<Rightarrow> 0
                | Some b \<Rightarrow> (case decode cu b of None \<Rightarrow> 0 | Some n \<Rightarrow> n))
      in \<lparr>sys_block_number = bn,
          sys_nonce = load_entries PREFIX_NONCE ca cu (kv_scan_prefix K s PREFIX_NONCE)\<rparr>)"

definition block_number :: "'a system_pallet \<Rightarrow> u32" where
  "block_number p = sys_block_number p"

definition nonce :: "'a system_pallet \<Rightarrow> 'a \<Rightarrow> u32" where
  "nonce p who = (case bt_get (sys_nonce p) who of None \<Rightarrow> 0 | Some n \<Rightarrow> n)"

text \<open>A failed write is only logged, so the result of \<open>put\<close> is dropped.\<close>

definition inc_block_number ::
  "'st kv_store \<Rightarrow> u32 codec \<Rightarrow> 'a system_pallet \<times> 'st \<Rightarrow> ('a system_pallet \<times> 'st) option" where
  "inc_block_number K cu ps =
     (case checked_add (sys_block_number (fst ps)) 1 of
        None \<Rightarrow> None
      | Some n \<Rightarrow>
         Some ((fst ps)\<lparr>sys_block_number := n\<rparr>,
               snd (kv_put K (snd ps) PREFIX_BLOCK_NUMBER (encode cu n))))"

definition inc_nonce ::
  "'st kv_store \<Rightarrow> 'a::linorder codec \<Rightarrow> u32 codec \<Rightarrow> 'a \<Rightarrow> 'a system_pallet \<times> 'st \<Rightarrow>
   ('a system_pallet \<times> 'st) option" where
  "inc_nonce K ca cu who ps =
     (let user_nonce = (case bt_get (sys_nonce (fst ps)) who of None \<Rightarrow> 0 | Some n \<Rightarrow> n)
      in case checked_add user_nonce 1 of
           None \<Rightarrow> None
         | Some new_nonce \<Rightarrow>
            Some ((fst ps)\<lparr>sys_nonce := bt_insert who new_nonce (sys_nonce (fst ps))\<rparr>,
                  snd (kv_put K (snd ps) (PREFIX_NONCE @ encode ca who) (encode cu new_nonce))))"

declare inc_block_number_def [pallet_defs] inc_nonce_def [pallet_defs]

section \<open>Effect on the in-memory state\<close>

lemma inc_block_number_cases:
  obtains (panic) "inc_block_number K cu (p, s) = None" and "unat (block_number p) = 2 ^ 32 - 1"
  | (ok) "inc_block_number K cu (p, s) =
      Some (p\<lparr>sys_block_number := block_number p + 1\<rparr>,
            snd (kv_put K s PREFIX_BLOCK_NUMBER (encode cu (block_number p + 1))))"
    and "unat (block_number p + 1) = Suc (unat (block_number p))"
  using checked_add_one_cases [of "sys_block_number p"]
  by (auto simp: inc_block_number_def block_number_def)

lemma inc_nonce_cases:
  obtains (panic) "inc_nonce K ca cu who (p, s) = None" and "unat (nonce p who) = 2 ^ 32 - 1"
  | (ok) "inc_nonce K ca cu who (p, s) =
      Some (p\<lparr>sys_nonce := bt_insert who (nonce p who + 1) (sys_nonce p)\<rparr>,
            snd (kv_put K s (PREFIX_NONCE @ encode ca who) (encode cu (nonce p who + 1))))"
    and "unat (nonce p who + 1) = Suc (unat (nonce p who))"
  using checked_add_one_cases [of "nonce p who"]
  by (auto simp: inc_nonce_def nonce_def Let_def)

lemma nonce_upd [simp]:
  "nonce (p\<lparr>sys_nonce := bt_insert who n (sys_nonce p)\<rparr>) a = (if a = who then n else nonce p a)"
  by (simp add: nonce_def)

lemma block_number_upd [simp]:
  "block_number (p\<lparr>sys_block_number := n\<rparr>) = n" "block_number (p\<lparr>sys_nonce := m\<rparr>) = block_number p"
  "nonce (p\<lparr>sys_block_number := n\<rparr>) = nonce p"
  by (simp_all add: block_number_def nonce_def fun_eq_iff)

lemma inc_nonce_SomeD:
  assumes "inc_nonce K ca cu who (p, s) = Some (p', s')"
  shows "nonce p' a = (if a = who then nonce p who + 1 else nonce p a)"
    and "unat (nonce p who + 1) = Suc (unat (nonce p who))"
    and "block_number p' = block_number p"
  using assms by (cases rule: inc_nonce_cases [of K ca cu who p s]; auto)+

section \<open>The pallet and the store\<close>

definition nonce_map :: "'a codec \<Rightarrow> u32 codec \<Rightarrow> ('a, u32) storage_map" where
  "nonce_map ca cu = \<lparr>sm_prefix = PREFIX_NONCE, sm_key = ca, sm_val = cu\<rparr>"

text \<open>The store holds what the pallet holds.\<close>

definition system_synced ::
  "'st kv_store \<Rightarrow> 'a::linorder codec \<Rightarrow> u32 codec \<Rightarrow> 'a system_pallet \<times> 'st \<Rightarrow> bool" where
  "system_synced K ca cu ps \<longleftrightarrow>
     bt_wf (sys_nonce (fst ps)) \<and>
     sm_mirrors K (nonce_map ca cu) (snd ps) (sys_nonce (fst ps)) \<and>
     block_number (system_new K ca cu (snd ps)) = block_number (fst ps)"

declare system_synced_def [synced_defs]

lemma apart_nonce_block_number [simp]:
  "apart PREFIX_NONCE PREFIX_BLOCK_NUMBER" "apart PREFIX_BLOCK_NUMBER PREFIX_NONCE"
  by (simp_all add: apart_def PREFIX_NONCE_def PREFIX_BLOCK_NUMBER_def byte_str_def byte_of_def)

lemma nonce_map_simps [simp]:
  "sm_prefix (nonce_map ca cu) = PREFIX_NONCE" "sm_key (nonce_map ca cu) = ca"
  "sm_val (nonce_map ca cu) = cu" "sm_at (nonce_map ca cu) who = PREFIX_NONCE @ encode ca who"
  by (simp_all add: nonce_map_def sm_at_def)

lemma nonce_map_ok [simp]: "sm_ok (nonce_map ca cu) \<longleftrightarrow> key_codec_ok ca \<and> codec_ok cu"
  by (simp add: sm_ok_def)

lemma sys_nonce_system_new: "sys_nonce (system_new K ca cu s) = sm_load K (nonce_map ca cu) s"
  by (simp add: system_new_def sm_load_def Let_def)

lemma block_number_system_new_put_self:
  "kv_get K s PREFIX_BLOCK_NUMBER = Some (encode cu n) \<Longrightarrow> codec_ok cu \<Longrightarrow>
   block_number (system_new K ca cu s) = n"
  by (simp add: system_new_def block_number_def Let_def)

lemma block_number_system_new_cong:
  "kv_get K s PREFIX_BLOCK_NUMBER = kv_get K s' PREFIX_BLOCK_NUMBER \<Longrightarrow>
   block_number (system_new K ca cu s) = block_number (system_new K ca cu s')"
  by (simp add: system_new_def block_number_def Let_def)

lemma system_ext: "block_number p = block_number q \<Longrightarrow> sys_nonce p = sys_nonce q \<Longrightarrow>
  (p :: 'a system_pallet) = q"
  by (simp add: block_number_def)

context reliable_store
begin

text \<open>A synced pallet is what a restart finds.\<close>

lemma system_restart:
  assumes "inv s" and "key_codec_ok ca" and "codec_ok cu" and "system_synced K ca cu (p, s)"
  shows "system_new K ca cu s = p"
  using assms by (intro system_ext) (auto simp: system_synced_def sys_nonce_system_new sm_load_mirrors)

lemma system_synced_inc_block_number:
  assumes "inv s" and "codec_ok cu" and "system_synced K ca cu (p, s)"
    and "inc_block_number K cu (p, s) = Some (p', s')"
  shows "system_synced K ca cu (p', s')"
proof (cases rule: inc_block_number_cases [of K cu p s])
  case panic
  with assms(4) show ?thesis by simp
next
  case ok
  have "\<not> prefix PREFIX_NONCE PREFIX_BLOCK_NUMBER"
    using apart_append [of PREFIX_NONCE PREFIX_BLOCK_NUMBER "[]"] by simp
  with ok assms show ?thesis
    by (auto simp: system_synced_def sm_mirrors_def sm_outside get_put
        intro!: block_number_system_new_put_self)
qed

lemma system_synced_inc_nonce:
  assumes "inv s" and "key_codec_ok ca" and "codec_ok cu" and "system_synced K ca cu (p, s)"
    and "inc_nonce K ca cu who (p, s) = Some (p', s')"
  shows "system_synced K ca cu (p', s')"
proof (cases rule: inc_nonce_cases [of K ca cu who p s])
  case panic
  with assms(5) show ?thesis by simp
next
  case ok
  let ?key = "PREFIX_NONCE @ encode ca who"
  have "kv_get K s' PREFIX_BLOCK_NUMBER = kv_get K s PREFIX_BLOCK_NUMBER"
    using ok assms(1,5) apart_append_neq [of PREFIX_BLOCK_NUMBER PREFIX_NONCE "[]" "encode ca who"]
    by (simp add: get_put)
  with ok assms show ?thesis
    using sm_mirrors_put [of s "nonce_map ca cu" "sys_nonce p" who "nonce p who + 1"]
      block_number_system_new_cong [of K s' s ca cu]
    by (auto simp: system_synced_def)
qed

lemma inv_inc_block_number:
  "inv s \<Longrightarrow> inc_block_number K cu (p, s) = Some (p', s') \<Longrightarrow> inv s'"
  by (auto simp: inc_block_number_def inv_put split: option.splits)

lemma inv_inc_nonce: "inv s \<Longrightarrow> inc_nonce K ca cu who (p, s) = Some (p', s') \<Longrightarrow> inv s'"
  by (auto simp: inc_nonce_def inv_put Let_def split: option.splits)

text \<open>The system pallet writes under its own keys only.\<close>

lemma inc_block_number_frame:
  assumes "inv s" and "apart (sm_prefix c) PREFIX_BLOCK_NUMBER"
    and "inc_block_number K cu (p, s) = Some (p', s')"
  shows "sm_clean K c s' = sm_clean K c s" and "sm_view K c s' = sm_view K c s"
  using assms apart_append [of "sm_prefix c" PREFIX_BLOCK_NUMBER "[]"]
  by (auto simp: inc_block_number_def sm_outside split: option.splits)

lemma inc_nonce_frame:
  assumes "inv s" and "apart (sm_prefix c) PREFIX_NONCE"
    and "inc_nonce K ca cu who (p, s) = Some (p', s')"
  shows "sm_clean K c s' = sm_clean K c s" and "sm_view K c s' = sm_view K c s"
  using assms apart_append [of "sm_prefix c" PREFIX_NONCE "encode ca who"]
  by (auto simp: inc_nonce_def sm_outside Let_def split: option.splits)

text \<open>Writes of other pallets keep the system pallet synced.\<close>

lemma system_synced_foreign:
  assumes "inv s" and "system_synced K ca cu (p, s)"
    and "apart PREFIX_NONCE q" and "apart PREFIX_BLOCK_NUMBER q"
  shows "system_synced K ca cu (p, snd (kv_put K s (q @ r) v))"
    and "system_synced K ca cu (p, snd (kv_delete K s (q @ r)))"
proof -
  have np: "\<not> prefix PREFIX_NONCE (q @ r)"
    using assms(3) by (rule apart_append)
  have "PREFIX_BLOCK_NUMBER \<noteq> q @ r"
    using apart_append_neq [OF assms(4), of "[]" r] by simp
  then have "block_number (system_new K ca cu (snd (kv_put K s (q @ r) v))) =
      block_number (system_new K ca cu s)"
    and "block_number (system_new K ca cu (snd (kv_delete K s (q @ r)))) =
      block_number (system_new K ca cu s)"
    using assms(1) by (intro block_number_system_new_cong; simp add: get_put get_delete)+
  with np assms(1,2) show "system_synced K ca cu (p, snd (kv_put K s (q @ r) v))"
    and "system_synced K ca cu (p, snd (kv_delete K s (q @ r)))"
    by (simp_all add: system_synced_def sm_mirrors_def sm_outside)
qed

end

end
