(* ===== verification/Dispatching.thy ===== *)
theory Dispatching
  imports System_Pallet
begin

text \<open>
  The trait \<open>Dispatch\<close> of \<open>src/support.rs\<close> as an interface. Every implementation of the
  program keeps two promises the block executor relies on: a call that returns an error has
  changed nothing, and every call keeps the invariant of the state it runs on. The locale
  \<open>dispatcher\<close> states them; the pallets and the runtime interpret it.
\<close>

text \<open>
  A sequence of calls, each with its caller; results are dropped, as \<open>execute_block\<close> does,
  and a panic (\<open>None\<close>) ends it.
\<close>

type_synonym ('caller, 'call, 's) dispatch_fn =
  "'caller \<Rightarrow> 'call \<Rightarrow> 's \<Rightarrow> (dispatch_result \<times> 's) option"

fun dispatch_seq ::
  "('caller, 'call, 's) dispatch_fn \<Rightarrow> ('caller \<times> 'call) list \<Rightarrow> 's \<Rightarrow> 's option" where
  "dispatch_seq d [] s = Some s"
| "dispatch_seq d (x # xs) s =
     (case d (fst x) (snd x) s of None \<Rightarrow> None | Some (_, s') \<Rightarrow> dispatch_seq d xs s')"

text \<open>The calls of a sequence that succeed, in order.\<close>

fun accepted ::
  "('caller, 'call, 's) dispatch_fn \<Rightarrow> ('caller \<times> 'call) list \<Rightarrow> 's \<Rightarrow> ('caller \<times> 'call) list" where
  "accepted d [] s = []"
| "accepted d (x # xs) s =
     (case d (fst x) (snd x) s of
        None \<Rightarrow> []
      | Some (Inl _, s') \<Rightarrow> accepted d xs s'
      | Some (Inr _, s') \<Rightarrow> x # accepted d xs s')"

locale dispatcher =
  fixes dispatch :: "('caller, 'call, 's) dispatch_fn"
    and inv_state :: "'s \<Rightarrow> bool"
  assumes no_panic: "inv_state s \<Longrightarrow> dispatch c x s \<noteq> None"
    and err_unchanged: "inv_state s \<Longrightarrow> dispatch c x s = Some (Inl e, s') \<Longrightarrow> s' = s"
    and inv_kept: "inv_state s \<Longrightarrow> dispatch c x s = Some (r, s') \<Longrightarrow> inv_state s'"
begin

lemma returns:
  assumes "inv_state s"
  obtains r s' where "dispatch c x s = Some (r, s')" and "inv_state s'"
  using assms no_panic inv_kept by (metis not_None_eq surj_pair)

lemma seq_returns: "inv_state s \<Longrightarrow> \<exists>s'. dispatch_seq dispatch xs s = Some s' \<and> inv_state s'"
proof (induction xs arbitrary: s)
  case Nil
  then show ?case by simp
next
  case (Cons x xs)
  obtain r s' where "dispatch (fst x) (snd x) s = Some (r, s')" and "inv_state s'"
    using returns [OF Cons.prems] .
  then show ?case using Cons.IH by simp
qed

text \<open>Calls that fail can be left out of a sequence.\<close>

lemma seq_accepted:
  "inv_state s \<Longrightarrow> dispatch_seq dispatch (accepted dispatch xs s) s = dispatch_seq dispatch xs s"
proof (induction xs arbitrary: s)
  case Nil
  then show ?case by simp
next
  case (Cons x xs)
  obtain r s' where d: "dispatch (fst x) (snd x) s = Some (r, s')" and inv': "inv_state s'"
    using returns [OF Cons.prems] .
  show ?case
  proof (cases r)
    case (Inl e)
    then have "s' = s"
      using d Cons.prems err_unchanged by blast
    then show ?thesis
      using d Inl Cons by simp
  next
    case (Inr u)
    then show ?thesis
      using d Cons.IH [OF inv'] by simp
  qed
qed

end

section \<open>The host of the pallets\<close>

text \<open>
  A reliable store with codecs for accounts, \<open>u32\<close>, \<open>u128\<close> and claim contents that read
  back what they wrote: what the pallets need of the code around them.
\<close>

record ('a, 'c) codecs =
  c_account :: "'a codec"
  c_u32 :: "u32 codec"
  c_u128 :: "u128 codec"
  c_content :: "'c codec"

definition codecs_ok :: "('a, 'c) codecs \<Rightarrow> bool" where
  "codecs_ok X \<longleftrightarrow>
     key_codec_ok (c_account X) \<and> codec_ok (c_u32 X) \<and> codec_ok (c_u128 X) \<and>
     key_codec_ok (c_content X)"

lemma codecs_okD:
  assumes "codecs_ok X"
  shows "key_codec_ok (c_account X)" "codec_ok (c_account X)" "codec_ok (c_u32 X)"
    "codec_ok (c_u128 X)" "key_codec_ok (c_content X)" "codec_ok (c_content X)"
  using assms by (simp_all add: codecs_ok_def key_codec_okD)

locale host = reliable_store K inv for K :: "'st kv_store" and inv +
  fixes X :: "('a::linorder, 'c::linorder) codecs"
  assumes X_ok: "codecs_ok X"
begin

lemmas X_okD [simp] = codecs_okD [OF X_ok]

end

text \<open>The unit tests' configuration: string accounts and contents on the in-memory store.\<close>

definition test_codecs :: "(string, string) codecs" where
  "test_codecs = \<lparr>c_account = string_codec, c_u32 = u32_codec, c_u128 = u128_codec,
                  c_content = string_codec\<rparr>"

lemma test_codecs_ok [simp]: "codecs_ok test_codecs"
  by (simp add: codecs_ok_def test_codecs_def)

interpretation test_host: host mem_store bt_wf test_codecs
  by unfold_locales simp

end
