(* ===== verification/Balances_Pallet.thy ===== *)
theory Balances_Pallet
  imports Dispatching
begin

text \<open>
  The balances pallet, \<open>src/balances.rs\<close>, with the \<open>Call\<close> enum and the \<open>Dispatch\<close>
  implementation that \<open>#[macros::call]\<close> generates for it. Balances are \<open>u128\<close>. Both
  balances of a transfer are read before either is written, so a transfer to oneself ends
  with the second write: the theorems say what every branch does, that case included.
\<close>

definition PREFIX_BALANCE :: bytes where
  "PREFIX_BALANCE = byte_str ''balances:''"

record 'a balances_pallet =
  bal_balances :: "('a, u128) btree_map"

definition balances_new ::
  "'st kv_store \<Rightarrow> 'a::linorder codec \<Rightarrow> u128 codec \<Rightarrow> 'st \<Rightarrow> 'a balances_pallet" where
  "balances_new K ca cb s =
     \<lparr>bal_balances = load_entries PREFIX_BALANCE ca cb (kv_scan_prefix K s PREFIX_BALANCE)\<rparr>"

definition balance_key :: "'a codec \<Rightarrow> 'a \<Rightarrow> bytes" where
  "balance_key ca who = PREFIX_BALANCE @ encode ca who"

definition set_balance ::
  "'st kv_store \<Rightarrow> 'a::linorder codec \<Rightarrow> u128 codec \<Rightarrow> 'a \<Rightarrow> u128 \<Rightarrow> 'a balances_pallet \<times> 'st \<Rightarrow>
   'a balances_pallet \<times> 'st" where
  "set_balance K ca cb who amount ps =
     (let p = (fst ps)\<lparr>bal_balances := bt_insert who amount (bal_balances (fst ps))\<rparr>;
          key = balance_key ca who;
          encoded = encode cb amount
      in (p, snd (kv_put K (snd ps) key encoded)))"

definition balance :: "'a balances_pallet \<Rightarrow> 'a \<Rightarrow> u128" where
  "balance p who = (case bt_get (bal_balances p) who of None \<Rightarrow> 0 | Some b \<Rightarrow> b)"

definition transfer ::
  "'st kv_store \<Rightarrow> 'a::linorder codec \<Rightarrow> u128 codec \<Rightarrow> 'a \<Rightarrow> 'a \<Rightarrow> u128 \<Rightarrow>
   'a balances_pallet \<times> 'st \<Rightarrow> dispatch_result \<times> ('a balances_pallet \<times> 'st)" where
  "transfer K ca cb caller to amount ps =
     (let caller_balance = balance (fst ps) caller;
          to_balance = balance (fst ps) to
      in case checked_sub caller_balance amount of
           None \<Rightarrow> (Inl ''Not enough funds.'', ps)
         | Some new_caller_balance \<Rightarrow>
            (case checked_add to_balance amount of
               None \<Rightarrow> (Inl ''Overflow'', ps)
             | Some new_to_balance \<Rightarrow>
                (let ps1 = set_balance K ca cb caller new_caller_balance ps;
                     ps2 = set_balance K ca cb to new_to_balance ps1
                 in (Ok_unit, ps2))))"

text \<open>Generated by \<open>#[macros::call]\<close>: the enum of the callable functions and their dispatch.\<close>

datatype 'a balances_call = Call_transfer (call_to: 'a) (call_amount: u128)

definition balances_dispatch ::
  "'st kv_store \<Rightarrow> 'a::linorder codec \<Rightarrow> u128 codec \<Rightarrow> 'a \<Rightarrow> 'a balances_call \<Rightarrow>
   'a balances_pallet \<times> 'st \<Rightarrow> (dispatch_result \<times> ('a balances_pallet \<times> 'st)) option" where
  "balances_dispatch K ca cb caller call ps =
     (case call of
        Call_transfer to amount \<Rightarrow>
          (case transfer K ca cb caller to amount ps of
             (Inl e, ps') \<Rightarrow> Some (Inl e, ps')
           | (Inr _, ps') \<Rightarrow> Some (Ok_unit, ps')))"

declare set_balance_def [pallet_defs] transfer_def [pallet_defs]

lemma balances_dispatch_transfer [simp]:
  "balances_dispatch K ca cb caller (Call_transfer to amount) ps =
   Some (transfer K ca cb caller to amount ps)"
  by (auto simp: balances_dispatch_def split: prod.splits sum.splits)

section \<open>Effect on the in-memory state\<close>

lemma fst_set_balance:
  "fst (set_balance K ca cb who amount ps) =
   (fst ps)\<lparr>bal_balances := bt_insert who amount (bal_balances (fst ps))\<rparr>"
  by (simp add: set_balance_def Let_def)

lemma balance_set_balance [simp]:
  "balance (fst (set_balance K ca cb who amount ps)) a = (if a = who then amount else balance (fst ps) a)"
  by (simp add: fst_set_balance balance_def)

text \<open>The four ways a transfer can end.\<close>

lemma transfer_cases:
  obtains (no_funds) "transfer K ca cb caller to amount ps = (Inl ''Not enough funds.'', ps)"
      "unat (balance (fst ps) caller) < unat amount"
  | (overflow) "transfer K ca cb caller to amount ps = (Inl ''Overflow'', ps)"
      "unat amount \<le> unat (balance (fst ps) caller)"
      "2 ^ 128 \<le> unat (balance (fst ps) to) + unat amount"
  | (ok) "transfer K ca cb caller to amount ps =
      (Ok_unit, set_balance K ca cb to (balance (fst ps) to + amount)
                  (set_balance K ca cb caller (balance (fst ps) caller - amount) ps))"
      "unat amount \<le> unat (balance (fst ps) caller)"
      "unat (balance (fst ps) to) + unat amount < 2 ^ 128"
proof (cases "checked_sub (balance (fst ps) caller) amount")
  case None
  then have "transfer K ca cb caller to amount ps = (Inl ''Not enough funds.'', ps)"
    by (simp add: transfer_def Let_def)
  with None no_funds show thesis
    by (simp add: checked_sub_None_iff)
next
  case (Some c)
  note sub = checked_sub_SomeD [OF Some]
  show thesis
  proof (cases "checked_add (balance (fst ps) to) amount")
    case None
    then have "transfer K ca cb caller to amount ps = (Inl ''Overflow'', ps)"
      using Some by (simp add: transfer_def Let_def)
    with None sub overflow show thesis
      by (simp add: checked_add_None_iff)
  next
    case (Some t)
    note add = checked_add_SomeD [OF Some]
    have "unat (balance (fst ps) to) + unat amount < 2 ^ 128"
      using Some by (simp add: checked_add_def split: if_splits)
    moreover have "transfer K ca cb caller to amount ps =
      (Ok_unit, set_balance K ca cb to (balance (fst ps) to + amount)
                  (set_balance K ca cb caller (balance (fst ps) caller - amount) ps))"
      using Some \<open>checked_sub _ _ = Some c\<close> sub add by (simp add: transfer_def Let_def)
    ultimately show thesis
      using sub ok by blast
  qed
qed

lemma transfer_err_unchanged: "transfer K ca cb caller to amount ps = (Inl e, ps') \<Longrightarrow> ps' = ps"
  by (cases rule: transfer_cases [of K ca cb caller to amount ps]) auto

lemma transfer_ok_iff:
  "fst (transfer K ca cb caller to amount ps) = Ok_unit \<longleftrightarrow>
   unat amount \<le> unat (balance (fst ps) caller) \<and> unat (balance (fst ps) to) + unat amount < 2 ^ 128"
  by (cases rule: transfer_cases [of K ca cb caller to amount ps]) auto

lemma transfer_ok_balance:
  assumes "transfer K ca cb caller to amount ps = (Inr u, ps')"
  shows "balance (fst ps') a =
    (if a = to then balance (fst ps) to + amount
     else if a = caller then balance (fst ps) caller - amount
     else balance (fst ps) a)"
  using assms by (cases rule: transfer_cases [of K ca cb caller to amount ps]) auto

definition balances_wf :: "'a::linorder balances_pallet \<Rightarrow> bool" where
  "balances_wf p \<longleftrightarrow> bt_wf (bal_balances p)"

lemma balances_wf_set_balance [simp, intro]:
  "balances_wf (fst ps) \<Longrightarrow> balances_wf (fst (set_balance K ca cb who amount ps))"
  by (simp add: balances_wf_def fst_set_balance)

lemma balances_wf_transfer:
  "balances_wf (fst ps) \<Longrightarrow> transfer K ca cb caller to amount ps = (r, ps') \<Longrightarrow> balances_wf (fst ps')"
  by (cases rule: transfer_cases [of K ca cb caller to amount ps]) auto

interpretation bal: dispatcher "balances_dispatch K ca cb" "\<lambda>ps. balances_wf (fst ps)"
  for K :: "'st kv_store" and ca :: "'a::linorder codec" and cb
proof
  fix ps ps' :: "'a balances_pallet \<times> 'st" and caller and call :: "'a balances_call"
  show "balances_dispatch K ca cb caller call ps \<noteq> None"
    by (cases call) simp
  show "ps' = ps" if "balances_dispatch K ca cb caller call ps = Some (Inl e, ps')" for e
    using that by (cases call) (auto dest: transfer_err_unchanged)
  show "balances_wf (fst ps')"
    if "balances_wf (fst ps)" and "balances_dispatch K ca cb caller call ps = Some (r, ps')" for r
    using that by (cases call) (auto dest: balances_wf_transfer)
qed

section \<open>The token supply\<close>

definition total_issuance :: "'a balances_pallet \<Rightarrow> nat" where
  "total_issuance p = bt_sum unat (bal_balances p)"

lemma total_issuance_set_balance:
  assumes "balances_wf (fst ps)"
  shows "total_issuance (fst (set_balance K ca cb who amount ps)) + unat (balance (fst ps) who) =
         total_issuance (fst ps) + unat amount"
  using bt_sum_insert [of "bal_balances (fst ps)" unat who amount] assms
  by (auto simp: total_issuance_def fst_set_balance balance_def balances_wf_def split: option.splits)

lemma total_issuance_transfer:
  assumes wf: "balances_wf (fst ps)" and tr: "transfer K ca cb caller to amount ps = (r, ps')"
  shows "total_issuance (fst ps') =
         total_issuance (fst ps) + (if r = Ok_unit \<and> caller = to then unat amount else 0)"
proof (cases rule: transfer_cases [of K ca cb caller to amount ps])
  case ok
  let ?b = "balance (fst ps)"
  let ?ps1 = "set_balance K ca cb caller (?b caller - amount) ps"
  have s1: "total_issuance (fst ?ps1) + unat (?b caller) =
            total_issuance (fst ps) + unat (?b caller - amount)"
    using wf by (rule total_issuance_set_balance)
  have s2: "total_issuance (fst ps') + unat (balance (fst ?ps1) to) =
            total_issuance (fst ?ps1) + unat (?b to + amount)"
    using ok tr wf total_issuance_set_balance [of ?ps1 K ca cb to "?b to + amount"] by auto
  have "unat (?b caller - amount) = unat (?b caller) - unat amount"
    using ok(2) by (simp add: unat_sub word_le_nat_alt)
  moreover have "unat (?b to + amount) = unat (?b to) + unat amount"
    using ok(3) by (simp add: unat_word_ariths)
  ultimately show ?thesis
    using s1 s2 ok tr by (cases "caller = to") auto
qed (use tr in auto)

section \<open>The pallet and the store\<close>

definition balance_map :: "'a codec \<Rightarrow> u128 codec \<Rightarrow> ('a, u128) storage_map" where
  "balance_map ca cb = \<lparr>sm_prefix = PREFIX_BALANCE, sm_key = ca, sm_val = cb\<rparr>"

definition balances_synced ::
  "'st kv_store \<Rightarrow> 'a::linorder codec \<Rightarrow> u128 codec \<Rightarrow> 'a balances_pallet \<times> 'st \<Rightarrow> bool" where
  "balances_synced K ca cb ps \<longleftrightarrow>
     balances_wf (fst ps) \<and> sm_mirrors K (balance_map ca cb) (snd ps) (bal_balances (fst ps))"

declare balances_synced_def [synced_defs]

lemma balance_map_simps [simp]:
  "sm_prefix (balance_map ca cb) = PREFIX_BALANCE" "sm_key (balance_map ca cb) = ca"
  "sm_val (balance_map ca cb) = cb" "sm_at (balance_map ca cb) who = balance_key ca who"
  by (simp_all add: balance_map_def sm_at_def balance_key_def)

lemma balance_map_ok [simp]: "sm_ok (balance_map ca cb) \<longleftrightarrow> key_codec_ok ca \<and> codec_ok cb"
  by (simp add: sm_ok_def)

lemma balances_new_load: "bal_balances (balances_new K ca cb s) = sm_load K (balance_map ca cb) s"
  by (simp add: balances_new_def sm_load_def)

lemma apart_balance_system [simp]:
  "apart PREFIX_BALANCE PREFIX_NONCE" "apart PREFIX_NONCE PREFIX_BALANCE"
  "apart PREFIX_BALANCE PREFIX_BLOCK_NUMBER" "apart PREFIX_BLOCK_NUMBER PREFIX_BALANCE"
  by (simp_all add: apart_def PREFIX_NONCE_def PREFIX_BLOCK_NUMBER_def PREFIX_BALANCE_def
      byte_str_def byte_of_def)

context reliable_store
begin

lemma balances_restart:
  assumes "inv s" and "key_codec_ok ca" and "codec_ok cb" and "balances_synced K ca cb (p, s)"
  shows "balances_new K ca cb s = p"
proof -
  have "bal_balances (balances_new K ca cb s) = bal_balances p"
    using assms by (simp add: balances_new_load balances_synced_def balances_wf_def sm_load_mirrors)
  then show ?thesis by simp
qed

lemma inv_set_balance [simp]: "inv (snd ps) \<Longrightarrow> inv (snd (set_balance K ca cb who amount ps))"
  by (simp add: set_balance_def Let_def inv_put)

lemma balances_synced_set_balance:
  assumes "inv (snd ps)" and "key_codec_ok ca" and "codec_ok cb" and "balances_synced K ca cb ps"
  shows "balances_synced K ca cb (set_balance K ca cb who amount ps)"
  using assms sm_mirrors_put [of "snd ps" "balance_map ca cb" "bal_balances (fst ps)" who amount]
  by (simp add: balances_synced_def balances_wf_def set_balance_def Let_def)

lemma inv_transfer: "inv (snd ps) \<Longrightarrow> transfer K ca cb caller to amount ps = (r, ps') \<Longrightarrow> inv (snd ps')"
  by (cases rule: transfer_cases [of K ca cb caller to amount ps]) auto

lemma balances_synced_transfer:
  assumes "inv (snd ps)" and "key_codec_ok ca" and "codec_ok cb" and "balances_synced K ca cb ps"
    and "transfer K ca cb caller to amount ps = (r, ps')"
  shows "balances_synced K ca cb ps'"
  using assms
  by (cases rule: transfer_cases [of K ca cb caller to amount ps])
    (auto intro!: balances_synced_set_balance)

text \<open>The pallet writes under its own prefix only.\<close>

lemma set_balance_frame:
  assumes "inv (snd ps)" and "apart (sm_prefix c) PREFIX_BALANCE"
  shows "sm_clean K c (snd (set_balance K ca cb who amount ps)) = sm_clean K c (snd ps)"
    and "sm_view K c (snd (set_balance K ca cb who amount ps)) = sm_view K c (snd ps)"
  using assms by (simp_all add: set_balance_def Let_def balance_key_def sm_outside apart_append)

lemma system_synced_set_balance:
  assumes "inv (snd ps)" and "system_synced K ca cu (p, snd ps)"
  shows "system_synced K ca cu (p, snd (set_balance K ca cb who amount ps))"
  using system_synced_foreign(1) [OF assms, of PREFIX_BALANCE "encode ca who"]
  by (simp add: set_balance_def Let_def balance_key_def)

end

section \<open>Properties\<close>

text \<open>C25: \<open>transfer\<close> on every branch. It fails with "Not enough funds." exactly when the caller
  holds less than the amount, with "Overflow" exactly when the caller holds enough and the
  recipient's new balance would not fit in 128 bits, and then changes neither the pallet nor
  the store; otherwise it succeeds, the recipient holds the amount more, a caller who is
  not the recipient holds the amount less, both without wrap-around, and every other balance
  is as before.\<close>

theorem transfer_correct:
  "(case transfer K ca cb caller to amount ps of
      (Inl e, ps') \<Rightarrow>
        ps' = ps \<and>
        (if unat (balance (fst ps) caller) < unat amount then e = ''Not enough funds.''
         else e = ''Overflow'' \<and> 2 ^ 128 \<le> unat (balance (fst ps) to) + unat amount)
    | (Inr _, ps') \<Rightarrow>
        unat amount \<le> unat (balance (fst ps) caller) \<and>
        unat (balance (fst ps') to) = unat (balance (fst ps) to) + unat amount \<and>
        (caller = to \<or> unat (balance (fst ps') caller) = unat (balance (fst ps) caller) - unat amount) \<and>
        {a. balance (fst ps') a \<noteq> balance (fst ps) a} \<subseteq> {caller, to})"
proof (cases rule: transfer_cases [of K ca cb caller to amount ps])
  case ok
  have "unat (balance (fst ps) to + amount) = unat (balance (fst ps) to) + unat amount"
    using ok(3) by (simp add: unat_word_ariths)
  moreover have "unat (balance (fst ps) caller - amount) = unat (balance (fst ps) caller) - unat amount"
    using ok(2) by (simp add: unat_sub word_le_nat_alt)
  ultimately show ?thesis
    using ok by auto
qed auto

text \<open>A transfer to oneself of an amount one holds creates the amount out of nothing: it
  succeeds and both the caller's balance and the sum of all balances grow by the amount.\<close>

lemma self_transfer_mints:
  assumes "balances_wf p" and "unat amount \<le> unat (balance p who)"
    and "unat (balance p who) + unat amount < 2 ^ 128"
  shows "fst (transfer K ca cb who who amount (p, s)) = Ok_unit \<and>
         unat (balance (fst (snd (transfer K ca cb who who amount (p, s)))) who) =
           unat (balance p who) + unat amount \<and>
         total_issuance (fst (snd (transfer K ca cb who who amount (p, s)))) = total_issuance p + unat amount"
proof (cases rule: transfer_cases [of K ca cb who who amount "(p, s)"])
  case ok
  moreover have "unat (balance p who + amount) = unat (balance p who) + unat amount"
    using assms(3) by (simp add: unat_word_ariths)
  ultimately show ?thesis
    using total_issuance_transfer [of "(p, s)" K ca cb who who amount] assms(1) by auto
qed (use assms in auto)

end
