(* ===== verification/Proof_Of_Existence.thy ===== *)
theory Proof_Of_Existence
  imports Balances_Pallet
begin

text \<open>
  The proof-of-existence pallet, \<open>src/proof_of_existence.rs\<close>: who claimed which content,
  with the generated \<open>Call\<close> enum and dispatch. \<open>create_claim\<close> writes to the store the
  entry of the greatest key of the map, which is the new claim only when no greater claim is
  held: the store stays below the in-memory map (\<open>sm_below\<close>), and the theorems say exactly
  when it keeps up.
\<close>

definition PREFIX_POE :: bytes where
  "PREFIX_POE = byte_str ''poe:''"

record ('a, 'c) poe_pallet =
  poe_claims :: "('c, 'a) btree_map"

definition poe_new ::
  "'st kv_store \<Rightarrow> 'c::linorder codec \<Rightarrow> 'a codec \<Rightarrow> 'st \<Rightarrow> ('a, 'c) poe_pallet" where
  "poe_new K cc ca s =
     \<lparr>poe_claims = load_entries PREFIX_POE cc ca (kv_scan_prefix K s PREFIX_POE)\<rparr>"

definition claim_key :: "'c codec \<Rightarrow> 'c \<Rightarrow> bytes" where
  "claim_key cc claim = PREFIX_POE @ encode cc claim"

definition get_claim :: "('a, 'c) poe_pallet \<Rightarrow> 'c \<Rightarrow> 'a option" where
  "get_claim p claim = bt_get (poe_claims p) claim"

text \<open>The two \<open>expect\<close> calls are the two \<open>None\<close> branches after the insertion.\<close>

definition create_claim ::
  "'st kv_store \<Rightarrow> 'c::linorder codec \<Rightarrow> 'a codec \<Rightarrow> 'a \<Rightarrow> 'c \<Rightarrow> ('a, 'c) poe_pallet \<times> 'st \<Rightarrow>
   (dispatch_result \<times> (('a, 'c) poe_pallet \<times> 'st)) option" where
  "create_claim K cc ca caller claim ps =
     (if bt_contains_key (poe_claims (fst ps)) claim
      then Some (Inl ''this content is already claimed'', ps)
      else let claims = bt_insert claim caller (poe_claims (fst ps))
           in case bt_last_key claims of
                None \<Rightarrow> None
              | Some last_claim \<Rightarrow>
                 (case bt_get claims last_claim of
                    None \<Rightarrow> None
                  | Some owner \<Rightarrow>
                     (let key = claim_key cc last_claim;
                          encoded_owner = encode ca owner
                      in Some (Ok_unit, ((fst ps)\<lparr>poe_claims := claims\<rparr>,
                                         snd (kv_put K (snd ps) key encoded_owner))))))"

definition revoke_claim ::
  "'st kv_store \<Rightarrow> 'c::linorder codec \<Rightarrow> 'a \<Rightarrow> 'c \<Rightarrow> ('a, 'c) poe_pallet \<times> 'st \<Rightarrow>
   dispatch_result \<times> (('a, 'c) poe_pallet \<times> 'st)" where
  "revoke_claim K cc caller claim ps =
     (case bt_get (poe_claims (fst ps)) claim of
        None \<Rightarrow> (Inl ''claim does not exist'', ps)
      | Some owner \<Rightarrow>
         if owner \<noteq> caller then (Inl ''caller is not owner'', ps)
         else (Ok_unit, ((fst ps)\<lparr>poe_claims := bt_remove claim (poe_claims (fst ps))\<rparr>,
                         snd (kv_delete K (snd ps) (claim_key cc claim)))))"

datatype 'c poe_call = Call_create_claim 'c | Call_revoke_claim 'c

definition poe_dispatch ::
  "'st kv_store \<Rightarrow> 'c::linorder codec \<Rightarrow> 'a codec \<Rightarrow> 'a \<Rightarrow> 'c poe_call \<Rightarrow> ('a, 'c) poe_pallet \<times> 'st \<Rightarrow>
   (dispatch_result \<times> (('a, 'c) poe_pallet \<times> 'st)) option" where
  "poe_dispatch K cc ca caller call ps =
     (case call of
        Call_create_claim claim \<Rightarrow>
          (case create_claim K cc ca caller claim ps of
             None \<Rightarrow> None
           | Some (Inl e, ps') \<Rightarrow> Some (Inl e, ps')
           | Some (Inr _, ps') \<Rightarrow> Some (Ok_unit, ps'))
      | Call_revoke_claim claim \<Rightarrow>
          (case revoke_claim K cc caller claim ps of
             (Inl e, ps') \<Rightarrow> Some (Inl e, ps')
           | (Inr _, ps') \<Rightarrow> Some (Ok_unit, ps')))"

declare create_claim_def [pallet_defs] revoke_claim_def [pallet_defs]

lemma poe_dispatch_simps [simp]:
  "poe_dispatch K cc ca caller (Call_create_claim claim) ps = create_claim K cc ca caller claim ps"
  "poe_dispatch K cc ca caller (Call_revoke_claim claim) ps = Some (revoke_claim K cc caller claim ps)"
  by (auto simp: poe_dispatch_def split: option.splits prod.splits sum.splits)

section \<open>Effect on the in-memory state\<close>

definition poe_wf :: "('a, 'c::linorder) poe_pallet \<Rightarrow> bool" where
  "poe_wf p \<longleftrightarrow> bt_wf (poe_claims p)"

text \<open>A claim is refused or entered; the write goes to the greatest key, whose owner exists.\<close>

lemma create_claim_cases [consumes 1, case_names taken fresh]:
  assumes "poe_wf (fst ps)"
  obtains (taken) owner where "get_claim (fst ps) claim = Some owner"
      "create_claim K cc ca caller claim ps = Some (Inl ''this content is already claimed'', ps)"
  | (fresh) l owner where "get_claim (fst ps) claim = None"
      "bt_last_key (bt_insert claim caller (poe_claims (fst ps))) = Some l"
      "bt_get (bt_insert claim caller (poe_claims (fst ps))) l = Some owner"
      "create_claim K cc ca caller claim ps =
       Some (Ok_unit, ((fst ps)\<lparr>poe_claims := bt_insert claim caller (poe_claims (fst ps))\<rparr>,
                       snd (kv_put K (snd ps) (claim_key cc l) (encode ca owner))))"
proof (cases "get_claim (fst ps) claim")
  case (Some owner)
  then show thesis
    using taken by (simp add: create_claim_def get_claim_def bt_contains_key_def)
next
  case None
  let ?m = "bt_insert claim caller (poe_claims (fst ps))"
  obtain l where l: "bt_last_key ?m = Some l"
    by (simp add: bt_last_key_def)
  have "bt_wf ?m"
    using assms by (simp add: poe_wf_def)
  then have "bt_get ?m l = Some (snd (last ?m))"
    using l by (rule bt_last_key_in)
  then show thesis
    using None l fresh
    by (simp add: create_claim_def get_claim_def bt_contains_key_def Let_def)
qed

lemma revoke_claim_cases:
  obtains (missing) "get_claim (fst ps) claim = None"
      "revoke_claim K cc caller claim ps = (Inl ''claim does not exist'', ps)"
  | (foreign) owner where "get_claim (fst ps) claim = Some owner" "owner \<noteq> caller"
      "revoke_claim K cc caller claim ps = (Inl ''caller is not owner'', ps)"
  | (ok) "get_claim (fst ps) claim = Some caller"
      "revoke_claim K cc caller claim ps =
       (Ok_unit, ((fst ps)\<lparr>poe_claims := bt_remove claim (poe_claims (fst ps))\<rparr>,
                  snd (kv_delete K (snd ps) (claim_key cc claim))))"
  by (cases "get_claim (fst ps) claim") (auto simp: revoke_claim_def get_claim_def split: if_splits)

lemma get_claim_upd [simp]:
  "get_claim (p\<lparr>poe_claims := bt_insert c a m\<rparr>) = (bt_get m)(c \<mapsto> a)"
  "get_claim (p\<lparr>poe_claims := bt_remove c m\<rparr>) = (bt_get m)(c := None)"
  by (simp_all add: get_claim_def fun_eq_iff)

lemma bt_get_poe_claims [simp]: "bt_get (poe_claims p) = get_claim p"
  by (simp add: get_claim_def fun_eq_iff)

lemma poe_wf_create:
  "poe_wf (fst ps) \<Longrightarrow> create_claim K cc ca caller claim ps = Some (r, ps') \<Longrightarrow> poe_wf (fst ps')"
  by (cases rule: create_claim_cases [of ps claim K cc ca caller]) (auto simp: poe_wf_def)

lemma poe_wf_revoke:
  "poe_wf (fst ps) \<Longrightarrow> revoke_claim K cc caller claim ps = (r, ps') \<Longrightarrow> poe_wf (fst ps')"
  by (cases rule: revoke_claim_cases [of ps claim K cc caller]) (auto simp: poe_wf_def)

interpretation poe: dispatcher "poe_dispatch K cc ca" "\<lambda>ps. poe_wf (fst ps)"
  for K :: "'st kv_store" and cc :: "'c::linorder codec" and ca :: "'a codec"
proof
  fix ps ps' :: "('a, 'c) poe_pallet \<times> 'st" and caller and call :: "'c poe_call"
  assume wf: "poe_wf (fst ps)"
  show "poe_dispatch K cc ca caller call ps \<noteq> None"
  proof (cases call)
    case (Call_create_claim claim)
    with wf show ?thesis
      by (cases rule: create_claim_cases [of ps claim K cc ca caller]) auto
  qed simp
  show "ps' = ps" if "poe_dispatch K cc ca caller call ps = Some (Inl e, ps')" for e
  proof (cases call)
    case (Call_create_claim claim)
    with wf that show ?thesis
      by (cases rule: create_claim_cases [of ps claim K cc ca caller]) auto
  next
    case (Call_revoke_claim claim)
    with that show ?thesis
      by (cases rule: revoke_claim_cases [of ps claim K cc caller]) auto
  qed
  show "poe_wf (fst ps')" if "poe_dispatch K cc ca caller call ps = Some (r, ps')" for r
    using that wf by (cases call) (auto dest: poe_wf_create poe_wf_revoke)
qed

section \<open>The pallet and the store\<close>

definition claim_map :: "'c codec \<Rightarrow> 'a codec \<Rightarrow> ('c, 'a) storage_map" where
  "claim_map cc ca = \<lparr>sm_prefix = PREFIX_POE, sm_key = cc, sm_val = ca\<rparr>"

text \<open>The store is below the map: it holds no claim the pallet does not hold.\<close>

definition poe_backed ::
  "'st kv_store \<Rightarrow> 'c::linorder codec \<Rightarrow> 'a codec \<Rightarrow> ('a, 'c) poe_pallet \<times> 'st \<Rightarrow> bool" where
  "poe_backed K cc ca ps \<longleftrightarrow>
     poe_wf (fst ps) \<and> sm_below K (claim_map cc ca) (snd ps) (poe_claims (fst ps))"

definition poe_synced ::
  "'st kv_store \<Rightarrow> 'c::linorder codec \<Rightarrow> 'a codec \<Rightarrow> ('a, 'c) poe_pallet \<times> 'st \<Rightarrow> bool" where
  "poe_synced K cc ca ps \<longleftrightarrow>
     poe_wf (fst ps) \<and> sm_mirrors K (claim_map cc ca) (snd ps) (poe_claims (fst ps))"

declare poe_backed_def [synced_defs]

lemma poe_synced_backed: "poe_synced K cc ca ps \<Longrightarrow> poe_backed K cc ca ps"
  by (simp add: poe_synced_def poe_backed_def sm_mirrors_below)

lemma claim_map_simps [simp]:
  "sm_prefix (claim_map cc ca) = PREFIX_POE" "sm_key (claim_map cc ca) = cc"
  "sm_val (claim_map cc ca) = ca" "sm_at (claim_map cc ca) c = claim_key cc c"
  by (simp_all add: claim_map_def sm_at_def claim_key_def)

lemma claim_map_ok [simp]: "sm_ok (claim_map cc ca) \<longleftrightarrow> key_codec_ok cc \<and> codec_ok ca"
  by (simp add: sm_ok_def)

lemma poe_new_load: "poe_claims (poe_new K cc ca s) = sm_load K (claim_map cc ca) s"
  by (simp add: poe_new_def sm_load_def)

lemma poe_wf_new [simp]: "poe_wf (poe_new K cc ca s)"
  by (simp add: poe_wf_def poe_new_def)

lemma apart_poe [simp]:
  "apart PREFIX_POE PREFIX_NONCE" "apart PREFIX_NONCE PREFIX_POE"
  "apart PREFIX_POE PREFIX_BLOCK_NUMBER" "apart PREFIX_BLOCK_NUMBER PREFIX_POE"
  "apart PREFIX_POE PREFIX_BALANCE" "apart PREFIX_BALANCE PREFIX_POE"
  by (simp_all add: apart_def PREFIX_NONCE_def PREFIX_BLOCK_NUMBER_def PREFIX_BALANCE_def
      PREFIX_POE_def byte_str_def byte_of_def)

context reliable_store
begin

lemma get_claim_poe_new:
  assumes "inv s" and "key_codec_ok cc" and "codec_ok ca" and "poe_backed K cc ca (p, s)"
  shows "get_claim (poe_new K cc ca s) = sm_view K (claim_map cc ca) s"
proof -
  have "bt_get (poe_claims (poe_new K cc ca s)) = sm_view K (claim_map cc ca) s"
    unfolding poe_new_load
    using assms by (intro bt_get_sm_load) (auto simp: poe_backed_def sm_below_def)
  then show ?thesis by simp
qed

lemma poe_restart_below:
  "inv s \<Longrightarrow> key_codec_ok cc \<Longrightarrow> codec_ok ca \<Longrightarrow> poe_backed K cc ca (p, s) \<Longrightarrow>
   get_claim (poe_new K cc ca s) \<subseteq>\<^sub>m get_claim p"
  by (simp add: get_claim_poe_new) (simp add: poe_backed_def sm_below_def)

lemma poe_restart_synced:
  assumes "inv s" and "key_codec_ok cc" and "codec_ok ca" and "poe_synced K cc ca (p, s)"
  shows "poe_new K cc ca s = p"
proof -
  have "poe_claims (poe_new K cc ca s) = poe_claims p"
    using assms by (simp add: poe_new_load poe_synced_def poe_wf_def sm_load_mirrors)
  then show ?thesis by simp
qed

text \<open>After a restart the pallet and the store agree.\<close>

lemma poe_synced_new:
  assumes "inv s" and "key_codec_ok cc" and "codec_ok ca" and "poe_backed K cc ca (p, s)"
  shows "poe_synced K cc ca (poe_new K cc ca s, s)"
  using assms get_claim_poe_new [OF assms]
  by (simp add: poe_synced_def sm_mirrors_def poe_backed_def sm_below_def)

text \<open>What a successful \<open>create_claim\<close> leaves in the store: the greatest claim.\<close>

lemma create_claim_view:
  assumes "inv s" and "key_codec_ok cc" and "codec_ok ca" and "poe_wf p"
    and "create_claim K cc ca caller claim (p, s) = Some (Inr u, (p', s'))"
  obtains l owner where "bt_last_key (poe_claims p') = Some l" and "get_claim p' l = Some owner"
    and "sm_view K (claim_map cc ca) s' = (sm_view K (claim_map cc ca) s)(l \<mapsto> owner)"
    and "sm_clean K (claim_map cc ca) s \<longrightarrow> sm_clean K (claim_map cc ca) s'"
proof -
  have wf: "poe_wf (fst (p, s))" using assms(4) by simp
  from wf show thesis
  proof (cases rule: create_claim_cases [of "(p, s)" claim K cc ca caller])
    case (fresh l owner)
    have "sm_view K (claim_map cc ca) (snd (kv_put K s (claim_key cc l) (encode ca owner))) =
          (sm_view K (claim_map cc ca) s)(l \<mapsto> owner)"
      using sm_view_put [OF assms(1), of "claim_map cc ca" l owner] assms(2,3) by simp
    moreover have "sm_clean K (claim_map cc ca) s \<longrightarrow>
      sm_clean K (claim_map cc ca) (snd (kv_put K s (claim_key cc l) (encode ca owner)))"
      using sm_clean_put [OF assms(1), of "claim_map cc ca" l owner] by simp
    ultimately show thesis
      using fresh assms(5) that [of l owner] by auto
  qed (use assms(5) in auto)
qed

lemma poe_backed_create:
  assumes "inv s" and "key_codec_ok cc" and "codec_ok ca" and "poe_backed K cc ca (p, s)"
    and "create_claim K cc ca caller claim (p, s) = Some (r, (p', s'))"
  shows "poe_backed K cc ca (p', s')"
proof (cases r)
  case (Inl e)
  then show ?thesis
    using assms poe.err_unchanged [of "(p, s)" K cc ca caller "Call_create_claim claim"]
    by (simp add: poe_backed_def)
next
  case (Inr u)
  have wf: "poe_wf (fst (p, s))" using assms(4) by (simp add: poe_backed_def)
  have grow: "get_claim p \<subseteq>\<^sub>m get_claim p'"
    using wf assms(5) Inr
    by (cases rule: create_claim_cases [of "(p, s)" claim K cc ca caller]) (auto simp: map_le_def)
  obtain l owner where "get_claim p' l = Some owner"
    and "sm_view K (claim_map cc ca) s' = (sm_view K (claim_map cc ca) s)(l \<mapsto> owner)"
    and "sm_clean K (claim_map cc ca) s \<longrightarrow> sm_clean K (claim_map cc ca) s'"
    using create_claim_view [OF assms(1-3), of p] wf assms(5) Inr by (metis fst_conv)
  moreover have "sm_view K (claim_map cc ca) s \<subseteq>\<^sub>m get_claim p'"
    using assms(4) grow by (auto simp: poe_backed_def sm_below_def intro: map_le_trans)
  moreover have "poe_wf p'"
    using poe_wf_create [of "(p, s)"] wf assms(5) by force
  ultimately show ?thesis
    using assms(4) by (simp add: poe_backed_def sm_below_def map_le_upd_hit)
qed

lemma poe_backed_revoke:
  assumes "inv s" and "key_codec_ok cc" and "codec_ok ca" and "poe_backed K cc ca (p, s)"
    and "revoke_claim K cc caller claim (p, s) = (r, (p', s'))"
  shows "poe_backed K cc ca (p', s')"
  using assms sm_below_delete [OF assms(1), of "claim_map cc ca" "poe_claims p" claim]
  by (cases rule: revoke_claim_cases [of "(p, s)" claim K cc caller])
    (auto simp: poe_backed_def poe_wf_def)

lemma inv_poe:
  "inv (snd ps) \<Longrightarrow> create_claim K cc ca caller claim ps = Some (r, ps') \<Longrightarrow> inv (snd ps')"
  "inv (snd ps) \<Longrightarrow> revoke_claim K cc caller claim ps = (r, ps') \<Longrightarrow> inv (snd ps')"
  by (auto simp: create_claim_def revoke_claim_def Let_def inv_put inv_delete
      split: if_splits option.splits)

end

section \<open>When a claim survives a restart\<close>

lemma get_claim_Cons [simp]:
  "get_claim \<lparr>poe_claims = []\<rparr> c = None"
  "get_claim \<lparr>poe_claims = e # m\<rparr> c = (if fst e = c then Some (snd e) else get_claim \<lparr>poe_claims = m\<rparr> c)"
  by (auto simp: get_claim_def bt_get_def simp del: bt_get_poe_claims)

lemma create_claim_fresh:
  assumes "poe_wf p" and "get_claim p claim = None"
  obtains p' s' where "create_claim K cc ca caller claim (p, s) = Some (Ok_unit, (p', s'))"
    and "get_claim p' = (get_claim p)(claim \<mapsto> caller)" and "poe_wf p'"
proof -
  have "poe_wf (fst (p, s))" using assms(1) by simp
  then show thesis
    by (cases rule: create_claim_cases [of "(p, s)" claim K cc ca caller])
      (use assms that in \<open>auto simp: poe_wf_def\<close>)
qed

lemma poe_synced_empty:
  "(\<And>k. kv_get K s k = None) \<Longrightarrow> poe_synced K cc ca (\<lparr>poe_claims = []\<rparr>, s)"
  by (auto simp: poe_synced_def poe_wf_def sm_mirrors_def sm_clean_def sm_view_def fun_eq_iff)

lemma last_key_insert_fresh:
  assumes "bt_wf m" and "bt_last_key (bt_insert k v m) = Some l"
  shows "l = k \<longleftrightarrow> {x. x > k} \<inter> dom (bt_get m) = {}"
proof -
  have wf: "bt_wf (bt_insert k v m)" using assms(1) by simp
  note greatest = bt_last_key_greatest [OF wf assms(2)]
  have "l \<in> insert k (dom (bt_get m))"
    using bt_last_key_in [OF wf assms(2)] by (auto split: if_splits)
  moreover have "k \<le> l"
    by (rule greatest [of k v]) simp
  moreover have "\<forall>x \<in> dom (bt_get m). x \<le> l"
    using greatest by (metis bt_get_insert domD fun_upd_apply)
  ultimately show ?thesis
    by (cases "l = k") (auto simp: disjoint_iff dest: leD intro!: exI [of _ l])
qed

context reliable_store
begin

lemma get_claim_restart_create:
  assumes "inv s" and "key_codec_ok cc" and "codec_ok ca" and "poe_backed K cc ca (p, s)"
    and "create_claim K cc ca caller claim (p, s) = Some (Inr u, (p', s'))"
    and "bt_last_key (poe_claims p') = Some l"
  shows "get_claim (poe_new K cc ca s') claim = (if l = claim then Some caller else None)"
proof -
  have wf: "poe_wf (fst (p, s))" using assms(4) by (simp add: poe_backed_def)
  then have None: "get_claim p claim = None" and new: "get_claim p' claim = Some caller"
    using assms(5) by (cases rule: create_claim_cases [of "(p, s)" claim K cc ca caller]; auto)+
  obtain owner where "get_claim p' l = Some owner"
    and "sm_view K (claim_map cc ca) s' = (sm_view K (claim_map cc ca) s)(l \<mapsto> owner)"
    using create_claim_view [OF assms(1-3) _ assms(5)] wf assms(6) by (metis fst_conv option.inject)
  moreover have "inv s'"
    using inv_poe(1) [of "(p, s)"] assms(1,5) by fastforce
  moreover have "poe_backed K cc ca (p', s')"
    using assms(4,5) by (rule poe_backed_create [OF assms(1-3)])
  moreover have "sm_view K (claim_map cc ca) s \<subseteq>\<^sub>m get_claim p"
    using assms(4) by (simp add: poe_backed_def sm_below_def)
  then have "sm_view K (claim_map cc ca) s claim = None"
    using None by (auto simp: map_le_def dom_def)
  ultimately show ?thesis
    using assms(2,3) new by (auto simp: get_claim_poe_new)
qed

end

section \<open>Properties\<close>

text \<open>C26: \<open>create_claim\<close> never panics on a well-formed pallet. Content that is already claimed
  is refused, whoever asks, and nothing changes; otherwise the claim is entered for the
  caller and every other claim is kept.\<close>

theorem create_claim_correct:
  assumes "poe_wf p"
  shows "\<exists>r p' s'. create_claim K cc ca caller claim (p, s) = Some (r, (p', s')) \<and>
    (case get_claim p claim of
       Some _ \<Rightarrow> r = Inl ''this content is already claimed'' \<and> p' = p \<and> s' = s
     | None \<Rightarrow> r = Ok_unit \<and> get_claim p' = (get_claim p)(claim \<mapsto> caller) \<and> poe_wf p')"
proof -
  have "poe_wf (fst (p, s))" using assms by simp
  then show ?thesis
    by (cases rule: create_claim_cases [of "(p, s)" claim K cc ca caller])
      (use assms in \<open>auto simp: poe_wf_def\<close>)
qed

theorem create_claim_correct_witness:
  "\<exists>p' s'. create_claim mem_store string_codec string_codec ''bob'' ''doc''
     (\<lparr>poe_claims = [(''abc'', ''alice'')]\<rparr>, []) = Some (Ok_unit, (p', s')) \<and>
     get_claim p' ''doc'' = Some ''bob'' \<and> get_claim p' ''abc'' = Some ''alice''"
  using create_claim_correct [of "\<lparr>poe_claims = [(''abc'', ''alice'')]\<rparr>" mem_store string_codec string_codec
      "''bob''" "''doc''" "[]"]
  by (auto simp: poe_wf_def bt_wf_def get_claim_Cons)

text \<open>C27: \<open>revoke_claim\<close> removes a claim exactly for its owner: it succeeds if and only if the
  caller owns the claim, then it removes that claim and no other; in every other case the
  error says which guard failed and nothing changes.\<close>

theorem revoke_claim_correct:
  "(case revoke_claim K cc caller claim (p, s) of
      (Inr _, (p', s')) \<Rightarrow> get_claim p claim = Some caller \<and> get_claim p' = (get_claim p)(claim := None)
    | (Inl e, (p', s')) \<Rightarrow> get_claim p claim \<noteq> Some caller \<and> p' = p \<and> s' = s \<and>
        e = (if get_claim p claim = None then ''claim does not exist'' else ''caller is not owner''))"
  by (cases rule: revoke_claim_cases [of "(p, s)" claim K cc caller]) auto

text \<open>Creating a claim and revoking it again gives back the pallet as it was.\<close>

lemma create_revoke_roundtrip:
  assumes "poe_wf p" and "get_claim p claim = None"
    and "create_claim K cc ca caller claim (p, s) = Some (r, (p', s'))"
  shows "\<exists>s''. revoke_claim K cc caller claim (p', s') = (Ok_unit, (p, s''))"
proof -
  have "poe_wf (fst (p, s))" using assms(1) by simp
  then have p': "p' = p\<lparr>poe_claims := bt_insert claim caller (poe_claims p)\<rparr>"
    using assms(2,3) by (cases rule: create_claim_cases [of "(p, s)" claim K cc ca caller]) auto
  then have "get_claim p' claim = Some caller" by simp
  moreover have "bt_remove claim (poe_claims p') = poe_claims p"
    using assms(1,2) by (simp add: p' poe_wf_def bt.rem_ins_fresh del: bt_get_poe_claims flip: get_claim_def)
  ultimately show ?thesis
    by (cases rule: revoke_claim_cases [of "(p', s')" claim K cc caller]) (auto simp: p')
qed

text \<open>C28: When a new claim survives a restart. On a store that holds no other claims than the
  pallet, a successful \<open>create_claim\<close> is there again after a restart if and only if no held claim is
  greater than the new one; otherwise the code writes the greatest claim a second time and
  the new one is lost.\<close>

theorem create_claim_durable_iff:
  assumes "reliable_store K I" and "I s" and "key_codec_ok cc" and "codec_ok ca"
    and "poe_backed K cc ca (p, s)"
    and "create_claim K cc ca caller claim (p, s) = Some (Ok_unit, (p', s'))"
  shows "get_claim p' claim = Some caller \<and>
         (get_claim (poe_new K cc ca s') claim = Some caller \<longleftrightarrow> {c. c > claim} \<inter> dom (get_claim p) = {})"
proof -
  have wf: "poe_wf (fst (p, s))" using assms(5) by (simp add: poe_backed_def)
  then have p': "p' = p\<lparr>poe_claims := bt_insert claim caller (poe_claims p)\<rparr>"
    using assms(6) by (cases rule: create_claim_cases [of "(p, s)" claim K cc ca caller]) auto
  obtain l where l: "bt_last_key (poe_claims p') = Some l"
    using bt_last_key_insert [of claim caller "poe_claims p"] by (auto simp: p')
  have "l = claim \<longleftrightarrow> {c. c > claim} \<inter> dom (get_claim p) = {}"
    using last_key_insert_fresh [of "poe_claims p" claim caller l] wf l by (simp add: p' poe_wf_def)
  moreover have "get_claim (poe_new K cc ca s') claim = (if l = claim then Some caller else None)"
    using assms(1) assms(2-6) l by (rule reliable_store.get_claim_restart_create)
  ultimately show ?thesis by (auto simp: p')
qed

theorem create_claim_durable_iff_witness:
  "\<exists>p1 s1 p2 s2.
     create_claim mem_store string_codec string_codec ''alice'' ''zebra'' (\<lparr>poe_claims = []\<rparr>, []) =
       Some (Ok_unit, (p1, s1)) \<and>
     get_claim (poe_new mem_store string_codec string_codec s1) ''zebra'' = Some ''alice'' \<and>
     create_claim mem_store string_codec string_codec ''bob'' ''apple''
       (poe_new mem_store string_codec string_codec s1, s1) = Some (Ok_unit, (p2, s2)) \<and>
     get_claim p2 ''apple'' = Some ''bob'' \<and>
     get_claim (poe_new mem_store string_codec string_codec s2) ''apple'' \<noteq> Some ''bob''"
proof -
  let ?new = "poe_new mem_store string_codec string_codec"
  note durable = create_claim_durable_iff [OF mem.reliable_store_axioms _ string_codec_ok]
  have empty: "poe_synced mem_store string_codec string_codec (\<lparr>poe_claims = [] :: (string, string) btree_map\<rparr>, [])"
    by (rule poe_synced_empty) (simp add: mem_store_defs)
  obtain p1 s1 where one: "create_claim mem_store string_codec string_codec ''alice'' ''zebra''
      (\<lparr>poe_claims = []\<rparr>, []) = Some (Ok_unit, (p1, s1))" and p1: "get_claim p1 = [''zebra'' \<mapsto> ''alice'']"
    by (rule create_claim_fresh [of "\<lparr>poe_claims = []\<rparr>" "''zebra''" mem_store string_codec string_codec "''alice''" "[]"])
      (auto simp: poe_wf_def fun_eq_iff)
  have zebra: "get_claim (?new s1) ''zebra'' = Some ''alice''"
    using durable [OF _ poe_synced_backed [OF empty] one] by (simp add: dom_def)
  have backed: "poe_backed mem_store string_codec string_codec (p1, s1)" and s1: "bt_wf s1"
    using mem.poe_backed_create [OF _ string_codec_ok poe_synced_backed [OF empty] one] mem.inv_poe(1) [OF _ one]
    by simp_all
  have synced: "poe_synced mem_store string_codec string_codec (?new s1, s1)"
    using s1 backed by (intro mem.poe_synced_new) simp_all
  have "get_claim (?new s1) ''apple'' = None"
    using mem.poe_restart_below [OF s1 string_codec_ok backed] p1 by (auto simp: map_le_def dom_def)
  then obtain p2 s2 where two: "create_claim mem_store string_codec string_codec ''bob'' ''apple'' (?new s1, s1) =
      Some (Ok_unit, (p2, s2))"
    by (rule create_claim_fresh [of "?new s1", rotated]) (auto intro: that)
  have "(''apple'' :: string) < ''zebra''"
    by simp
  then have "get_claim p2 ''apple'' = Some ''bob'' \<and> get_claim (?new s2) ''apple'' \<noteq> Some ''bob''"
    using durable [OF s1 poe_synced_backed [OF synced] two] zebra by blast
  with one zebra two show ?thesis by blast
qed

end
