(* ===== verification/Extrinsics.thy ===== *)
theory Extrinsics
  imports Proof_Of_Existence
begin

text \<open>
  The wire types of \<open>src/support.rs\<close>: account identifiers, headers, blocks and signed
  extrinsics, the signing and verification of extrinsics, the batch verification and the dev
  keyring. The Ed25519 crate is a parameter (\<open>ed25519\<close>), as is the SCALE encoding of the
  signed payload. The types of fixed-size arrays are types of lists of that length.
\<close>

section \<open>Fixed-size arrays\<close>

typedef arr32 = "{bs :: bytes. length bs = 32}"
  morphisms arr32_list Abs_arr32
  by (rule exI [of _ "replicate 32 0"]) simp

typedef arr64 = "{bs :: bytes. length bs = 64}"
  morphisms arr64_list Abs_arr64
  by (rule exI [of _ "replicate 64 0"]) simp

text \<open>An array with the given bytes at the front and zeros behind them.\<close>

definition arr32_of :: "bytes \<Rightarrow> arr32" where
  "arr32_of bs = Abs_arr32 (take 32 (bs @ replicate 32 0))"

definition arr64_of :: "bytes \<Rightarrow> arr64" where
  "arr64_of bs = Abs_arr64 (take 64 (bs @ replicate 64 0))"

lemma length_arr_list [simp]: "length (arr32_list a) = 32" "length (arr64_list b) = 64"
  using arr32_list [of a] arr64_list [of b] by simp_all

lemma arr_abs [code abstype]: "Abs_arr32 (arr32_list a) = a" "Abs_arr64 (arr64_list b) = b"
  by (simp_all add: arr32_list_inverse arr64_list_inverse)

lemma arr_list_of [code abstract]:
  "arr32_list (arr32_of bs) = take 32 (bs @ replicate 32 0)"
  "arr64_list (arr64_of bs) = take 64 (bs @ replicate 64 0)"
  by (simp_all add: arr32_of_def arr64_of_def Abs_arr32_inverse Abs_arr64_inverse)

lemma arr_of_list [simp]: "arr32_of (arr32_list a) = a" "arr64_of (arr64_list b) = b"
  by (simp_all add: arr32_of_def arr64_of_def arr32_list_inverse arr64_list_inverse)

instantiation arr32 :: equal
begin

definition equal_arr32 :: "arr32 \<Rightarrow> arr32 \<Rightarrow> bool" where
  "equal_arr32 a b \<longleftrightarrow> arr32_list a = arr32_list b"

instance
  by standard (simp add: equal_arr32_def arr32_list_inject)

end

instantiation arr64 :: equal
begin

definition equal_arr64 :: "arr64 \<Rightarrow> arr64 \<Rightarrow> bool" where
  "equal_arr64 a b \<longleftrightarrow> arr64_list a = arr64_list b"

instance
  by standard (simp add: equal_arr64_def arr64_list_inject)

end

section \<open>Account identifiers\<close>

datatype AccountId32 = AccountId32 (as_bytes: arr32)

text \<open>The derived order: that of the arrays, byte by byte.\<close>

instantiation AccountId32 :: linorder
begin

definition less_eq_AccountId32 :: "AccountId32 \<Rightarrow> AccountId32 \<Rightarrow> bool" where
  "a \<le> b \<longleftrightarrow> arr32_list (as_bytes a) \<le> arr32_list (as_bytes b)"

definition less_AccountId32 :: "AccountId32 \<Rightarrow> AccountId32 \<Rightarrow> bool" where
  "a < b \<longleftrightarrow> arr32_list (as_bytes a) < arr32_list (as_bytes b)"

instance
proof
  fix a b c :: AccountId32
  show "a = b" if "a \<le> b" "b \<le> a"
    using that by (simp add: less_eq_AccountId32_def AccountId32.expand arr32_list_inject [symmetric])
qed (auto simp: less_eq_AccountId32_def less_AccountId32_def)

end

section \<open>Blocks and extrinsics\<close>

record 'n header =
  hd_block_number :: 'n

record ('h, 'x) block =
  blk_header :: 'h
  blk_extrinsics :: "'x list"

record 'call unchecked_extrinsic =
  ext_signer :: AccountId32
  ext_signature :: arr64
  ext_nonce :: u32
  ext_call :: 'call

text \<open>
  The Ed25519 crate: keys from seed bytes, the public key bytes of a signing key, signing,
  parsing a public key and verifying. A payload encoder turns the signed tuple into bytes.
\<close>

record ('sk, 'vk) ed25519 =
  sk_from_bytes :: "arr32 \<Rightarrow> 'sk"
  vk_bytes :: "'sk \<Rightarrow> arr32"
  sk_sign :: "'sk \<Rightarrow> bytes \<Rightarrow> arr64"
  vk_from_bytes :: "arr32 \<Rightarrow> 'vk option"
  vk_verify :: "'vk \<Rightarrow> bytes \<Rightarrow> arr64 \<Rightarrow> bool"

type_synonym 'call payload_enc = "arr32 \<times> u32 \<times> 'call \<Rightarrow> bytes"

definition new_signed ::
  "('sk, 'vk) ed25519 \<Rightarrow> 'call payload_enc \<Rightarrow> 'sk \<Rightarrow> u32 \<Rightarrow> 'call \<Rightarrow> 'call unchecked_extrinsic" where
  "new_signed E enc sk n call =
     (let signer = AccountId32 (vk_bytes E sk);
          payload = enc (as_bytes signer, n, call);
          signature = sk_sign E sk payload
      in \<lparr>ext_signer = signer, ext_signature = signature, ext_nonce = n, ext_call = call\<rparr>)"

definition verify ::
  "('sk, 'vk) ed25519 \<Rightarrow> 'call payload_enc \<Rightarrow> 'call unchecked_extrinsic \<Rightarrow> dispatch_result" where
  "verify E enc e =
     (case vk_from_bytes E (as_bytes (ext_signer e)) of
        None \<Rightarrow> Inl ''invalid public key''
      | Some vk \<Rightarrow>
         (let sig = ext_signature e;
              payload = enc (as_bytes (ext_signer e), ext_nonce e, ext_call e)
          in if vk_verify E vk payload sig then Ok_unit else Inl ''invalid signature''))"

text \<open>The parallel map of \<open>verify_batch\<close> collects its results in the order of the slice.\<close>

definition verify_batch ::
  "('sk, 'vk) ed25519 \<Rightarrow> 'call payload_enc \<Rightarrow> 'call unchecked_extrinsic list \<Rightarrow> dispatch_result list" where
  "verify_batch E enc exts = map (verify E enc) exts"

text \<open>What the crate documents: a key it derived parses and accepts its own signatures.\<close>

definition ed25519_ok :: "('sk, 'vk) ed25519 \<Rightarrow> bool" where
  "ed25519_ok E \<longleftrightarrow>
     (\<forall>sk. \<exists>vk. vk_from_bytes E (vk_bytes E sk) = Some vk \<and>
                (\<forall>m. vk_verify E vk m (sk_sign E sk m)))"

lemma verify_Ok_iff:
  "verify E enc e = Ok_unit \<longleftrightarrow>
   (\<exists>vk. vk_from_bytes E (as_bytes (ext_signer e)) = Some vk \<and>
         vk_verify E vk (enc (as_bytes (ext_signer e), ext_nonce e, ext_call e)) (ext_signature e))"
  by (auto simp: verify_def Let_def split: option.splits)

lemma verify_new_signed: "ed25519_ok E \<Longrightarrow> verify E enc (new_signed E enc sk n call) = Ok_unit"
  by (auto simp: verify_Ok_iff new_signed_def Let_def ed25519_ok_def)

section \<open>The dev keyring\<close>

datatype AccountKeyring = Alice | Bob | Charlie

definition keyring_name :: "AccountKeyring \<Rightarrow> bytes" where
  "keyring_name a =
     (case a of Alice \<Rightarrow> byte_str ''Alice'' | Bob \<Rightarrow> byte_str ''Bob'' | Charlie \<Rightarrow> byte_str ''Charlie'')"

definition seed :: "AccountKeyring \<Rightarrow> arr32" where
  "seed a = arr32_of (keyring_name a)"

definition signing_key :: "('sk, 'vk) ed25519 \<Rightarrow> AccountKeyring \<Rightarrow> 'sk" where
  "signing_key E a = sk_from_bytes E (seed a)"

definition public :: "('sk, 'vk) ed25519 \<Rightarrow> AccountKeyring \<Rightarrow> AccountId32" where
  "public E a = AccountId32 (vk_bytes E (signing_key E a))"

text \<open>
  \<open>to_lowercase\<close> on the letters that can occur in the names: no character outside ASCII
  lowers to one of them, so the others are left alone.
\<close>

definition ascii_lower :: "char \<Rightarrow> char" where
  "ascii_lower c =
     (if of_char c \<ge> (65 :: nat) \<and> of_char c \<le> (90 :: nat) then char_of (of_char c + (32 :: nat)) else c)"

definition from_name :: "string \<Rightarrow> AccountKeyring option" where
  "from_name name =
     (let l = map ascii_lower name
      in if l = ''alice'' then Some Alice
         else if l = ''bob'' then Some Bob
         else if l = ''charlie'' then Some Charlie
         else None)"

lemma keyring_name_inject: "keyring_name a = keyring_name b \<longleftrightarrow> a = b"
  by (cases a; cases b) (simp_all add: keyring_name_def byte_str_def byte_of_def)

lemma seed_inject: "seed a = seed b \<longleftrightarrow> a = b"
proof -
  have "arr32_list (seed a) = take 32 (keyring_name a @ replicate 32 0)" for a
    by (simp add: seed_def arr_list_of)
  then have "arr32_list (seed a) = arr32_list (seed b) \<Longrightarrow> a = b"
    by (cases a; cases b)
      (simp_all add: keyring_name_def byte_str_def byte_of_def numeral_eq_Suc)
  then show ?thesis by auto
qed

end
