(* ===== verification/Runtime.thy ===== *)
theory Runtime
  imports Extrinsics
begin

text \<open>
  The runtime of \<open>src/lib.rs\<close> as \<open>#[macros::runtime]\<close> expands it
  (\<open>macros/src/runtime/expand.rs\<close>): the struct of the three pallets, \<open>RuntimeCall\<close>, the
  routing \<open>dispatch\<close>, \<open>new\<close>, \<open>execute_block\<close> and the genesis. The store is global state
  in the program, so every operation takes and returns the runtime and the store.
\<close>

datatype RuntimeCall =
    RC_balances "AccountId32 balances_call"
  | RC_proof_of_existence "string poe_call"

type_synonym ext = "RuntimeCall unchecked_extrinsic"
type_synonym runtime_block = "(u32 header, ext) block"

text \<open>The code outside the repository that the runtime calls.\<close>

record ('st, 'sk, 'vk) deps =
  d_kv :: "'st kv_store"
  d_codecs :: "(AccountId32, string) codecs"
  d_ed25519 :: "('sk, 'vk) ed25519"
  d_payload :: "RuntimeCall payload_enc"

record runtime =
  rt_system :: "AccountId32 system_pallet"
  rt_balances :: "AccountId32 balances_pallet"
  rt_poe :: "(AccountId32, string) poe_pallet"

type_synonym 'st chain = "runtime \<times> 'st"

definition runtime_new :: "('st, 'sk, 'vk) deps \<Rightarrow> 'st \<Rightarrow> runtime" where
  "runtime_new D s =
     (let K = d_kv D; X = d_codecs D
      in \<lparr>rt_system = system_new K (c_account X) (c_u32 X) s,
          rt_balances = balances_new K (c_account X) (c_u128 X) s,
          rt_poe = poe_new K (c_content X) (c_account X) s\<rparr>)"

text \<open>Calls on one pallet of the runtime: the pallet and the store are written back.\<close>

definition on_system ::
  "(AccountId32 system_pallet \<times> 'st \<Rightarrow> (AccountId32 system_pallet \<times> 'st) option) \<Rightarrow>
   'st chain \<Rightarrow> 'st chain option" where
  "on_system f ch =
     (case f (rt_system (fst ch), snd ch) of
        None \<Rightarrow> None
      | Some (p, s) \<Rightarrow> Some ((fst ch)\<lparr>rt_system := p\<rparr>, s))"

definition on_balances ::
  "(AccountId32 balances_pallet \<times> 'st \<Rightarrow> AccountId32 balances_pallet \<times> 'st) \<Rightarrow>
   'st chain \<Rightarrow> 'st chain" where
  "on_balances f ch =
     (case f (rt_balances (fst ch), snd ch) of (p, s) \<Rightarrow> ((fst ch)\<lparr>rt_balances := p\<rparr>, s))"

definition runtime_dispatch ::
  "('st, 'sk, 'vk) deps \<Rightarrow> AccountId32 \<Rightarrow> RuntimeCall \<Rightarrow> 'st chain \<Rightarrow>
   (dispatch_result \<times> 'st chain) option" where
  "runtime_dispatch D caller runtime_call ch =
     (case runtime_call of
        RC_balances call \<Rightarrow>
          (case balances_dispatch (d_kv D) (c_account (d_codecs D)) (c_u128 (d_codecs D)) caller call
                  (rt_balances (fst ch), snd ch) of
             None \<Rightarrow> None
           | Some (Inl e, (p, s)) \<Rightarrow> Some (Inl e, ((fst ch)\<lparr>rt_balances := p\<rparr>, s))
           | Some (Inr _, (p, s)) \<Rightarrow> Some (Ok_unit, ((fst ch)\<lparr>rt_balances := p\<rparr>, s)))
      | RC_proof_of_existence call \<Rightarrow>
          (case poe_dispatch (d_kv D) (c_content (d_codecs D)) (c_account (d_codecs D)) caller call
                  (rt_poe (fst ch), snd ch) of
             None \<Rightarrow> None
           | Some (Inl e, (p, s)) \<Rightarrow> Some (Inl e, ((fst ch)\<lparr>rt_poe := p\<rparr>, s))
           | Some (Inr _, (p, s)) \<Rightarrow> Some (Ok_unit, ((fst ch)\<lparr>rt_poe := p\<rparr>, s))))"

text \<open>
  One round of the second pass: a bad signature or a nonce mismatch skips the extrinsic;
  otherwise the nonce is incremented and the call dispatched, its error only logged.
\<close>

definition apply_extrinsic ::
  "('st, 'sk, 'vk) deps \<Rightarrow> ext \<times> dispatch_result \<Rightarrow> 'st chain \<Rightarrow> 'st chain option" where
  "apply_extrinsic D es ch =
     (case es of (e, sig_result) \<Rightarrow>
        (case sig_result of
           Inl _ \<Rightarrow> Some ch
         | Inr _ \<Rightarrow>
            if nonce (rt_system (fst ch)) (ext_signer e) \<noteq> ext_nonce e then Some ch
            else (case on_system (inc_nonce (d_kv D) (c_account (d_codecs D)) (c_u32 (d_codecs D))
                                    (ext_signer e)) ch of
                    None \<Rightarrow> None
                  | Some ch1 \<Rightarrow>
                     (case runtime_dispatch D (ext_signer e) (ext_call e) ch1 of
                        None \<Rightarrow> None
                      | Some (res, ch2) \<Rightarrow> Some ch2))))"

fun apply_extrinsics ::
  "('st, 'sk, 'vk) deps \<Rightarrow> (ext \<times> dispatch_result) list \<Rightarrow> 'st chain \<Rightarrow> 'st chain option" where
  "apply_extrinsics D [] ch = Some ch"
| "apply_extrinsics D (x # xs) ch =
     (case apply_extrinsic D x ch of None \<Rightarrow> None | Some ch' \<Rightarrow> apply_extrinsics D xs ch')"

definition execute_block ::
  "('st, 'sk, 'vk) deps \<Rightarrow> runtime_block \<Rightarrow> 'st chain \<Rightarrow> (dispatch_result \<times> 'st chain) option" where
  "execute_block D block ch =
     (case on_system (inc_block_number (d_kv D) (c_u32 (d_codecs D))) ch of
        None \<Rightarrow> None
      | Some ch1 \<Rightarrow>
         if hd_block_number (blk_header block) \<noteq> block_number (rt_system (fst ch1))
         then Some (Inl ''block number does not match what is expected'', ch1)
         else (let verify_results = verify_batch (d_ed25519 D) (d_payload D) (blk_extrinsics block)
               in case apply_extrinsics D (zip (blk_extrinsics block) verify_results) ch1 of
                    None \<Rightarrow> None
                  | Some ch2 \<Rightarrow> Some (Ok_unit, ch2)))"

text \<open>\<open>maybe_apply_genesis\<close>; the \<open>expect\<close> on the genesis block is a \<open>None\<close> branch.\<close>

definition fund ::
  "('st, 'sk, 'vk) deps \<Rightarrow> AccountKeyring \<Rightarrow> 'st chain \<Rightarrow> 'st chain" where
  "fund D a = on_balances (set_balance (d_kv D) (c_account (d_codecs D)) (c_u128 (d_codecs D))
                             (public (d_ed25519 D) a) 1000000)"

definition maybe_apply_genesis :: "('st, 'sk, 'vk) deps \<Rightarrow> 'st chain \<Rightarrow> 'st chain option" where
  "maybe_apply_genesis D ch =
     (if block_number (rt_system (fst ch)) \<noteq> 0 then Some ch
      else let ch1 = fund D Charlie (fund D Bob (fund D Alice ch));
               genesis = \<lparr>blk_header = \<lparr>hd_block_number = 1\<rparr>, blk_extrinsics = []\<rparr>
           in case execute_block D genesis ch1 of
                None \<Rightarrow> None
              | Some (Inl _, _) \<Rightarrow> None
              | Some (Inr _, ch2) \<Rightarrow> Some ch2)"

lemma on_balances_alt:
  "on_balances f ch =
   ((fst ch)\<lparr>rt_balances := fst (f (rt_balances (fst ch), snd ch))\<rparr>,
    snd (f (rt_balances (fst ch), snd ch)))"
  by (simp add: on_balances_def case_prod_beta)

section \<open>Dispatch\<close>

definition runtime_wf :: "runtime \<Rightarrow> bool" where
  "runtime_wf rt \<longleftrightarrow> bt_wf (sys_nonce (rt_system rt)) \<and> balances_wf (rt_balances rt) \<and> poe_wf (rt_poe rt)"

lemma runtime_dispatch_balances [simp]:
  "runtime_dispatch D caller (RC_balances (Call_transfer to amount)) ch =
   (case transfer (d_kv D) (c_account (d_codecs D)) (c_u128 (d_codecs D)) caller to amount
           (rt_balances (fst ch), snd ch) of
      (r, (p, s)) \<Rightarrow> Some (r, ((fst ch)\<lparr>rt_balances := p\<rparr>, s)))"
  by (auto simp: runtime_dispatch_def split: prod.splits sum.splits)

lemma runtime_dispatch_poe [simp]:
  "runtime_dispatch D caller (RC_proof_of_existence call) ch =
   map_option (\<lambda>(r, (p, s)). (r, ((fst ch)\<lparr>rt_poe := p\<rparr>, s)))
     (poe_dispatch (d_kv D) (c_content (d_codecs D)) (c_account (d_codecs D)) caller call
        (rt_poe (fst ch), snd ch))"
  by (auto simp: runtime_dispatch_def split: prod.splits sum.splits option.splits)

lemma RuntimeCall_cases:
  obtains (transfer) to amount where "c = RC_balances (Call_transfer to amount)"
  | (create) claim where "c = RC_proof_of_existence (Call_create_claim claim)"
  | (revoke) claim where "c = RC_proof_of_existence (Call_revoke_claim claim)"
  by (metis RuntimeCall.exhaust balances_call.exhaust poe_call.exhaust)

text \<open>Dispatch never touches the system pallet, and the pallets keep the promises it needs.\<close>

lemma runtime_dispatch_system:
  "runtime_dispatch D caller call ch = Some (r, ch') \<Longrightarrow> rt_system (fst ch') = rt_system (fst ch)"
  by (cases call rule: RuntimeCall_cases) (auto split: prod.splits)

interpretation rt: dispatcher "runtime_dispatch D" "\<lambda>ch. runtime_wf (fst ch)"
  for D :: "('st, 'sk, 'vk) deps"
proof
  fix ch ch' :: "'st chain" and caller call
  assume wf: "runtime_wf (fst ch)"
  show "runtime_dispatch D caller call ch \<noteq> None"
  proof (cases call)
    case (RC_balances c)
    then show ?thesis by (cases c) (auto split: prod.splits)
  next
    case (RC_proof_of_existence c)
    then show ?thesis
      using wf poe.no_panic [of "(rt_poe (fst ch), snd ch)"] by (auto simp: runtime_wf_def)
  qed
  show "ch' = ch" if "runtime_dispatch D caller call ch = Some (Inl e, ch')" for e
  proof (cases call)
    case (RC_balances c)
    then show ?thesis
      using that by (cases c) (auto split: prod.splits dest!: transfer_err_unchanged)
  next
    case (RC_proof_of_existence c)
    then show ?thesis
      using that wf
      by (auto simp: runtime_wf_def dest!: poe.err_unchanged [rotated])
  qed
  show "runtime_wf (fst ch')" if "runtime_dispatch D caller call ch = Some (r, ch')" for r
  proof (cases call)
    case (RC_balances c)
    then show ?thesis
      using that wf
        balances_wf_transfer [of "(rt_balances (fst ch), snd ch)" "d_kv D" "c_account (d_codecs D)"]
      by (cases c) (fastforce simp: runtime_wf_def split: prod.splits)
  next
    case (RC_proof_of_existence c)
    then show ?thesis
      using that wf poe.inv_kept [of "(rt_poe (fst ch), snd ch)"]
      by (fastforce simp: runtime_wf_def)
  qed
qed

section \<open>One extrinsic\<close>

text \<open>The guard of the second pass: a verified signature and the expected nonce.\<close>

definition admissible :: "ext \<times> dispatch_result \<Rightarrow> runtime \<Rightarrow> bool" where
  "admissible es rt \<longleftrightarrow>
     snd es = Ok_unit \<and> nonce (rt_system rt) (ext_signer (fst es)) = ext_nonce (fst es)"

lemma apply_extrinsic_skip: "\<not> admissible es (fst ch) \<Longrightarrow> apply_extrinsic D es ch = Some ch"
  by (auto simp: apply_extrinsic_def admissible_def split: prod.splits sum.splits)

lemma apply_extrinsic_admissible:
  "admissible (e, r) (fst ch) \<Longrightarrow>
   apply_extrinsic D (e, r) ch =
   (case on_system (inc_nonce (d_kv D) (c_account (d_codecs D)) (c_u32 (d_codecs D)) (ext_signer e)) ch of
      None \<Rightarrow> None
    | Some ch1 \<Rightarrow> map_option snd (runtime_dispatch D (ext_signer e) (ext_call e) ch1))"
  by (auto simp: apply_extrinsic_def admissible_def split: option.splits)

lemma on_system_SomeD:
  "on_system f ch = Some ch' \<Longrightarrow>
   \<exists>p s. f (rt_system (fst ch), snd ch) = Some (p, s) \<and> ch' = ((fst ch)\<lparr>rt_system := p\<rparr>, s)"
  by (auto simp: on_system_def split: option.splits)

lemma apply_extrinsic_nonce:
  assumes "apply_extrinsic D (e, r) ch = Some ch'"
  shows "unat (nonce (rt_system (fst ch')) a) = unat (nonce (rt_system (fst ch)) a) +
           (if admissible (e, r) (fst ch) \<and> ext_signer e = a then 1 else 0)"
    and "block_number (rt_system (fst ch')) = block_number (rt_system (fst ch))"
proof (atomize (full), cases "admissible (e, r) (fst ch)")
  case False
  with assms show "unat (nonce (rt_system (fst ch')) a) = unat (nonce (rt_system (fst ch)) a) +
           (if admissible (e, r) (fst ch) \<and> ext_signer e = a then 1 else 0) \<and>
         block_number (rt_system (fst ch')) = block_number (rt_system (fst ch))"
    by (simp add: apply_extrinsic_skip)
next
  case True
  then obtain ch1 where
    inc: "on_system (inc_nonce (d_kv D) (c_account (d_codecs D)) (c_u32 (d_codecs D)) (ext_signer e)) ch = Some ch1"
    and dis: "map_option snd (runtime_dispatch D (ext_signer e) (ext_call e) ch1) = Some ch'"
    using assms by (auto simp: apply_extrinsic_admissible split: option.splits)
  from dis have "rt_system (fst ch') = rt_system (fst ch1)"
    by (auto dest: runtime_dispatch_system)
  then show "unat (nonce (rt_system (fst ch')) a) = unat (nonce (rt_system (fst ch)) a) +
           (if admissible (e, r) (fst ch) \<and> ext_signer e = a then 1 else 0) \<and>
         block_number (rt_system (fst ch')) = block_number (rt_system (fst ch))"
    using on_system_SomeD [OF inc] True
    by (auto dest: inc_nonce_SomeD simp: inc_nonce_SomeD(1) inc_nonce_SomeD(2))
qed

lemma apply_extrinsic_wf:
  assumes "apply_extrinsic D (e, r) ch = Some ch'" and "runtime_wf (fst ch)"
  shows "runtime_wf (fst ch')"
proof (cases "admissible (e, r) (fst ch)")
  case False
  with assms show ?thesis by (simp add: apply_extrinsic_skip)
next
  case True
  then obtain ch1 r' where
    inc: "on_system (inc_nonce (d_kv D) (c_account (d_codecs D)) (c_u32 (d_codecs D)) (ext_signer e)) ch = Some ch1"
    and dis: "runtime_dispatch D (ext_signer e) (ext_call e) ch1 = Some (r', ch')"
    using assms by (auto simp: apply_extrinsic_admissible split: option.splits)
  have "runtime_wf (fst ch1)"
    using inc assms(2)
    by (auto simp: on_system_def inc_nonce_def Let_def runtime_wf_def split: option.splits)
  then show ?thesis
    using dis by (rule rt.inv_kept)
qed

text \<open>An extrinsic panics the executor only when it would push its signer's nonce past \<open>u32::MAX\<close>.\<close>

lemma apply_extrinsic_total:
  assumes "runtime_wf (fst ch)"
    and "admissible (e, r) (fst ch) \<Longrightarrow> unat (nonce (rt_system (fst ch)) (ext_signer e)) < 2 ^ 32 - 1"
  shows "\<exists>ch'. apply_extrinsic D (e, r) ch = Some ch'"
proof (cases "admissible (e, r) (fst ch)")
  case False
  then show ?thesis by (simp add: apply_extrinsic_skip)
next
  case True
  let ?inc = "inc_nonce (d_kv D) (c_account (d_codecs D)) (c_u32 (d_codecs D)) (ext_signer e)"
  obtain p s where inc: "?inc (rt_system (fst ch), snd ch) = Some (p, s)"
    using assms(2) [OF True]
    by (cases rule: inc_nonce_cases [of "d_kv D" "c_account (d_codecs D)" "c_u32 (d_codecs D)"
          "ext_signer e" "rt_system (fst ch)" "snd ch"]) auto
  let ?ch1 = "((fst ch)\<lparr>rt_system := p\<rparr>, s)"
  have "runtime_wf (fst ?ch1)"
    using assms(1) inc by (auto simp: runtime_wf_def inc_nonce_def Let_def split: option.splits)
  then obtain r' ch' where "runtime_dispatch D (ext_signer e) (ext_call e) ?ch1 = Some (r', ch')"
    by (rule rt.returns)
  with True inc show ?thesis
    by (simp add: apply_extrinsic_admissible on_system_def)
qed

section \<open>The extrinsics of a block\<close>

text \<open>The extrinsics the second pass applies, in order.\<close>

fun applied :: "('st, 'sk, 'vk) deps \<Rightarrow> (ext \<times> dispatch_result) list \<Rightarrow> 'st chain \<Rightarrow> ext list" where
  "applied D [] ch = []"
| "applied D (x # xs) ch =
     (if admissible x (fst ch) then [fst x] else []) @
     (case apply_extrinsic D x ch of None \<Rightarrow> [] | Some ch' \<Rightarrow> applied D xs ch')"

definition by_signer :: "AccountId32 \<Rightarrow> ext list \<Rightarrow> ext list" where
  "by_signer a xs = filter (\<lambda>e. ext_signer e = a) xs"

lemma by_signer_append [simp]: "by_signer a (xs @ ys) = by_signer a xs @ by_signer a ys"
  by (simp add: by_signer_def)

lemma by_signer_simps [simp]:
  "by_signer a [] = []"
  "by_signer a (x # xs) = (if ext_signer x = a then x # by_signer a xs else by_signer a xs)"
  by (simp_all add: by_signer_def)

text \<open>The nonces of the applied extrinsics of an account are consecutive, from the nonce before.\<close>

lemma apply_extrinsics_nonces:
  "apply_extrinsics D xs ch = Some ch' \<Longrightarrow>
   map (\<lambda>e. unat (ext_nonce e)) (by_signer a (applied D xs ch)) =
   [unat (nonce (rt_system (fst ch)) a) ..< unat (nonce (rt_system (fst ch')) a)] \<and>
   unat (nonce (rt_system (fst ch)) a) \<le> unat (nonce (rt_system (fst ch')) a)"
proof (induction xs arbitrary: ch)
  case Nil
  then show ?case by simp
next
  case (Cons x xs)
  obtain e r where x: "x = (e, r)" by (cases x)
  from Cons.prems obtain ch1 where one: "apply_extrinsic D (e, r) ch = Some ch1"
    and rest: "apply_extrinsics D xs ch1 = Some ch'"
    by (auto simp: x split: option.splits)
  note IH = Cons.IH [OF rest]
  note step = apply_extrinsic_nonce(1) [OF one, of a]
  show ?case
    using IH step one
    by (auto simp: x admissible_def upt_conv_Cons split: if_splits)
qed

lemma apply_extrinsics_wf:
  "apply_extrinsics D xs ch = Some ch' \<Longrightarrow> runtime_wf (fst ch) \<Longrightarrow> runtime_wf (fst ch')"
proof (induction xs arbitrary: ch)
  case (Cons x xs)
  then show ?case
    by (cases x) (auto split: option.splits dest: apply_extrinsic_wf)
qed simp

lemma apply_extrinsics_block_number:
  "apply_extrinsics D xs ch = Some ch' \<Longrightarrow>
   block_number (rt_system (fst ch')) = block_number (rt_system (fst ch))"
proof (induction xs arbitrary: ch)
  case (Cons x xs)
  then show ?case
    by (cases x) (auto split: option.splits dest: apply_extrinsic_nonce(2))
qed simp

lemma apply_extrinsics_total:
  assumes "runtime_wf (fst ch)"
    and "\<And>a. unat (nonce (rt_system (fst ch)) a) + length (by_signer a (map fst xs)) < 2 ^ 32"
  shows "\<exists>ch'. apply_extrinsics D xs ch = Some ch'"
  using assms
proof (induction xs arbitrary: ch)
  case Nil
  then show ?case by simp
next
  case (Cons x xs)
  obtain e r where x: "x = (e, r)" by (cases x)
  have "unat (nonce (rt_system (fst ch)) (ext_signer e)) < 2 ^ 32 - 1"
    using Cons.prems(2) [of "ext_signer e"] by (simp add: x)
  then obtain ch1 where one: "apply_extrinsic D (e, r) ch = Some ch1"
    using apply_extrinsic_total [OF Cons.prems(1)] by blast
  have "unat (nonce (rt_system (fst ch1)) a) + length (by_signer a (map fst xs)) < 2 ^ 32" for a
    using Cons.prems(2) [of a] apply_extrinsic_nonce(1) [OF one, of a]
    by (auto simp: x split: if_splits)
  then have "\<exists>ch'. apply_extrinsics D xs ch1 = Some ch'"
    using Cons.IH apply_extrinsic_wf [OF one Cons.prems(1)] by blast
  with one show ?case by (simp add: x)
qed

text \<open>Extrinsics whose signature does not verify can be left out.\<close>

lemma apply_extrinsics_verified:
  "apply_extrinsics D (filter (\<lambda>x. snd x = Ok_unit) xs) ch = apply_extrinsics D xs ch"
proof (induction xs arbitrary: ch)
  case (Cons x xs)
  then show ?case
    by (cases "snd x = Ok_unit") (auto simp: apply_extrinsic_skip admissible_def split: option.splits)
qed simp

end
