(* ===== verification/Block_Execution.thy ===== *)
theory Block_Execution
  imports Runtime
begin

text \<open>
  What a block does to the in-memory runtime: the three ways \<open>execute_block\<close> can end, the
  token supply, whose balance and whose claims a block can change, replay protection over a
  run of blocks, and that the result does not depend on the store or its codecs, so nodes
  that agree on the runtime agree after every block.
\<close>

section \<open>The three outcomes of \<open>execute_block\<close>\<close>

text \<open>The state after \<open>inc_block_number\<close>, which runs before the header is checked.\<close>

definition bumped :: "('st, 'sk, 'vk) deps \<Rightarrow> 'st chain \<Rightarrow> 'st chain" where
  "bumped D ch =
     (let n = block_number (rt_system (fst ch)) + 1
      in ((fst ch)\<lparr>rt_system := (rt_system (fst ch))\<lparr>sys_block_number := n\<rparr>\<rparr>,
          snd (kv_put (d_kv D) (snd ch) PREFIX_BLOCK_NUMBER (encode (c_u32 (d_codecs D)) n))))"

lemma bumped_simps [simp]:
  "rt_balances (fst (bumped D ch)) = rt_balances (fst ch)"
  "rt_poe (fst (bumped D ch)) = rt_poe (fst ch)"
  "nonce (rt_system (fst (bumped D ch))) = nonce (rt_system (fst ch))"
  "sys_nonce (rt_system (fst (bumped D ch))) = sys_nonce (rt_system (fst ch))"
  "block_number (rt_system (fst (bumped D ch))) = block_number (rt_system (fst ch)) + 1"
  "runtime_wf (fst (bumped D ch)) = runtime_wf (fst ch)"
  by (simp_all add: bumped_def Let_def runtime_wf_def)

definition results :: "('st, 'sk, 'vk) deps \<Rightarrow> runtime_block \<Rightarrow> (ext \<times> dispatch_result) list" where
  "results D b =
     zip (blk_extrinsics b) (verify_batch (d_ed25519 D) (d_payload D) (blk_extrinsics b))"

lemma results_alt: "results D b = map (\<lambda>e. (e, verify (d_ed25519 D) (d_payload D) e)) (blk_extrinsics b)"
  by (simp add: results_def verify_batch_def zip_map2 zip_same_conv_map)

lemma map_fst_results [simp]: "map fst (results D b) = blk_extrinsics b"
  by (simp add: results_alt comp_def)

lemma execute_block_cases:
  obtains (panic) "unat (block_number (rt_system (fst ch))) = 2 ^ 32 - 1" "execute_block D b ch = None"
  | (bad_header) "hd_block_number (blk_header b) \<noteq> block_number (rt_system (fst ch)) + 1"
      "execute_block D b ch =
       Some (Inl ''block number does not match what is expected'', bumped D ch)"
      "unat (block_number (rt_system (fst ch)) + 1) = Suc (unat (block_number (rt_system (fst ch))))"
  | (run) "hd_block_number (blk_header b) = block_number (rt_system (fst ch)) + 1"
      "execute_block D b ch = map_option (Pair Ok_unit) (apply_extrinsics D (results D b) (bumped D ch))"
      "unat (block_number (rt_system (fst ch)) + 1) = Suc (unat (block_number (rt_system (fst ch))))"
proof (cases rule: inc_block_number_cases [of "d_kv D" "c_u32 (d_codecs D)" "rt_system (fst ch)" "snd ch"])
  case panic
  then show thesis
    using that(1) by (simp add: execute_block_def on_system_def)
next
  case ok
  then have inc: "on_system (inc_block_number (d_kv D) (c_u32 (d_codecs D))) ch = Some (bumped D ch)"
    by (simp add: on_system_def bumped_def Let_def)
  show thesis
  proof (cases "hd_block_number (blk_header b) = block_number (rt_system (fst ch)) + 1")
    case True
    then have "execute_block D b ch =
        map_option (Pair Ok_unit) (apply_extrinsics D (results D b) (bumped D ch))"
      by (simp add: execute_block_def inc results_def split: option.splits)
    with True ok that(3) show thesis by blast
  next
    case False
    then have "execute_block D b ch =
        Some (Inl ''block number does not match what is expected'', bumped D ch)"
      by (simp add: execute_block_def inc)
    with False ok that(2) show thesis by blast
  qed
qed

lemma execute_block_SomeE [consumes 1, case_names bad_header run]:
  assumes "execute_block D b ch = Some (r, ch')"
  obtains "hd_block_number (blk_header b) \<noteq> block_number (rt_system (fst ch)) + 1"
      "r = Inl ''block number does not match what is expected''" "ch' = bumped D ch"
  | "hd_block_number (blk_header b) = block_number (rt_system (fst ch)) + 1"
      "r = Ok_unit" "apply_extrinsics D (results D b) (bumped D ch) = Some ch'"
  using assms by (cases rule: execute_block_cases [of ch D b]) (auto simp: map_option_eq_Some)

lemma execute_block_alt:
  "execute_block D b ch =
   (if unat (block_number (rt_system (fst ch))) = 2 ^ 32 - 1 then None
    else if hd_block_number (blk_header b) \<noteq> block_number (rt_system (fst ch)) + 1
    then Some (Inl ''block number does not match what is expected'', bumped D ch)
    else map_option (Pair Ok_unit) (apply_extrinsics D (results D b) (bumped D ch)))"
proof -
  have "unat (block_number (rt_system (fst ch)) + 1) < 2 ^ LENGTH(32)"
    by (fact unsigned_less)
  then show ?thesis
    by (cases rule: execute_block_cases [of ch D b]) auto
qed

lemma execute_block_wf:
  "execute_block D b ch = Some (r, ch') \<Longrightarrow> runtime_wf (fst ch) \<Longrightarrow> runtime_wf (fst ch')"
  by (cases rule: execute_block_SomeE) (auto dest: apply_extrinsics_wf)

lemma execute_block_number:
  assumes "execute_block D b ch = Some (r, ch')"
  shows "unat (block_number (rt_system (fst ch'))) = Suc (unat (block_number (rt_system (fst ch))))"
  using assms by (cases rule: execute_block_cases [of ch D b]) (auto dest: apply_extrinsics_block_number)

lemma execute_block_total:
  assumes "runtime_wf (fst ch)" and "unat (block_number (rt_system (fst ch))) < 2 ^ 32 - 1"
    and "\<And>a. unat (nonce (rt_system (fst ch)) a) + length (by_signer a (blk_extrinsics b)) < 2 ^ 32"
  shows "\<exists>r ch'. execute_block D b ch = Some (r, ch')"
proof (cases rule: execute_block_cases [of ch D b])
  case run
  then show ?thesis
    using apply_extrinsics_total [of "bumped D ch" "results D b" D] assms by auto
qed (use assms in auto)

section \<open>The token supply\<close>

text \<open>The amount of a transfer to oneself; zero for every other call.\<close>

definition self_amount :: "ext \<Rightarrow> nat" where
  "self_amount e =
     (case ext_call e of
        RC_balances (Call_transfer to amount) \<Rightarrow> if to = ext_signer e then unat amount else 0
      | RC_proof_of_existence _ \<Rightarrow> 0)"

abbreviation issuance :: "'st chain \<Rightarrow> nat" where
  "issuance ch \<equiv> total_issuance (rt_balances (fst ch))"

lemma dispatch_issuance:
  assumes "runtime_dispatch D (ext_signer e) (ext_call e) ch = Some (r, ch')" and "runtime_wf (fst ch)"
  shows "issuance ch' = issuance ch + (if r = Ok_unit then self_amount e else 0)"
proof (cases "ext_call e" rule: RuntimeCall_cases)
  case (transfer to amount)
  then show ?thesis
    using assms
      total_issuance_transfer [of "(rt_balances (fst ch), snd ch)" "d_kv D" "c_account (d_codecs D)"
        "c_u128 (d_codecs D)" "ext_signer e" to amount]
    by (auto simp: runtime_wf_def self_amount_def split: prod.splits)
qed (use assms in \<open>auto simp: self_amount_def split: prod.splits\<close>)

text \<open>An admissible extrinsic runs its call on the runtime with the nonce incremented.\<close>

lemma apply_extrinsic_runE:
  assumes "apply_extrinsic D (e, v) ch = Some ch'" and "admissible (e, v) (fst ch)"
  obtains ch1 r where "runtime_dispatch D (ext_signer e) (ext_call e) ch1 = Some (r, ch')"
    and "rt_balances (fst ch1) = rt_balances (fst ch)" and "rt_poe (fst ch1) = rt_poe (fst ch)"
    and "runtime_wf (fst ch) \<Longrightarrow> runtime_wf (fst ch1)"
proof -
  obtain ch1 r where
    inc: "on_system (inc_nonce (d_kv D) (c_account (d_codecs D)) (c_u32 (d_codecs D)) (ext_signer e)) ch = Some ch1"
    and dis: "runtime_dispatch D (ext_signer e) (ext_call e) ch1 = Some (r, ch')"
    using assms by (auto simp: apply_extrinsic_admissible split: option.splits)
  have "runtime_wf (fst ch) \<Longrightarrow> runtime_wf (fst ch1)"
    using inc by (auto simp: on_system_def inc_nonce_def Let_def runtime_wf_def split: option.splits)
  moreover have "rt_balances (fst ch1) = rt_balances (fst ch)" "rt_poe (fst ch1) = rt_poe (fst ch)"
    using on_system_SomeD [OF inc] by auto
  ultimately show thesis
    using dis that by blast
qed

lemma apply_extrinsic_issuance:
  assumes "apply_extrinsic D (e, v) ch = Some ch'" and "runtime_wf (fst ch)"
  shows "issuance ch \<le> issuance ch'" and "issuance ch' \<le> issuance ch + self_amount e"
proof (atomize (full), cases "admissible (e, v) (fst ch)")
  case True
  then show "issuance ch \<le> issuance ch' \<and> issuance ch' \<le> issuance ch + self_amount e"
    using assms by (auto elim!: apply_extrinsic_runE dest!: dispatch_issuance split: if_splits)
qed (use assms in \<open>simp add: apply_extrinsic_skip\<close>)

lemma apply_extrinsics_issuance:
  "apply_extrinsics D xs ch = Some ch' \<Longrightarrow> runtime_wf (fst ch) \<Longrightarrow>
   issuance ch \<le> issuance ch' \<and>
   issuance ch' \<le> issuance ch + sum_list (map (\<lambda>x. self_amount (fst x)) xs)"
proof (induction xs arbitrary: ch)
  case (Cons x xs)
  obtain e v where x: "x = (e, v)" by (cases x)
  from Cons.prems obtain ch1 where one: "apply_extrinsic D (e, v) ch = Some ch1"
    and rest: "apply_extrinsics D xs ch1 = Some ch'"
    by (auto simp: x split: option.splits)
  show ?case
    using Cons.IH [OF rest apply_extrinsic_wf [OF one Cons.prems(2)]]
      apply_extrinsic_issuance [OF one Cons.prems(2)]
    by (simp add: x)
qed simp

lemma execute_block_issuance:
  assumes "execute_block D b ch = Some (r, ch')" and "runtime_wf (fst ch)"
  shows "issuance ch \<le> issuance ch' \<and>
         issuance ch' \<le> issuance ch + sum_list (map self_amount (blk_extrinsics b))"
  using assms(1)
proof (cases rule: execute_block_SomeE)
  case run
  have "map (\<lambda>x. self_amount (fst x)) (results D b) = map self_amount (blk_extrinsics b)"
    by (simp add: results_alt)
  then show ?thesis
    using apply_extrinsics_issuance [OF run(3)] assms(2) by simp
qed simp

section \<open>Who can change what\<close>

text \<open>
  \<open>spares P R\<close>: an extrinsic that is not a verified one satisfying \<open>P\<close> leaves the
  relation \<open>R\<close> between the state before and after. A reflexive, transitive \<open>R\<close> lifts from
  one extrinsic to a block.
\<close>

definition spared ::
  "('st, 'sk, 'vk) deps \<Rightarrow> (ext \<Rightarrow> bool) \<Rightarrow> ext list \<Rightarrow> bool" where
  "spared D P xs \<longleftrightarrow> (\<forall>e \<in> set xs. P e \<longrightarrow> verify (d_ed25519 D) (d_payload D) e \<noteq> Ok_unit)"

lemma apply_extrinsics_lift:
  assumes refl: "\<And>rt. R rt rt" and trans: "\<And>x y z. R x y \<Longrightarrow> R y z \<Longrightarrow> R x z"
    and step: "\<And>e rt ch1 ch2 r. \<not> P e \<Longrightarrow> runtime_wf (fst ch1) \<Longrightarrow>
      rt_balances (fst ch1) = rt_balances rt \<Longrightarrow> rt_poe (fst ch1) = rt_poe rt \<Longrightarrow>
      runtime_dispatch D (ext_signer e) (ext_call e) ch1 = Some (r, ch2) \<Longrightarrow> R rt (fst ch2)"
  shows "apply_extrinsics D xs ch = Some ch' \<Longrightarrow> runtime_wf (fst ch) \<Longrightarrow>
    (\<And>e v. (e, v) \<in> set xs \<Longrightarrow> P e \<Longrightarrow> v \<noteq> Ok_unit) \<Longrightarrow> R (fst ch) (fst ch')"
proof (induction xs arbitrary: ch)
  case Nil
  then show ?case by (simp add: refl)
next
  case (Cons x xs)
  obtain e v where x: "x = (e, v)" by (cases x)
  from Cons.prems obtain ch1 where one: "apply_extrinsic D (e, v) ch = Some ch1"
    and rest: "apply_extrinsics D xs ch1 = Some ch'"
    by (auto simp: x split: option.splits)
  have "R (fst ch) (fst ch1)"
  proof (cases "admissible (e, v) (fst ch)")
    case False
    then show ?thesis using one by (simp add: apply_extrinsic_skip refl)
  next
    case True
    then have "\<not> P e"
      using Cons.prems(3) [of e v] by (auto simp: x admissible_def)
    moreover obtain c r where "runtime_dispatch D (ext_signer e) (ext_call e) c = Some (r, ch1)"
      and "rt_balances (fst c) = rt_balances (fst ch)" and "rt_poe (fst c) = rt_poe (fst ch)"
      and "runtime_wf (fst c)"
      using apply_extrinsic_runE [OF one True] Cons.prems(2) by blast
    ultimately show ?thesis
      by (intro step [of e c "fst ch" r ch1])
  qed
  moreover have "R (fst ch1) (fst ch')"
    using rest apply_extrinsic_wf [OF one Cons.prems(2)] Cons.prems(3)
    by (intro Cons.IH) (auto simp: x)
  ultimately show ?case by (rule trans)
qed

lemma execute_block_lift:
  assumes "execute_block D b ch = Some (r, ch')" and "runtime_wf (fst ch)"
    and "spared D P (blk_extrinsics b)"
    and refl: "\<And>rt. R rt rt" and trans: "\<And>x y z. R x y \<Longrightarrow> R y z \<Longrightarrow> R x z"
    and bump: "R (fst ch) (fst (bumped D ch))"
    and step: "\<And>e rt ch1 ch2 r. \<not> P e \<Longrightarrow> runtime_wf (fst ch1) \<Longrightarrow>
      rt_balances (fst ch1) = rt_balances rt \<Longrightarrow> rt_poe (fst ch1) = rt_poe rt \<Longrightarrow>
      runtime_dispatch D (ext_signer e) (ext_call e) ch1 = Some (r, ch2) \<Longrightarrow> R rt (fst ch2)"
  shows "R (fst ch) (fst ch')"
  using assms(1)
proof (cases rule: execute_block_SomeE)
  case run
  have "R (fst (bumped D ch)) (fst ch')"
  proof (rule apply_extrinsics_lift [where P = P and R = R])
    show "R x z" if "R x y" and "R y z" for x y z
      using that by (rule trans)
    show "R rt (fst ch2)" if "\<not> P e" and "runtime_wf (fst ch1)"
      and "rt_balances (fst ch1) = rt_balances rt" and "rt_poe (fst ch1) = rt_poe rt"
      and "runtime_dispatch D (ext_signer e) (ext_call e) ch1 = Some (r, ch2)" for e rt ch1 ch2 r
      using that by (rule step)
    show "v \<noteq> Ok_unit" if "(e, v) \<in> set (results D b)" and "P e" for e v
      using that assms(3) by (auto simp: results_alt spared_def)
  qed (use run(3) assms(2) in \<open>simp_all add: refl\<close>)
  with bump show ?thesis by (rule trans)
qed (use bump in simp)

lemma dispatch_balance_mono:
  assumes "runtime_dispatch D caller call ch = Some (r, ch')" and "caller \<noteq> a"
  shows "unat (balance (rt_balances (fst ch)) a) \<le> unat (balance (rt_balances (fst ch')) a)"
proof (cases call rule: RuntimeCall_cases)
  case (transfer to amount)
  let ?ps = "(rt_balances (fst ch), snd ch)"
  obtain p s where tr: "Balances_Pallet.transfer (d_kv D) (c_account (d_codecs D)) (c_u128 (d_codecs D))
      caller to amount ?ps = (r, (p, s))" and ch': "ch' = ((fst ch)\<lparr>rt_balances := p\<rparr>, s)"
    using assms(1) transfer by (auto split: prod.splits)
  show ?thesis
  proof (cases r)
    case (Inl e)
    with tr have "(p, s) = ?ps" by (auto dest: transfer_err_unchanged)
    then show ?thesis by (simp add: ch')
  next
    case (Inr u)
    then have "unat (balance (rt_balances (fst ch)) to) + unat amount < 2 ^ 128"
      using tr transfer_ok_iff [of "d_kv D" "c_account (d_codecs D)" "c_u128 (d_codecs D)"
          caller to amount ?ps] by simp
    then have "unat (balance (rt_balances (fst ch)) to + amount) =
        unat (balance (rt_balances (fst ch)) to) + unat amount"
      by (simp add: unat_word_ariths)
    then show ?thesis
      using transfer_ok_balance [OF tr [unfolded Inr], of a] assms(2) by (simp add: ch')
  qed
qed (use assms in \<open>auto split: prod.splits\<close>)

lemma dispatch_spends:
  assumes "runtime_dispatch D caller call ch = Some (r, ch')"
    and "\<not> (caller = a \<and> (\<exists>to amount. call = RC_balances (Call_transfer to amount)))"
  shows "unat (balance (rt_balances (fst ch)) a) \<le> unat (balance (rt_balances (fst ch')) a)"
proof (cases "caller = a")
  case True
  with assms show ?thesis
    by (cases call rule: RuntimeCall_cases) (auto split: prod.splits)
qed (use assms(1) in \<open>rule dispatch_balance_mono\<close>)

lemma dispatch_claim_kept:
  assumes "runtime_dispatch D caller call ch = Some (r, ch')" and "poe_wf (rt_poe (fst ch))"
    and "get_claim (rt_poe (fst ch)) c = Some a"
    and "\<not> (caller = a \<and> call = RC_proof_of_existence (Call_revoke_claim c))"
  shows "get_claim (rt_poe (fst ch')) c = Some a"
proof (cases call rule: RuntimeCall_cases)
  case (create claim)
  have "poe_wf (fst (rt_poe (fst ch), snd ch))"
    using assms(2) by simp
  then show ?thesis
    using assms(1,3) create
    by (cases rule: create_claim_cases [of "(rt_poe (fst ch), snd ch)" claim "d_kv D"
          "c_content (d_codecs D)" "c_account (d_codecs D)" caller]) auto
next
  case (revoke claim)
  show ?thesis
    using assms revoke
    by (cases rule: revoke_claim_cases [of "(rt_poe (fst ch), snd ch)" claim "d_kv D"
          "c_content (d_codecs D)" caller]) auto
qed (use assms in \<open>auto split: prod.splits\<close>)

section \<open>Runs of blocks\<close>

text \<open>Blocks executed one after the other, whatever each returns.\<close>

fun run_blocks :: "('st, 'sk, 'vk) deps \<Rightarrow> runtime_block list \<Rightarrow> 'st chain \<Rightarrow> 'st chain option" where
  "run_blocks D [] ch = Some ch"
| "run_blocks D (b # bs) ch =
     (case execute_block D b ch of None \<Rightarrow> None | Some (_, ch') \<Rightarrow> run_blocks D bs ch')"

text \<open>The extrinsics a run applies; a block with a wrong header applies none.\<close>

definition applied_block :: "('st, 'sk, 'vk) deps \<Rightarrow> runtime_block \<Rightarrow> 'st chain \<Rightarrow> ext list" where
  "applied_block D b ch =
     (if hd_block_number (blk_header b) = block_number (rt_system (fst ch)) + 1
      then applied D (results D b) (bumped D ch) else [])"

fun applied_run :: "('st, 'sk, 'vk) deps \<Rightarrow> runtime_block list \<Rightarrow> 'st chain \<Rightarrow> ext list" where
  "applied_run D [] ch = []"
| "applied_run D (b # bs) ch =
     applied_block D b ch @
     (case execute_block D b ch of None \<Rightarrow> [] | Some (_, ch') \<Rightarrow> applied_run D bs ch')"

abbreviation nonce_of :: "'st chain \<Rightarrow> AccountId32 \<Rightarrow> nat" where
  "nonce_of ch a \<equiv> unat (nonce (rt_system (fst ch)) a)"

lemma execute_block_nonces:
  assumes "execute_block D b ch = Some (r, ch')"
  shows "map (\<lambda>e. unat (ext_nonce e)) (by_signer a (applied_block D b ch)) =
         [nonce_of ch a ..< nonce_of ch' a] \<and> nonce_of ch a \<le> nonce_of ch' a"
  using assms
proof (cases rule: execute_block_SomeE)
  case run
  then show ?thesis
    using apply_extrinsics_nonces [OF run(3), of a] by (simp add: applied_block_def)
qed (simp add: applied_block_def)

text \<open>The nonces after a block count what it applied.\<close>

lemma applied_nonces:
  assumes "execute_block D b ch = Some (r, ch')" and "applied_block D b ch = batch"
  shows "unat (nonce (rt_system (fst ch')) c) = unat (nonce (rt_system (fst ch)) c) + length (by_signer c batch)"
    and "nonce (rt_system (fst ch')) c = nonce (rt_system (fst ch)) c + word_of_nat (length (by_signer c batch))"
proof -
  have "length (by_signer c batch) = unat (nonce (rt_system (fst ch')) c) - unat (nonce (rt_system (fst ch)) c)"
    and "unat (nonce (rt_system (fst ch)) c) \<le> unat (nonce (rt_system (fst ch')) c)"
    using execute_block_nonces [OF assms(1), of c] assms(2) by (metis length_map length_upt)+
  then show sum: "unat (nonce (rt_system (fst ch')) c) = unat (nonce (rt_system (fst ch)) c) + length (by_signer c batch)"
    by simp
  have room: "unat (nonce (rt_system (fst ch')) c) < 2 ^ 32"
    by (rule order_less_le_trans [OF unsigned_less]) simp
  have "unat (nonce (rt_system (fst ch')) c) = unat (nonce (rt_system (fst ch)) c + word_of_nat (length (by_signer c batch)))"
    using sum room by (simp add: unat_word_ariths unat_of_nat mod_add_right_eq)
  then show "nonce (rt_system (fst ch')) c = nonce (rt_system (fst ch)) c + word_of_nat (length (by_signer c batch))"
    by (rule unsigned_word_eqI)
qed

lemma run_blocks_nonces:
  "run_blocks D bs ch = Some ch' \<Longrightarrow>
   map (\<lambda>e. unat (ext_nonce e)) (by_signer a (applied_run D bs ch)) =
   [nonce_of ch a ..< nonce_of ch' a] \<and> nonce_of ch a \<le> nonce_of ch' a"
proof (induction bs arbitrary: ch)
  case Nil
  then show ?case by simp
next
  case (Cons b bs)
  then obtain r ch1 where b: "execute_block D b ch = Some (r, ch1)" and bs: "run_blocks D bs ch1 = Some ch'"
    by (auto split: option.splits)
  show ?case
    using execute_block_nonces [OF b, of a] Cons.IH [OF bs] b
    by (auto simp: upt_add_eq_append [symmetric] le_iff_add)
qed

text \<open>A list whose extrinsics are distinct for every signer is distinct.\<close>

lemma distinct_by_signer:
  assumes "\<And>a. distinct (map (\<lambda>e. unat (ext_nonce e)) (by_signer a xs))"
  shows "distinct (map (\<lambda>e. (ext_signer e, ext_nonce e)) xs)"
  using assms
proof (induction xs)
  case (Cons x xs)
  have "distinct (map (\<lambda>e. unat (ext_nonce e)) (by_signer a xs))" for a
    using Cons.prems [of a] by (auto split: if_splits)
  then have IH: "distinct (map (\<lambda>e. (ext_signer e, ext_nonce e)) xs)"
    by (rule Cons.IH)
  have "(ext_signer x, ext_nonce x) \<notin> (\<lambda>e. (ext_signer e, ext_nonce e)) ` set xs"
    using Cons.prems [of "ext_signer x"] by (force simp: by_signer_def)
  with IH show ?case by simp
qed simp

section \<open>Independence of the store\<close>

text \<open>What the in-memory runtime sees of two sets of dependencies: only the signatures.\<close>

definition same_crypto :: "('s, 'sk, 'vk) deps \<Rightarrow> ('t, 'sk, 'vk) deps \<Rightarrow> bool" where
  "same_crypto D D' \<longleftrightarrow> d_ed25519 D = d_ed25519 D' \<and> d_payload D = d_payload D'"

text \<open>Two optional results that agree on the runtime.\<close>

definition agree :: "('r \<times> 's chain) option \<Rightarrow> ('r \<times> 't chain) option \<Rightarrow> bool" where
  "agree x y \<longleftrightarrow> map_option (\<lambda>(r, ch). (r, fst ch)) x = map_option (\<lambda>(r, ch). (r, fst ch)) y"

lemma agree_SomeD:
  "agree x y \<Longrightarrow> x = Some (r, ch) \<Longrightarrow> \<exists>ch'. y = Some (r, ch') \<and> fst ch' = fst ch"
  by (cases y) (auto simp: agree_def)

lemma transfer_agree:
  "fst ps = fst ps' \<Longrightarrow>
   fst (transfer K ca cb caller to amount ps) = fst (transfer K' ca' cb' caller to amount ps') \<and>
   fst (snd (transfer K ca cb caller to amount ps)) = fst (snd (transfer K' ca' cb' caller to amount ps'))"
  by (auto simp: pallet_defs Let_def split: option.splits)

lemma create_claim_agree:
  "fst ps = fst ps' \<Longrightarrow>
   map_option (\<lambda>(r, ps). (r, fst ps)) (create_claim K cc ca caller claim ps) =
   map_option (\<lambda>(r, ps). (r, fst ps)) (create_claim K' cc' ca' caller claim ps')"
  by (auto simp: pallet_defs Let_def split: option.splits)

lemma revoke_claim_agree:
  "fst ps = fst ps' \<Longrightarrow>
   fst (revoke_claim K cc caller claim ps) = fst (revoke_claim K' cc' caller claim ps') \<and>
   fst (snd (revoke_claim K cc caller claim ps)) = fst (snd (revoke_claim K' cc' caller claim ps'))"
  by (auto simp: pallet_defs split: option.splits)

lemma runtime_dispatch_agree:
  fixes D :: "('s, 'sk, 'vk) deps" and D' :: "('t, 'sk, 'vk) deps"
  assumes "fst ch = fst ch'"
  shows "agree (runtime_dispatch D caller call ch) (runtime_dispatch D' caller call ch')"
proof (cases call rule: RuntimeCall_cases)
  case (transfer to amount)
  then show ?thesis
    using assms transfer_agree [of "(rt_balances (fst ch), snd ch)" "(rt_balances (fst ch'), snd ch')"
        "d_kv D" "c_account (d_codecs D)" "c_u128 (d_codecs D)" caller to amount "d_kv D'"
        "c_account (d_codecs D')" "c_u128 (d_codecs D')"]
    by (auto simp: agree_def split: prod.splits)
next
  case (create claim)
  then show ?thesis
    using assms create_claim_agree [of "(rt_poe (fst ch), snd ch)" "(rt_poe (fst ch'), snd ch')"
        "d_kv D" "c_content (d_codecs D)" "c_account (d_codecs D)" caller claim "d_kv D'"
        "c_content (d_codecs D')" "c_account (d_codecs D')"]
    by (auto simp: agree_def map_option_case split: prod.splits option.splits)
next
  case (revoke claim)
  then show ?thesis
    using assms revoke_claim_agree [of "(rt_poe (fst ch), snd ch)" "(rt_poe (fst ch'), snd ch')"
        "d_kv D" "c_content (d_codecs D)" caller claim "d_kv D'" "c_content (d_codecs D')"]
    by (auto simp: agree_def split: prod.splits)
qed

lemma inc_nonce_agree:
  "map_option fst (inc_nonce K ca cu who (p, s)) = map_option fst (inc_nonce K' ca' cu' who (p, s'))"
  by (auto simp: pallet_defs Let_def split: option.splits)

lemma apply_extrinsic_agree:
  fixes D :: "('s, 'sk, 'vk) deps" and D' :: "('t, 'sk, 'vk) deps"
  assumes "fst ch = fst ch'"
  shows "map_option fst (apply_extrinsic D (e, v) ch) = map_option fst (apply_extrinsic D' (e, v) ch')"
proof (cases "admissible (e, v) (fst ch)")
  case False
  then show ?thesis
    using assms by (simp add: apply_extrinsic_skip)
next
  case True
  let ?a = "ext_signer e" and ?p = "rt_system (fst ch)"
  have inc: "map_option fst (inc_nonce (d_kv D) (c_account (d_codecs D)) (c_u32 (d_codecs D)) ?a (?p, snd ch)) =
             map_option fst (inc_nonce (d_kv D') (c_account (d_codecs D')) (c_u32 (d_codecs D')) ?a (?p, snd ch'))"
    by (rule inc_nonce_agree)
  have dis: "map_option (fst \<circ> snd) (runtime_dispatch D ?a (ext_call e) ((fst ch)\<lparr>rt_system := q\<rparr>, s)) =
             map_option (fst \<circ> snd) (runtime_dispatch D' ?a (ext_call e) ((fst ch)\<lparr>rt_system := q\<rparr>, s'))"
    for q s s'
    using runtime_dispatch_agree [of "((fst ch)\<lparr>rt_system := q\<rparr>, s)" "((fst ch)\<lparr>rt_system := q\<rparr>, s')" D
        ?a "ext_call e" D']
    by (auto simp: agree_def map_option_case split: option.splits)
  show ?thesis
    using True assms inc dis
    by (auto simp: apply_extrinsic_admissible on_system_def option.map_comp split: option.splits)
qed

lemma apply_extrinsics_agree:
  fixes D :: "('s, 'sk, 'vk) deps" and D' :: "('t, 'sk, 'vk) deps"
  shows "fst ch = fst ch' \<Longrightarrow>
    map_option fst (apply_extrinsics D xs ch) = map_option fst (apply_extrinsics D' xs ch')"
proof (induction xs arbitrary: ch ch')
  case (Cons x xs)
  then show ?case
    using apply_extrinsic_agree [of ch ch' D "fst x" "snd x" D']
    by (auto split: option.splits)
qed simp

lemma execute_block_agree:
  fixes D :: "('s, 'sk, 'vk) deps" and D' :: "('t, 'sk, 'vk) deps"
  assumes "same_crypto D D'" and "fst ch = fst ch'"
  shows "agree (execute_block D b ch) (execute_block D' b ch')"
proof -
  have res: "results D b = results D' b"
    using assms(1) by (simp add: results_alt same_crypto_def)
  have bump: "fst (bumped D ch) = fst (bumped D' ch')"
    using assms(2) by (simp add: bumped_def Let_def)
  show ?thesis
    using assms(2) res bump apply_extrinsics_agree [OF bump, of D "results D b" D']
    by (auto simp: agree_def execute_block_alt option.map_comp comp_def map_option_case
        split: option.splits)
qed

lemma run_blocks_agree:
  fixes D :: "('s, 'sk, 'vk) deps" and D' :: "('t, 'sk, 'vk) deps"
  assumes "same_crypto D D'"
  shows "fst ch = fst ch' \<Longrightarrow> map_option fst (run_blocks D bs ch) = map_option fst (run_blocks D' bs ch')"
proof (induction bs arbitrary: ch ch')
  case (Cons b bs)
  then show ?case
    using execute_block_agree [OF assms Cons.prems, of b]
    by (auto simp: agree_def split: option.splits)
qed simp

section \<open>Independence of the claims\<close>

text \<open>
  Nonces, block number and balances do not depend on the claims: two well-formed runtimes
  that agree on the system and the balances pallet still do after the same blocks.
\<close>

definition same_core :: "runtime \<Rightarrow> runtime \<Rightarrow> bool" where
  "same_core rt rt' \<longleftrightarrow>
     rt_system rt = rt_system rt' \<and> rt_balances rt = rt_balances rt' \<and> runtime_wf rt \<and> runtime_wf rt'"

lemma dispatch_core:
  fixes D :: "('s, 'sk, 'vk) deps" and D' :: "('t, 'sk, 'vk) deps"
  assumes "same_core (fst ch) (fst ch')"
  shows "rel_option (\<lambda>x y. same_core (fst (snd x)) (fst (snd y)))
           (runtime_dispatch D caller call ch) (runtime_dispatch D' caller call ch')"
proof -
  obtain r ch1 where one: "runtime_dispatch D caller call ch = Some (r, ch1)" and wf1: "runtime_wf (fst ch1)"
    using assms by (auto simp: same_core_def intro: rt.returns [of ch D caller call])
  obtain r' ch1' where two: "runtime_dispatch D' caller call ch' = Some (r', ch1')" and wf2: "runtime_wf (fst ch1')"
    using assms by (auto simp: same_core_def intro: rt.returns [of ch' D' caller call])
  have "rt_balances (fst ch1) = rt_balances (fst ch1')"
  proof (cases call rule: RuntimeCall_cases)
    case (transfer to amount)
    then show ?thesis
      using assms one two transfer_agree [of "(rt_balances (fst ch), snd ch)" "(rt_balances (fst ch'), snd ch')"
          "d_kv D" "c_account (d_codecs D)" "c_u128 (d_codecs D)" caller to amount "d_kv D'"
          "c_account (d_codecs D')" "c_u128 (d_codecs D')"]
      by (auto simp: same_core_def split: prod.splits)
  qed (use assms one two in \<open>auto simp: same_core_def split: prod.splits\<close>)
  then show ?thesis
    using assms one two wf1 wf2 runtime_dispatch_system [OF one] runtime_dispatch_system [OF two]
    by (simp add: same_core_def)
qed

lemma apply_extrinsic_core:
  fixes D :: "('s, 'sk, 'vk) deps" and D' :: "('t, 'sk, 'vk) deps"
  assumes "same_core (fst ch) (fst ch')"
  shows "rel_option (\<lambda>x y. same_core (fst x) (fst y)) (apply_extrinsic D (e, v) ch) (apply_extrinsic D' (e, v) ch')"
proof (cases "admissible (e, v) (fst ch)")
  case False
  moreover from False have "\<not> admissible (e, v) (fst ch')"
    using assms by (simp add: admissible_def same_core_def)
  ultimately show ?thesis
    using assms by (simp add: apply_extrinsic_skip)
next
  case True
  let ?a = "ext_signer e" and ?p = "rt_system (fst ch)"
  have adm': "admissible (e, v) (fst ch')"
    using True assms by (simp add: admissible_def same_core_def)
  have inc: "map_option fst (inc_nonce (d_kv D) (c_account (d_codecs D)) (c_u32 (d_codecs D)) ?a (?p, snd ch)) =
             map_option fst (inc_nonce (d_kv D') (c_account (d_codecs D')) (c_u32 (d_codecs D')) ?a (?p, snd ch'))"
    by (rule inc_nonce_agree)
  have wf: "bt_wf (sys_nonce q)"
    if "inc_nonce (d_kv D) (c_account (d_codecs D)) (c_u32 (d_codecs D)) ?a (?p, snd ch) = Some (q, s)" for q s
    using that assms by (auto simp: inc_nonce_def Let_def same_core_def runtime_wf_def split: option.splits)
  have dis: "rel_option (\<lambda>x y. same_core (fst (snd x)) (fst (snd y)))
      (runtime_dispatch D ?a (ext_call e) ((fst ch)\<lparr>rt_system := q\<rparr>, s))
      (runtime_dispatch D' ?a (ext_call e) ((fst ch')\<lparr>rt_system := q\<rparr>, s'))" if "bt_wf (sys_nonce q)" for q s s'
    using assms that by (intro dispatch_core) (simp add: same_core_def runtime_wf_def)
  show ?thesis
    using True adm' assms inc dis wf
    by (auto simp: apply_extrinsic_admissible on_system_def same_core_def option.rel_map split: option.splits)
qed

lemma apply_extrinsics_core:
  fixes D :: "('s, 'sk, 'vk) deps" and D' :: "('t, 'sk, 'vk) deps"
  shows "same_core (fst ch) (fst ch') \<Longrightarrow>
    rel_option (\<lambda>x y. same_core (fst x) (fst y)) (apply_extrinsics D xs ch) (apply_extrinsics D' xs ch')"
proof (induction xs arbitrary: ch ch')
  case (Cons x xs)
  then show ?case
    using apply_extrinsic_core [OF Cons.prems, of D "fst x" "snd x" D']
    by (auto simp: option_rel_Some1 option_rel_Some2 split: option.splits)
qed simp

lemma execute_block_core:
  fixes D :: "('s, 'sk, 'vk) deps" and D' :: "('t, 'sk, 'vk) deps"
  assumes "same_crypto D D'" and "same_core (fst ch) (fst ch')"
  shows "rel_option (\<lambda>x y. fst x = fst y \<and> same_core (fst (snd x)) (fst (snd y)))
           (execute_block D b ch) (execute_block D' b ch')"
proof -
  have res: "results D b = results D' b"
    using assms(1) by (simp add: results_alt same_crypto_def)
  have bump: "same_core (fst (bumped D ch)) (fst (bumped D' ch'))"
    using assms(2) by (auto simp: same_core_def bumped_def Let_def runtime_wf_def)
  show ?thesis
    using assms(2) res bump apply_extrinsics_core [OF bump, of D "results D b" D']
    by (auto simp: execute_block_alt option.rel_map same_core_def)
qed

lemma run_blocks_core:
  fixes D :: "('s, 'sk, 'vk) deps" and D' :: "('t, 'sk, 'vk) deps"
  assumes "same_crypto D D'"
  shows "same_core (fst ch) (fst ch') \<Longrightarrow>
    rel_option (\<lambda>x y. same_core (fst x) (fst y)) (run_blocks D bs ch) (run_blocks D' bs ch')"
proof (induction bs arbitrary: ch ch')
  case (Cons b bs)
  then show ?case
    using execute_block_core [OF assms Cons.prems, of b]
    by (auto simp: option_rel_Some1 option_rel_Some2 split: option.splits)
qed simp

section \<open>Runs of blocks, continued\<close>

lemma run_blocks_wf: "run_blocks D bs ch = Some ch' \<Longrightarrow> runtime_wf (fst ch) \<Longrightarrow> runtime_wf (fst ch')"
  by (induction bs arbitrary: ch) (auto split: option.splits dest: execute_block_wf)

lemma run_blocks_issuance:
  "run_blocks D bs ch = Some ch' \<Longrightarrow> runtime_wf (fst ch) \<Longrightarrow>
   issuance ch \<le> issuance ch' \<and>
   issuance ch' \<le> issuance ch + sum_list (map self_amount (concat (map blk_extrinsics bs)))"
proof (induction bs arbitrary: ch)
  case (Cons b bs)
  then obtain r ch1 where b: "execute_block D b ch = Some (r, ch1)" and bs: "run_blocks D bs ch1 = Some ch'"
    by (auto split: option.splits)
  show ?case
    using execute_block_issuance [OF b Cons.prems(2)] Cons.IH [OF bs execute_block_wf [OF b Cons.prems(2)]]
    by simp
qed simp

lemma applied_subseq: "subseq (applied D xs ch) (map fst xs)"
proof (induction xs arbitrary: ch)
  case (Cons x xs)
  show ?case
    using Cons [of "the (apply_extrinsic D x ch)"] by (cases "apply_extrinsic D x ch") auto
qed simp

lemma execute_block_nonce_bound:
  assumes "execute_block D b ch = Some (r, ch')"
  shows "nonce_of ch' a \<le> nonce_of ch a + length (by_signer a (blk_extrinsics b))"
proof -
  have "subseq (applied_block D b ch) (blk_extrinsics b)"
    using applied_subseq [of D "results D b" "bumped D ch"] by (simp add: applied_block_def)
  then have "subseq (by_signer a (applied_block D b ch)) (by_signer a (blk_extrinsics b))"
    unfolding by_signer_def by (rule subseq_filter)
  then have "length (by_signer a (applied_block D b ch)) \<le> length (by_signer a (blk_extrinsics b))"
    by (rule list_emb_length)
  moreover have "length (by_signer a (applied_block D b ch)) = nonce_of ch' a - nonce_of ch a"
    using execute_block_nonces [OF assms, of a] by (metis length_map length_upt)
  ultimately show ?thesis by linarith
qed

text \<open>A run returns when neither the block number nor a nonce can reach the end of its range.\<close>

lemma run_blocks_total:
  assumes "runtime_wf (fst ch)"
    and "unat (block_number (rt_system (fst ch))) + length bs < 2 ^ 32"
    and "\<And>a. nonce_of ch a + length (by_signer a (concat (map blk_extrinsics bs))) < 2 ^ 32"
  shows "\<exists>ch'. run_blocks D bs ch = Some ch'"
  using assms
proof (induction bs arbitrary: ch)
  case (Cons b bs)
  have "nonce_of ch a + length (by_signer a (blk_extrinsics b)) < 2 ^ 32" for a
    using Cons.prems(3) [of a] by simp
  then obtain r ch1 where b: "execute_block D b ch = Some (r, ch1)"
    using execute_block_total [OF Cons.prems(1), of b D] Cons.prems(2) by auto
  have "nonce_of ch1 a + length (by_signer a (concat (map blk_extrinsics bs))) < 2 ^ 32" for a
    using execute_block_nonce_bound [OF b, of a] Cons.prems(3) [of a] by simp
  then have "\<exists>ch'. run_blocks D bs ch1 = Some ch'"
    using execute_block_wf [OF b Cons.prems(1)] execute_block_number [OF b] Cons.prems(2)
    by (intro Cons.IH) auto
  with b show ?case by simp
qed simp

section \<open>Results of single calls\<close>

lemma results_verified:
  "results D (b\<lparr>blk_extrinsics := filter (\<lambda>e. verify (d_ed25519 D) (d_payload D) e = Ok_unit) (blk_extrinsics b)\<rparr>) =
   filter (\<lambda>x. snd x = Ok_unit) (results D b)"
  by (simp add: results_alt filter_map comp_def)

text \<open>The result of a call does not depend on the system pallet or the store.\<close>

lemma dispatch_result:
  assumes "rt_balances (fst ch) = rt_balances (fst ch')" and "rt_poe (fst ch) = rt_poe (fst ch')"
  shows "map_option fst (runtime_dispatch D caller call ch) = map_option fst (runtime_dispatch D caller call ch')"
proof (cases call rule: RuntimeCall_cases)
  case (transfer to amount)
  then show ?thesis
    using assms transfer_agree [of "(rt_balances (fst ch), snd ch)" "(rt_balances (fst ch'), snd ch')"]
    by (auto split: prod.splits) (metis fst_conv)+
next
  case (create claim)
  then show ?thesis
    using assms create_claim_agree [of "(rt_poe (fst ch), snd ch)" "(rt_poe (fst ch'), snd ch')"
        "d_kv D" "c_content (d_codecs D)" "c_account (d_codecs D)" caller claim "d_kv D"
        "c_content (d_codecs D)" "c_account (d_codecs D)"]
    by (auto simp: map_option_case split: option.splits prod.splits)
next
  case (revoke claim)
  then show ?thesis
    using assms revoke_claim_agree [of "(rt_poe (fst ch), snd ch)" "(rt_poe (fst ch'), snd ch')"]
    by (auto split: prod.splits) (metis fst_conv)+
qed

lemma apply_failing_call:
  assumes "runtime_wf (fst ch)" and "admissible (e, Ok_unit) (fst ch)" and "nonce_of ch (ext_signer e) < 2 ^ 32 - 1"
    and "map_option fst (runtime_dispatch D (ext_signer e) (ext_call e) ch) = Some (Inl err)"
  obtains ch' where "apply_extrinsic D (e, Ok_unit) ch = Some ch'"
    and "rt_balances (fst ch') = rt_balances (fst ch)" and "rt_poe (fst ch') = rt_poe (fst ch)"
proof -
  obtain ch' where one: "apply_extrinsic D (e, Ok_unit) ch = Some ch'"
    using apply_extrinsic_total [OF assms(1), of e Ok_unit D] assms(3) by blast
  from apply_extrinsic_runE [OF one assms(2)] obtain ch1 r where
    dis: "runtime_dispatch D (ext_signer e) (ext_call e) ch1 = Some (r, ch')"
    and eq: "rt_balances (fst ch1) = rt_balances (fst ch)" "rt_poe (fst ch1) = rt_poe (fst ch)"
    and wf: "runtime_wf (fst ch1)"
    using assms(1) by blast
  have "r = Inl err"
    using dispatch_result [of ch1 ch, OF eq] dis assms(4) by (metis fst_conv option.inject option.map(2))
  then have "ch' = ch1"
    using rt.err_unchanged [OF wf] dis by blast
  with one eq that show thesis by blast
qed

section \<open>Runs: one more block, and relations that lift\<close>

lemma run_blocks_snoc:
  "run_blocks D bs ch = Some ch1 \<Longrightarrow> execute_block D b ch1 = Some (r, ch2) \<Longrightarrow> run_blocks D (bs @ [b]) ch = Some ch2"
  by (induction bs arbitrary: ch) (auto split: option.splits)

lemma run_blocks_lift:
  assumes "run_blocks D bs ch = Some ch'" and "runtime_wf (fst ch)"
    and "spared D P (concat (map blk_extrinsics bs))"
    and refl: "\<And>rt. R rt rt" and trans: "\<And>x y z. R x y \<Longrightarrow> R y z \<Longrightarrow> R x z"
    and bump: "\<And>ch. R (fst ch) (fst (bumped D ch))"
    and step: "\<And>e rt ch1 ch2 r. \<not> P e \<Longrightarrow> runtime_wf (fst ch1) \<Longrightarrow>
      rt_balances (fst ch1) = rt_balances rt \<Longrightarrow> rt_poe (fst ch1) = rt_poe rt \<Longrightarrow>
      runtime_dispatch D (ext_signer e) (ext_call e) ch1 = Some (r, ch2) \<Longrightarrow> R rt (fst ch2)"
  shows "R (fst ch) (fst ch')"
  using assms(1-3)
proof (induction bs arbitrary: ch)
  case (Cons b bs)
  then obtain r ch1 where ex: "execute_block D b ch = Some (r, ch1)" and run: "run_blocks D bs ch1 = Some ch'"
    by (auto split: option.splits)
  have "spared D P (blk_extrinsics b)" and "spared D P (concat (map blk_extrinsics bs))"
    using Cons.prems(3) by (auto simp: spared_def)
  then have "R (fst ch) (fst ch1)" and "R (fst ch1) (fst ch')"
    using execute_block_lift [OF ex Cons.prems(2), where R = R and P = P] refl trans bump step
      Cons.IH [OF run execute_block_wf [OF ex Cons.prems(2)]] by blast+
  then show ?case by (rule trans)
qed (simp add: refl)

lemma dispatch_claim_origin:
  assumes "runtime_dispatch D caller call ch = Some (r, ch')" and "poe_wf (rt_poe (fst ch))"
    and "get_claim (rt_poe (fst ch')) c = Some a"
    and "\<not> (caller = a \<and> call = RC_proof_of_existence (Call_create_claim c))"
  shows "get_claim (rt_poe (fst ch)) c = Some a"
proof (cases call rule: RuntimeCall_cases)
  case (create claim)
  have "poe_wf (fst (rt_poe (fst ch), snd ch))"
    using assms(2) by simp
  then show ?thesis
    using assms(1,3,4) create
    by (cases rule: create_claim_cases [of "(rt_poe (fst ch), snd ch)" claim "d_kv D"
          "c_content (d_codecs D)" "c_account (d_codecs D)" caller]) (auto split: if_splits)
next
  case (revoke claim)
  show ?thesis
    using assms revoke
    by (cases rule: revoke_claim_cases [of "(rt_poe (fst ch), snd ch)" claim "d_kv D"
          "c_content (d_codecs D)" caller]) (auto split: if_splits)
qed (use assms in \<open>auto split: prod.splits\<close>)

end
