(* ===== verification/Chain.thy ===== *)
theory Chain
  imports Block_Execution
begin

text \<open>
  The runtime together with its store, over the whole life of a node: boot on an empty
  database, genesis, blocks, direct balance writes and restarts (\<open>chain_reach\<close>). The
  invariant \<open>chain_synced\<close> says that the store holds the nonces, the block number and the
  balances of the runtime and no claim the runtime does not hold; from it follow the restart
  theorems.
\<close>

definition chain_synced :: "('st, 'sk, 'vk) deps \<Rightarrow> ('st \<Rightarrow> bool) \<Rightarrow> 'st chain \<Rightarrow> bool" where
  "chain_synced D I ch \<longleftrightarrow>
     I (snd ch) \<and>
     system_synced (d_kv D) (c_account (d_codecs D)) (c_u32 (d_codecs D)) (rt_system (fst ch), snd ch) \<and>
     balances_synced (d_kv D) (c_account (d_codecs D)) (c_u128 (d_codecs D)) (rt_balances (fst ch), snd ch) \<and>
     poe_backed (d_kv D) (c_content (d_codecs D)) (c_account (d_codecs D)) (rt_poe (fst ch), snd ch)"

text \<open>The store has no entry under the three prefixes that is not an encoding.\<close>

definition clean_store :: "('st, 'sk, 'vk) deps \<Rightarrow> 'st \<Rightarrow> bool" where
  "clean_store D s \<longleftrightarrow>
     sm_clean (d_kv D) (nonce_map (c_account (d_codecs D)) (c_u32 (d_codecs D))) s \<and>
     sm_clean (d_kv D) (balance_map (c_account (d_codecs D)) (c_u128 (d_codecs D))) s \<and>
     sm_clean (d_kv D) (claim_map (c_content (d_codecs D)) (c_account (d_codecs D))) s"

declare chain_synced_def [synced_defs]

lemma clean_store_empty: "(\<And>k. kv_get (d_kv D) s k = None) \<Longrightarrow> clean_store D s"
  by (simp add: clean_store_def sm_clean_def)

lemma chain_synced_clean: "chain_synced D I ch \<Longrightarrow> clean_store D (snd ch)"
  by (simp add: synced_defs clean_store_def)

lemma chain_synced_wf: "chain_synced D I ch \<Longrightarrow> runtime_wf (fst ch)"
  by (simp add: synced_defs runtime_wf_def)

locale runtime_host = host "d_kv D" inv "d_codecs D" for D :: "('st, 'sk, 'vk) deps" and inv
begin

text \<open>A freshly loaded runtime is synced with the store it was loaded from.\<close>

lemma synced_new:
  assumes "inv s" and "clean_store D s"
  shows "chain_synced D inv (runtime_new D s, s)"
proof -
  let ?X = "d_codecs D"
  have "sm_mirrors (d_kv D) (nonce_map (c_account ?X) (c_u32 ?X)) s
      (sys_nonce (system_new (d_kv D) (c_account ?X) (c_u32 ?X) s))"
    and "sm_mirrors (d_kv D) (balance_map (c_account ?X) (c_u128 ?X)) s
      (bal_balances (balances_new (d_kv D) (c_account ?X) (c_u128 ?X) s))"
    and "sm_mirrors (d_kv D) (claim_map (c_content ?X) (c_account ?X)) s
      (poe_claims (poe_new (d_kv D) (c_content ?X) (c_account ?X) s))"
    using assms
    unfolding sm_mirrors_def sys_nonce_system_new balances_new_load poe_new_load clean_store_def
    by (simp_all add: bt_get_sm_load)
  moreover have "bt_wf (sys_nonce (system_new (d_kv D) (c_account ?X) (c_u32 ?X) s))"
    and "balances_wf (balances_new (d_kv D) (c_account ?X) (c_u128 ?X) s)"
    by (simp_all add: system_new_def balances_new_def balances_wf_def Let_def)
  ultimately show ?thesis
    using assms(1)
    by (simp add: chain_synced_def runtime_new_def Let_def system_synced_def balances_synced_def
        poe_backed_def sm_mirrors_below)
qed

lemma synced_restart: "chain_synced D inv (rt, s) \<Longrightarrow> chain_synced D inv (runtime_new D s, s)"
  using chain_synced_clean [of D inv "(rt, s)"] by (intro synced_new) (simp_all add: chain_synced_def)

text \<open>What a restart finds: the same system and balances, and no claim that was not there.\<close>

lemma restart_exact:
  assumes "chain_synced D inv (rt, s)"
  shows "rt_system (runtime_new D s) = rt_system rt" and "rt_balances (runtime_new D s) = rt_balances rt"
    and "get_claim (rt_poe (runtime_new D s)) \<subseteq>\<^sub>m get_claim (rt_poe rt)"
  using assms
  by (simp_all add: chain_synced_def runtime_new_def Let_def system_restart balances_restart poe_restart_below)

text \<open>Every operation of the runtime keeps the store synced.\<close>

lemma synced_set_balance:
  assumes "chain_synced D inv ch"
  shows "chain_synced D inv
    (on_balances (set_balance (d_kv D) (c_account (d_codecs D)) (c_u128 (d_codecs D)) who amount) ch)"
proof -
  let ?X = "d_codecs D"
  let ?ps = "(rt_balances (fst ch), snd ch)"
  let ?ps' = "set_balance (d_kv D) (c_account ?X) (c_u128 ?X) who amount ?ps"
  have inv: "inv (snd ?ps)" using assms by (simp add: chain_synced_def)
  have sys: "system_synced (d_kv D) (c_account ?X) (c_u32 ?X) (rt_system (fst ch), snd ?ps')"
    using assms inv by (intro system_synced_set_balance) (simp_all add: chain_synced_def)
  have bal: "balances_synced (d_kv D) (c_account ?X) (c_u128 ?X) ?ps'"
    using assms inv by (intro balances_synced_set_balance) (simp_all add: chain_synced_def)
  have poe: "poe_backed (d_kv D) (c_content ?X) (c_account ?X) (rt_poe (fst ch), snd ?ps')"
    using assms set_balance_frame [OF inv, of "claim_map (c_content ?X) (c_account ?X)"]
    by (simp add: chain_synced_def poe_backed_def sm_below_def)
  show ?thesis
    using inv_set_balance [OF inv] sys bal poe
    by (simp add: chain_synced_def on_balances_alt)
qed

text \<open>Writes and deletions of claims leave the other key spaces alone.\<close>

lemma synced_claim_write:
  assumes "chain_synced D inv ch" and "poe_backed (d_kv D) (c_content (d_codecs D)) (c_account (d_codecs D)) (p, s)"
    and "s = snd (kv_put (d_kv D) (snd ch) (claim_key (c_content (d_codecs D)) c) v) \<or>
         s = snd (kv_delete (d_kv D) (snd ch) (claim_key (c_content (d_codecs D)) c))"
  shows "chain_synced D inv ((fst ch)\<lparr>rt_poe := p\<rparr>, s)"
proof -
  let ?X = "d_codecs D"
  have inv: "inv (snd ch)" using assms by (simp add: chain_synced_def)
  have "system_synced (d_kv D) (c_account ?X) (c_u32 ?X) (rt_system (fst ch), s)"
    using assms system_synced_foreign [OF inv, of "c_account ?X" "c_u32 ?X" "rt_system (fst ch)" PREFIX_POE]
    by (auto simp: chain_synced_def claim_key_def)
  moreover have "\<not> prefix PREFIX_BALANCE (claim_key (c_content ?X) c)"
    by (simp add: claim_key_def apart_append)
  then have "balances_synced (d_kv D) (c_account ?X) (c_u128 ?X) (rt_balances (fst ch), s)"
    using assms inv by (auto simp: chain_synced_def balances_synced_def sm_mirrors_def sm_outside)
  moreover have "inv s"
    using assms(3) inv inv_put inv_delete by auto
  ultimately show ?thesis
    using assms(2) by (simp add: chain_synced_def)
qed

lemma synced_create:
  assumes "chain_synced D inv ch"
    and "create_claim (d_kv D) (c_content (d_codecs D)) (c_account (d_codecs D)) caller claim
           (rt_poe (fst ch), snd ch) = Some (r, (p, s))"
  shows "chain_synced D inv ((fst ch)\<lparr>rt_poe := p\<rparr>, s)"
proof -
  have "poe_wf (fst (rt_poe (fst ch), snd ch))" and inv: "inv (snd ch)"
    using assms(1) by (simp_all add: chain_synced_def poe_backed_def)
  moreover have "poe_backed (d_kv D) (c_content (d_codecs D)) (c_account (d_codecs D)) (p, s)"
    by (rule poe_backed_create [OF inv _ _ _ assms(2)]) (use assms(1) in \<open>simp_all add: chain_synced_def\<close>)
  ultimately show ?thesis
  proof (cases rule: create_claim_cases [of "(rt_poe (fst ch), snd ch)" claim "d_kv D"
        "c_content (d_codecs D)" "c_account (d_codecs D)" caller])
    case (fresh l owner)
    then have "s = snd (kv_put (d_kv D) (snd ch) (claim_key (c_content (d_codecs D)) l)
        (encode (c_account (d_codecs D)) owner))"
      using assms(2) by simp
    then show ?thesis
      by (intro synced_claim_write [OF assms(1) \<open>poe_backed _ _ _ (p, s)\<close>] disjI1)
  qed (use assms in simp)
qed

lemma synced_revoke:
  assumes "chain_synced D inv ch"
    and "revoke_claim (d_kv D) (c_content (d_codecs D)) caller claim (rt_poe (fst ch), snd ch) = (r, (p, s))"
  shows "chain_synced D inv ((fst ch)\<lparr>rt_poe := p\<rparr>, s)"
proof -
  have inv: "inv (snd ch)" using assms(1) by (simp add: chain_synced_def)
  have "poe_backed (d_kv D) (c_content (d_codecs D)) (c_account (d_codecs D)) (p, s)"
    by (rule poe_backed_revoke [OF inv _ _ _ assms(2)]) (use assms(1) in \<open>simp_all add: chain_synced_def\<close>)
  note claim_wr = synced_claim_write [OF assms(1) this]
  show ?thesis
  proof (cases rule: revoke_claim_cases [of "(rt_poe (fst ch), snd ch)" claim "d_kv D"
        "c_content (d_codecs D)" caller])
    case ok
    then have "s = snd (kv_delete (d_kv D) (snd ch) (claim_key (c_content (d_codecs D)) claim))"
      using assms(2) by simp
    then show ?thesis by (intro claim_wr disjI2)
  qed (use assms in simp_all)
qed

lemma synced_transfer:
  assumes "chain_synced D inv ch"
    and "transfer (d_kv D) (c_account (d_codecs D)) (c_u128 (d_codecs D)) caller to amount
           (rt_balances (fst ch), snd ch) = (r, (p, s))"
  shows "chain_synced D inv ((fst ch)\<lparr>rt_balances := p\<rparr>, s)"
proof (cases rule: transfer_cases [of "d_kv D" "c_account (d_codecs D)" "c_u128 (d_codecs D)"
      caller to amount "(rt_balances (fst ch), snd ch)"])
  case ok
  let ?set = "\<lambda>a v. on_balances (set_balance (d_kv D) (c_account (d_codecs D)) (c_u128 (d_codecs D)) a v)"
  have "((fst ch)\<lparr>rt_balances := p\<rparr>, s) =
      ?set to (balance (rt_balances (fst ch)) to + amount)
        (?set caller (balance (rt_balances (fst ch)) caller - amount) ch)"
    using ok assms(2) by (simp add: on_balances_alt prod_eq_iff)
  then show ?thesis
    using assms(1) by (simp add: synced_set_balance)
qed (use assms in auto)

lemma synced_dispatch:
  assumes "chain_synced D inv ch" and "runtime_dispatch D caller call ch = Some (r, ch')"
  shows "chain_synced D inv ch'"
  using assms
  by (cases call rule: RuntimeCall_cases)
    (auto split: prod.splits intro: synced_transfer synced_create synced_revoke)

lemma synced_inc_nonce:
  assumes "chain_synced D inv ch"
    and "on_system (inc_nonce (d_kv D) (c_account (d_codecs D)) (c_u32 (d_codecs D)) who) ch = Some ch'"
  shows "chain_synced D inv ch'"
proof -
  let ?X = "d_codecs D"
  obtain p s where inc: "inc_nonce (d_kv D) (c_account ?X) (c_u32 ?X) who (rt_system (fst ch), snd ch) = Some (p, s)"
    and ch': "ch' = ((fst ch)\<lparr>rt_system := p\<rparr>, s)"
    using on_system_SomeD [OF assms(2)] by blast
  have inv: "inv (snd ch)" using assms(1) by (simp add: chain_synced_def)
  note frame = inc_nonce_frame [OF inv _ inc]
  show ?thesis
    using assms(1) inv_inc_nonce [OF inv inc] system_synced_inc_nonce [OF inv _ _ _ inc]
      frame [of "balance_map (c_account ?X) (c_u128 ?X)"] frame [of "claim_map (c_content ?X) (c_account ?X)"]
    by (simp add: ch' synced_defs del: system_synced_def)
qed

lemma synced_inc_block_number:
  assumes "chain_synced D inv ch"
    and "on_system (inc_block_number (d_kv D) (c_u32 (d_codecs D))) ch = Some ch'"
  shows "chain_synced D inv ch'"
proof -
  let ?X = "d_codecs D"
  obtain p s where inc: "inc_block_number (d_kv D) (c_u32 ?X) (rt_system (fst ch), snd ch) = Some (p, s)"
    and ch': "ch' = ((fst ch)\<lparr>rt_system := p\<rparr>, s)"
    using on_system_SomeD [OF assms(2)] by blast
  have inv: "inv (snd ch)" using assms(1) by (simp add: chain_synced_def)
  note frame = inc_block_number_frame [OF inv _ inc]
  show ?thesis
    using assms(1) inv_inc_block_number [OF inv inc] system_synced_inc_block_number [OF inv _ _ inc]
      frame [of "balance_map (c_account ?X) (c_u128 ?X)"] frame [of "claim_map (c_content ?X) (c_account ?X)"]
    by (simp add: ch' synced_defs del: system_synced_def)
qed

lemma synced_apply_extrinsic:
  assumes "chain_synced D inv ch" and "apply_extrinsic D (e, v) ch = Some ch'"
  shows "chain_synced D inv ch'"
  using assms
  by (cases "admissible (e, v) (fst ch)")
    (auto simp: apply_extrinsic_skip apply_extrinsic_admissible split: option.splits
      intro: synced_dispatch synced_inc_nonce)

lemma synced_apply_extrinsics:
  "chain_synced D inv ch \<Longrightarrow> apply_extrinsics D xs ch = Some ch' \<Longrightarrow> chain_synced D inv ch'"
proof (induction xs arbitrary: ch)
  case (Cons x xs)
  then show ?case
    by (cases x) (auto split: option.splits intro: synced_apply_extrinsic)
qed simp

lemma synced_execute_block:
  assumes "chain_synced D inv ch" and "execute_block D b ch = Some (r, ch')"
  shows "chain_synced D inv ch'"
  using assms
  by (auto simp: execute_block_def split: option.splits if_splits
      dest: synced_inc_block_number synced_apply_extrinsics)

end

text \<open>The promise of the runtime's dispatch with the store in view.\<close>

sublocale runtime_host \<subseteq> synced: dispatcher "runtime_dispatch D" "chain_synced D inv"
proof
  fix ch ch' caller call
  assume synced: "chain_synced D inv ch"
  then have wf: "runtime_wf (fst ch)" by (rule chain_synced_wf)
  show "runtime_dispatch D caller call ch \<noteq> None"
    using wf by (rule rt.no_panic)
  show "ch' = ch" if "runtime_dispatch D caller call ch = Some (Inl e, ch')" for e
    using wf that by (rule rt.err_unchanged)
  show "chain_synced D inv ch'" if "runtime_dispatch D caller call ch = Some (r, ch')" for r
    using synced that by (rule synced_dispatch)
qed

section \<open>Genesis\<close>

lemma fund_simps [simp]:
  "rt_system (fst (fund D a ch)) = rt_system (fst ch)" "rt_poe (fst (fund D a ch)) = rt_poe (fst ch)"
  "balance (rt_balances (fst (fund D a ch))) b =
   (if b = public (d_ed25519 D) a then 1000000 else balance (rt_balances (fst ch)) b)"
  by (simp_all add: fund_def on_balances_def balance_def set_balance_def Let_def)

lemma genesis_fresh:
  assumes "block_number (rt_system (fst ch)) = 0"
  shows "maybe_apply_genesis D ch = Some (bumped D (fund D Charlie (fund D Bob (fund D Alice ch))))"
  using assms by (simp add: maybe_apply_genesis_def Let_def execute_block_alt results_alt)

context runtime_host
begin

lemma synced_genesis:
  assumes "chain_synced D inv ch" and "maybe_apply_genesis D ch = Some ch'"
  shows "chain_synced D inv ch'"
proof (cases "block_number (rt_system (fst ch)) = 0")
  case True
  let ?ch1 = "fund D Charlie (fund D Bob (fund D Alice ch))"
  have "chain_synced D inv ?ch1"
    unfolding fund_def using assms(1) by (intro synced_set_balance)
  moreover have "on_system (inc_block_number (d_kv D) (c_u32 (d_codecs D))) ?ch1 = Some (bumped D ?ch1)"
    using True by (simp add: on_system_def inc_block_number_def bumped_def checked_add_def block_number_def Let_def)
  ultimately show ?thesis
    using assms(2) genesis_fresh [OF True, of D] synced_inc_block_number by fastforce
next
  case False
  then show ?thesis
    using assms by (simp add: maybe_apply_genesis_def)
qed

end

section \<open>The life of a node\<close>

inductive chain_reach :: "('st, 'sk, 'vk) deps \<Rightarrow> ('st \<Rightarrow> bool) \<Rightarrow> 'st chain \<Rightarrow> bool"
  for D :: "('st, 'sk, 'vk) deps" and I :: "'st \<Rightarrow> bool" where
  boot: "I s \<Longrightarrow> (\<And>k. kv_get (d_kv D) s k = None) \<Longrightarrow> chain_reach D I (runtime_new D s, s)"
| genesis: "chain_reach D I ch \<Longrightarrow> maybe_apply_genesis D ch = Some ch' \<Longrightarrow> chain_reach D I ch'"
| block: "chain_reach D I ch \<Longrightarrow> execute_block D b ch = Some (r, ch') \<Longrightarrow> chain_reach D I ch'"
| direct: "chain_reach D I ch \<Longrightarrow>
    chain_reach D I
      (on_balances (set_balance (d_kv D) (c_account (d_codecs D)) (c_u128 (d_codecs D)) who amount) ch)"
| restart: "chain_reach D I (rt, s) \<Longrightarrow> chain_reach D I (runtime_new D s, s)"

context runtime_host
begin

lemma reach_synced: "chain_reach D inv ch \<Longrightarrow> chain_synced D inv ch"
proof (induction rule: chain_reach.induct)
  case (boot s)
  then show ?case by (intro synced_new clean_store_empty)
next
  case (genesis ch ch')
  then show ?case by (blast intro: synced_genesis)
next
  case (block ch b r ch')
  then show ?case by (blast intro: synced_execute_block)
next
  case (direct ch who amount)
  then show ?case by (blast intro: synced_set_balance)
next
  case (restart rt s)
  then show ?case by (blast intro: synced_restart)
qed

end

end
