(* ===== verification/Reference_Deps.thy ===== *)
theory Reference_Deps
  imports Chain
begin

text \<open>
  A concrete instance of the dependencies of the runtime, for the witnesses: the in-memory
  store, the codecs of \<open>Scale_Reference\<close> and a signature scheme in which the signature
  repeats the key and the message. It shows that the hypotheses of the theorems can hold
  together; it models no code of the repository.
\<close>

section \<open>Codecs of the wire types\<close>

definition account_enc :: "AccountId32 \<Rightarrow> bytes" where
  "account_enc a = arr32_list (as_bytes a)"

definition account_par :: "AccountId32 parser" where
  "account_par bs =
     (if length bs < 32 then None else Some (AccountId32 (arr32_of (take 32 bs)), drop 32 bs))"

lemma parses_account: "parses account_par account_enc"
  by (simp add: parses_def account_par_def account_enc_def)

definition account_codec :: "AccountId32 codec" where
  "account_codec = codec_of account_par account_enc"

lemma account_codec_ok [simp]: "key_codec_ok account_codec"
proof -
  have "account_enc a \<noteq> []" for a
  proof -
    have "length (account_enc a) = 32" by (simp add: account_enc_def)
    then show ?thesis by auto
  qed
  then show ?thesis
    by (simp add: account_codec_def key_codec_ok_codec_of parses_account)
qed

text \<open>An enum is its index and its fields; a struct and a tuple are their fields in order.\<close>

fun call_enc :: "RuntimeCall \<Rightarrow> bytes" where
  "call_enc (RC_balances (Call_transfer to amount)) = [0, 0] @ account_enc to @ word_enc 16 amount"
| "call_enc (RC_proof_of_existence (Call_create_claim c)) = [1, 0] @ vec_enc char_enc c"
| "call_enc (RC_proof_of_existence (Call_revoke_claim c)) = [1, 1] @ vec_enc char_enc c"

definition call_par :: "RuntimeCall parser" where
  "call_par bs =
     (if take 2 bs = [0, 0] then
        (case account_par (drop 2 bs) of
           None \<Rightarrow> None
         | Some (to, r) \<Rightarrow>
            map_option (\<lambda>(amount, r'). (RC_balances (Call_transfer to amount), r')) (word_par 16 r))
      else if take 2 bs = [1, 0] then
        map_option (\<lambda>(c, r). (RC_proof_of_existence (Call_create_claim c), r)) (vec_par char_par (drop 2 bs))
      else if take 2 bs = [1, 1] then
        map_option (\<lambda>(c, r). (RC_proof_of_existence (Call_revoke_claim c), r)) (vec_par char_par (drop 2 bs))
      else None)"

lemma parses_string: "parses (vec_par char_par) (vec_enc char_enc)"
  by (simp add: parses_vec parses_char)

lemma parses_call: "parses call_par call_enc"
proof -
  have u128: "parses (word_par 16 :: u128 parser) (word_enc 16)"
    by (rule parses_word) simp
  have "call_par (call_enc c @ r) = Some (c, r)" for c r
    by (cases c rule: call_enc.cases)
      (simp_all add: call_par_def parses_account parses_string u128)
  then show ?thesis by (simp add: parses_def)
qed

definition ext_enc :: "ext \<Rightarrow> bytes" where
  "ext_enc e = account_enc (ext_signer e) @ arr64_list (ext_signature e) @ word_enc 4 (ext_nonce e) @
               call_enc (ext_call e)"

definition ext_par :: "ext parser" where
  "ext_par bs =
     (case account_par bs of
        None \<Rightarrow> None
      | Some (a, r1) \<Rightarrow>
         if length r1 < 64 then None
         else (case word_par 4 (drop 64 r1) of
                 None \<Rightarrow> None
               | Some (n, r2) \<Rightarrow>
                  map_option (\<lambda>(c, r3). (\<lparr>ext_signer = a, ext_signature = arr64_of (take 64 r1),
                                          ext_nonce = n, ext_call = c\<rparr>, r3)) (call_par r2)))"

lemma parses_ext: "parses ext_par ext_enc"
proof -
  have u32: "parses (word_par 4 :: u32 parser) (word_enc 4)"
    by (rule parses_word) simp
  have "ext_par (ext_enc e @ r) = Some (e, r)" for e r
    by (simp add: ext_par_def ext_enc_def parses_account u32 parses_call)
  then show ?thesis by (simp add: parses_def)
qed

definition block_enc :: "runtime_block \<Rightarrow> bytes" where
  "block_enc b = word_enc 4 (hd_block_number (blk_header b)) @ vec_enc ext_enc (blk_extrinsics b)"

definition block_par :: "runtime_block parser" where
  "block_par bs =
     (case word_par 4 bs of
        None \<Rightarrow> None
      | Some (n, r) \<Rightarrow>
         map_option (\<lambda>(xs, r'). (\<lparr>blk_header = \<lparr>hd_block_number = n\<rparr>, blk_extrinsics = xs\<rparr>, r'))
           (vec_par ext_par r))"

lemma parses_block: "parses block_par block_enc"
proof -
  have u32: "parses (word_par 4 :: u32 parser) (word_enc 4)"
    by (rule parses_word) simp
  have "block_par (block_enc b @ r) = Some (b, r)" for b r
    by (simp add: block_par_def block_enc_def u32 parses_vec parses_ext)
  then show ?thesis by (simp add: parses_def)
qed

definition ext_codec :: "ext codec" where
  "ext_codec = codec_of ext_par ext_enc"

definition block_codec :: "runtime_block codec" where
  "block_codec = codec_of block_par block_enc"

lemma wire_codecs_ok [simp]: "codec_ok ext_codec" "codec_ok block_codec"
  by (simp_all add: ext_codec_def block_codec_def codec_ok_codec_of parses_ext parses_block)

section \<open>Signatures and the bundle\<close>

definition ref_ed25519 :: "(arr32, arr32) ed25519" where
  "ref_ed25519 = \<lparr>sk_from_bytes = (\<lambda>s. s), vk_bytes = (\<lambda>sk. sk),
     sk_sign = (\<lambda>sk m. arr64_of (arr32_list sk @ m)),
     vk_from_bytes = Some, vk_verify = (\<lambda>vk m s. s = arr64_of (arr32_list vk @ m))\<rparr>"

lemma ref_ed25519_ok [simp]: "ed25519_ok ref_ed25519"
  by (simp add: ed25519_ok_def ref_ed25519_def)

definition ref_payload :: "RuntimeCall payload_enc" where
  "ref_payload = (\<lambda>(a, n, c). arr32_list a @ word_enc 4 n @ call_enc c)"

definition ref_codecs :: "(AccountId32, string) codecs" where
  "ref_codecs = \<lparr>c_account = account_codec, c_u32 = u32_codec, c_u128 = u128_codec,
                 c_content = string_codec\<rparr>"

definition ref_deps :: "(mem, arr32, arr32) deps" where
  "ref_deps = \<lparr>d_kv = mem_store, d_codecs = ref_codecs, d_ed25519 = ref_ed25519,
               d_payload = ref_payload\<rparr>"

lemma ref_deps_simps [simp]:
  "d_kv ref_deps = mem_store" "d_codecs ref_deps = ref_codecs" "d_ed25519 ref_deps = ref_ed25519"
  "d_payload ref_deps = ref_payload" "codecs_ok ref_codecs"
  by (simp_all add: ref_deps_def ref_codecs_def codecs_ok_def)

interpretation ref: runtime_host ref_deps bt_wf
  by unfold_locales (auto simp: mem.put_ok mem.delete_ok mem.get_put mem.get_delete mem.scan_distinct
      mem.scan_set mem.inv_put mem.inv_delete)

lemma ref_runtime_host: "runtime_host ref_deps bt_wf"
  by (fact ref.runtime_host_axioms)

lemma public_ref: "public ref_ed25519 a = AccountId32 (seed a)"
  by (simp add: public_def signing_key_def ref_ed25519_def)

lemma public_ref_inject [simp]: "public ref_ed25519 a = public ref_ed25519 b \<longleftrightarrow> a = b"
  by (simp add: public_ref seed_inject)

end
