(* ===== verification/Mempool.thy ===== *)
theory Mempool
  imports Prelude
begin

text \<open>
  The mempool of \<open>src/support.rs\<close>: a queue of pending extrinsics with an optional capacity
  and an optional block limit. Sizes (\<open>usize\<close>) are natural numbers: no operation adds to
  them. The locale \<open>fifo_pool\<close> is the contract the node relies on; the mempool interprets
  it.
\<close>

record 'e mempool =
  mp_pending :: "'e list"
  mp_max_capacity :: "nat option"
  mp_block_limit :: "nat option"

datatype mempool_full = MempoolFull

definition mempool_new :: "'e mempool" where
  "mempool_new = \<lparr>mp_pending = [], mp_max_capacity = None, mp_block_limit = None\<rparr>"

definition with_capacity :: "nat \<Rightarrow> 'e mempool" where
  "with_capacity max_len = \<lparr>mp_pending = [], mp_max_capacity = Some max_len, mp_block_limit = None\<rparr>"

definition with_block_limit :: "nat \<Rightarrow> 'e mempool" where
  "with_block_limit limit = \<lparr>mp_pending = [], mp_max_capacity = None, mp_block_limit = Some limit\<rparr>"

definition is_block_ready :: "'e mempool \<Rightarrow> bool" where
  "is_block_ready mp =
     (case mp_block_limit mp of None \<Rightarrow> False | Some limit \<Rightarrow> length (mp_pending mp) \<ge> limit)"

definition block_limit :: "'e mempool \<Rightarrow> nat option" where
  "block_limit mp = mp_block_limit mp"

definition pending_extrinsics :: "'e mempool \<Rightarrow> 'e list" where
  "pending_extrinsics mp = mp_pending mp"

definition submit :: "'e \<Rightarrow> 'e mempool \<Rightarrow> (mempool_full + unit) \<times> 'e mempool" where
  "submit ext mp =
     (if (case mp_max_capacity mp of None \<Rightarrow> False | Some cap \<Rightarrow> length (mp_pending mp) \<ge> cap)
      then (Inl MempoolFull, mp)
      else (Ok_unit, mp\<lparr>mp_pending := mp_pending mp @ [ext]\<rparr>))"

text \<open>The loop of \<open>drain_for_block\<close>: \<open>n\<close> rounds of \<open>pop_front\<close>, left early when empty.\<close>

fun drain_loop :: "nat \<Rightarrow> 'e list \<Rightarrow> 'e list \<Rightarrow> 'e list \<times> 'e list" where
  "drain_loop 0 exts pending = (exts, pending)"
| "drain_loop (Suc n) exts pending =
     (case pending of [] \<Rightarrow> (exts, []) | ext # rest \<Rightarrow> drain_loop n (exts @ [ext]) rest)"

definition drain_for_block :: "nat \<Rightarrow> 'e mempool \<Rightarrow> 'e list \<times> 'e mempool" where
  "drain_for_block n mp =
     (case drain_loop n [] (mp_pending mp) of (exts, rest) \<Rightarrow> (exts, mp\<lparr>mp_pending := rest\<rparr>))"

definition remove_at :: "nat \<Rightarrow> 'e mempool \<Rightarrow> 'e option \<times> 'e mempool" where
  "remove_at index mp =
     (if index < length (mp_pending mp)
      then (Some (mp_pending mp ! index),
            mp\<lparr>mp_pending := take index (mp_pending mp) @ drop (Suc index) (mp_pending mp)\<rparr>)
      else (None, mp))"

definition pool_len :: "'e mempool \<Rightarrow> nat" where
  "pool_len mp = length (mp_pending mp)"

definition pool_is_empty :: "'e mempool \<Rightarrow> bool" where
  "pool_is_empty mp \<longleftrightarrow> mp_pending mp = []"

definition retain :: "('e \<Rightarrow> bool) \<Rightarrow> 'e mempool \<Rightarrow> 'e mempool" where
  "retain f mp = mp\<lparr>mp_pending := filter f (mp_pending mp)\<rparr>"

definition clone_mempool :: "'e mempool \<Rightarrow> 'e mempool" where
  "clone_mempool mp = \<lparr>mp_pending = mp_pending mp, mp_max_capacity = mp_max_capacity mp,
                       mp_block_limit = mp_block_limit mp\<rparr>"

lemma drain_loop_eq: "drain_loop n exts pending = (exts @ take n pending, drop n pending)"
  by (induction n exts pending rule: drain_loop.induct) (auto split: list.splits)

lemma drain_for_block_eq:
  "drain_for_block n mp = (take n (mp_pending mp), mp\<lparr>mp_pending := drop n (mp_pending mp)\<rparr>)"
  by (simp add: drain_for_block_def drain_loop_eq)

section \<open>The capacity invariant\<close>

definition within_capacity :: "'e mempool \<Rightarrow> bool" where
  "within_capacity mp \<longleftrightarrow>
     (case mp_max_capacity mp of None \<Rightarrow> True | Some cap \<Rightarrow> length (mp_pending mp) \<le> cap)"

lemma within_capacity_new [simp]:
  "within_capacity mempool_new" "within_capacity (with_capacity n)" "within_capacity (with_block_limit n)"
  by (simp_all add: within_capacity_def mempool_new_def with_capacity_def with_block_limit_def)

lemma within_capacity_submit: "within_capacity mp \<Longrightarrow> within_capacity (snd (submit e mp))"
  by (auto simp: within_capacity_def submit_def split: option.splits)

lemma within_capacity_shrink:
  "within_capacity mp \<Longrightarrow> length xs \<le> length (mp_pending mp) \<Longrightarrow> within_capacity (mp\<lparr>mp_pending := xs\<rparr>)"
  by (auto simp: within_capacity_def split: option.splits)

lemma within_capacity_ops:
  assumes "within_capacity mp"
  shows "within_capacity (snd (drain_for_block n mp))" and "within_capacity (snd (remove_at i mp))"
    and "within_capacity (retain f mp)"
  using assms
  by (auto simp: drain_for_block_eq remove_at_def retain_def intro!: within_capacity_shrink)

section \<open>The pool as a queue\<close>

text \<open>Submitting a list of extrinsics one after the other; the results are dropped.\<close>

fun submit_all :: "('e \<Rightarrow> 'p \<Rightarrow> 'r \<times> 'p) \<Rightarrow> 'e list \<Rightarrow> 'p \<Rightarrow> 'p" where
  "submit_all sub [] p = p"
| "submit_all sub (e # es) p = submit_all sub es (snd (sub e p))"

locale fifo_pool =
  fixes items :: "'p \<Rightarrow> 'e list"
    and room :: "'p \<Rightarrow> nat option"
    and sub :: "'e \<Rightarrow> 'p \<Rightarrow> (mempool_full + unit) \<times> 'p"
    and drain :: "nat \<Rightarrow> 'p \<Rightarrow> 'e list \<times> 'p"
  assumes items_sub: "room p \<noteq> Some 0 \<Longrightarrow> items (snd (sub e p)) = items p @ [e]"
    and result_sub: "fst (sub e p) = (if room p = Some 0 then Inl MempoolFull else Ok_unit)"
    and full_sub: "room p = Some 0 \<Longrightarrow> snd (sub e p) = p"
    and room_sub: "room (snd (sub e p)) = map_option (\<lambda>r. r - 1) (room p)"
    and drain_out: "fst (drain n p) = take n (items p)"
    and drain_rest: "items (snd (drain n p)) = drop n (items p)"
begin

text \<open>A pool takes a list in order, as far as it has room, and gives it back in order.\<close>

lemma items_submit_all:
  "items (submit_all sub es p) =
   items p @ (case room p of None \<Rightarrow> es | Some r \<Rightarrow> take r es)"
proof (induction es arbitrary: p)
  case Nil
  then show ?case by (simp split: option.splits)
next
  case (Cons e es)
  show ?case
  proof (cases "room p = Some 0")
    case True
    then show ?thesis using Cons [of p] full_sub by simp
  next
    case False
    then have "items (submit_all sub es (snd (sub e p))) =
        items p @ [e] @ (case map_option (\<lambda>r. r - 1) (room p) of None \<Rightarrow> es | Some r \<Rightarrow> take r es)"
      using Cons items_sub room_sub by simp
    with False show ?thesis
      by (cases "room p") (auto simp: take_Cons')
  qed
qed

lemma drain_all: "length (items p) \<le> n \<Longrightarrow> fst (drain n p) = items p \<and> items (snd (drain n p)) = []"
  by (simp add: drain_out drain_rest)

lemma drain_split: "fst (drain n p) @ items (snd (drain n p)) = items p"
  by (simp add: drain_out drain_rest)

lemma fifo:
  "items p = [] \<Longrightarrow> room p = None \<Longrightarrow> fst (drain n (submit_all sub es p)) = take n es"
  by (simp add: drain_out items_submit_all)

end

definition pool_room :: "'e mempool \<Rightarrow> nat option" where
  "pool_room mp = map_option (\<lambda>c. c - length (mp_pending mp)) (mp_max_capacity mp)"

interpretation pool: fifo_pool pending_extrinsics pool_room submit drain_for_block
  by unfold_locales
    (auto simp: submit_def pool_room_def pending_extrinsics_def drain_for_block_eq split: option.splits)

section \<open>Histories of a pool\<close>

datatype 'e pool_op = Submit 'e | Drain nat | Remove nat | Retain "'e \<Rightarrow> bool"

fun pool_step :: "'e pool_op \<Rightarrow> 'e mempool \<Rightarrow> 'e mempool" where
  "pool_step (Submit e) mp = snd (submit e mp)"
| "pool_step (Drain n) mp = snd (drain_for_block n mp)"
| "pool_step (Remove i) mp = snd (remove_at i mp)"
| "pool_step (Retain f) mp = retain f mp"

fun submitted :: "'e pool_op list \<Rightarrow> 'e list" where
  "submitted [] = []"
| "submitted (Submit e # ops) = e # submitted ops"
| "submitted (op # ops) = submitted ops"

lemma submitted_snoc:
  "submitted (ops @ [op]) = submitted ops @ (case op of Submit e \<Rightarrow> [e] | _ \<Rightarrow> [])"
  by (induction ops rule: submitted.induct) (auto split: pool_op.splits)

lemma pool_step_capacity [simp]: "mp_max_capacity (pool_step op mp) = mp_max_capacity mp"
  by (cases op) (auto simp: submit_def drain_for_block_eq remove_at_def retain_def split: option.splits)

lemma within_capacity_step: "within_capacity mp \<Longrightarrow> within_capacity (pool_step op mp)"
  by (cases op) (simp_all add: within_capacity_submit within_capacity_ops)

lemma subseq_remove_nth: "subseq (take i xs @ drop (Suc i) xs) xs"
proof (induction xs arbitrary: i)
  case (Cons x xs)
  then show ?case by (cases i) auto
qed simp

text \<open>A step adds the submitted extrinsic at the back or takes extrinsics out.\<close>

lemma pool_step_subseq:
  "subseq (mp_pending (pool_step op mp)) (mp_pending mp @ (case op of Submit e \<Rightarrow> [e] | _ \<Rightarrow> []))"
  by (cases op)
    (auto simp: submit_def drain_for_block_eq remove_at_def retain_def subseq_remove_nth
      intro: suffix_imp_subseq suffix_drop)

section \<open>Properties\<close>

text \<open>A pool hands extrinsics out first in, first out: after submitting a list to any pool, a
  drain takes the oldest extrinsics in order of arrival, the rest stays queued in order, and
  a bounded pool takes exactly as many of the list as it had room for.\<close>

lemma mempool_fifo:
  "fst (drain_for_block n (submit_all submit es mp)) =
     take n (pending_extrinsics mp @ (case pool_room mp of None \<Rightarrow> es | Some r \<Rightarrow> take r es)) \<and>
   pending_extrinsics (snd (drain_for_block n (submit_all submit es mp))) =
     drop n (pending_extrinsics mp @ (case pool_room mp of None \<Rightarrow> es | Some r \<Rightarrow> take r es))"
  by (simp only: pool.drain_out pool.drain_rest pool.items_submit_all simp_thms)

text \<open>C40: Whatever the history of submissions, drains, removals and evictions, a pool made with
  a capacity never holds more than that, and what it holds is a subsequence of what was
  submitted, in that order.\<close>

theorem mempool_bounded:
  "pool_len (foldl (\<lambda>mp op. pool_step op mp) (with_capacity c) ops) \<le> c \<and>
   subseq (pending_extrinsics (foldl (\<lambda>mp op. pool_step op mp) (with_capacity c) ops)) (submitted ops)"
proof (induction ops rule: rev_induct)
  case Nil
  then show ?case by (simp add: with_capacity_def pool_len_def pending_extrinsics_def)
next
  case (snoc op ops)
  let ?mp = "foldl (\<lambda>mp op. pool_step op mp) (with_capacity c) ops"
  have cap: "mp_max_capacity (foldl (\<lambda>mp op. pool_step op mp) mp ops) = mp_max_capacity mp" for mp :: "'a mempool"
    by (induction ops arbitrary: mp) simp_all
  have "within_capacity ?mp"
    using snoc cap [of "with_capacity c"] by (simp add: within_capacity_def pool_len_def with_capacity_def)
  then have "within_capacity (pool_step op ?mp)" by (rule within_capacity_step)
  then have "pool_len (pool_step op ?mp) \<le> c"
    using cap [of "with_capacity c"] by (simp add: within_capacity_def pool_len_def with_capacity_def)
  moreover have "subseq (mp_pending (pool_step op ?mp)) (submitted (ops @ [op]))"
    using pool_step_subseq [of op ?mp] snoc
    by (auto simp: submitted_snoc pending_extrinsics_def intro: subseq_order.trans list_emb_append_mono)
  ultimately show ?case by (simp add: pending_extrinsics_def)
qed

end
