(* ===== verification/Unicode_Text.thy ===== *)
theory Unicode_Text
  imports Prelude
begin

text \<open>
  Rust strings are UTF-8 byte strings that the standard library reads as code points:
  \<open>char::encode_utf8\<close>, the decoder behind \<open>str::chars\<close>, \<open>char::is_whitespace\<close> and
  \<open>str::trim\<close>. Code points are natural numbers below \<open>0x110000\<close>.
\<close>

section \<open>UTF-8\<close>

definition utf8_encode :: "nat \<Rightarrow> string" where
  "utf8_encode c =
     (if c < 0x80 then [char_of c]
      else if c < 0x800 then [char_of (0xC0 + c div 64), char_of (0x80 + c mod 64)]
      else if c < 0x10000 then
        [char_of (0xE0 + c div 4096), char_of (0x80 + c div 64 mod 64), char_of (0x80 + c mod 64)]
      else [char_of (0xF0 + c div 262144), char_of (0x80 + c div 4096 mod 64),
            char_of (0x80 + c div 64 mod 64), char_of (0x80 + c mod 64)])"

text \<open>
  \<open>next_code_point\<close>: the first byte says how many continuation bytes follow. A string that
  ends too early is not valid UTF-8 and has no next code point.
\<close>

definition cont_byte :: "char \<Rightarrow> nat" where
  "cont_byte b = of_char b mod 64"

fun next_code_point :: "string \<Rightarrow> (nat \<times> string) option" where
  "next_code_point [] = None"
| "next_code_point (x # r) =
     (let n = of_char x :: nat
      in if n < 0x80 then Some (n, r)
         else if n < 0xE0 then
           (case r of y # r' \<Rightarrow> Some (n mod 32 * 64 + cont_byte y, r') | _ \<Rightarrow> None)
         else if n < 0xF0 then
           (case r of y # z # r' \<Rightarrow> Some (n mod 32 * 4096 + cont_byte y * 64 + cont_byte z, r') | _ \<Rightarrow> None)
         else
           (case r of y # z # w # r' \<Rightarrow>
              Some (n mod 8 * 262144 + cont_byte y * 4096 + cont_byte z * 64 + cont_byte w, r') | _ \<Rightarrow> None))"

lemma next_code_point_length: "next_code_point s = Some (c, r) \<Longrightarrow> length r < length s"
  by (cases s) (auto simp: Let_def split: if_splits list.splits)

function chars :: "string \<Rightarrow> nat list" where
  "chars s = (case next_code_point s of None \<Rightarrow> [] | Some (c, r) \<Rightarrow> c # chars r)"
  by pat_completeness auto

termination
  by (relation "measure length") (auto dest: next_code_point_length)

declare chars.simps [simp del]

definition utf8 :: "nat list \<Rightarrow> string" where
  "utf8 cs = concat (map utf8_encode cs)"

definition code_points :: "nat list \<Rightarrow> bool" where
  "code_points cs \<longleftrightarrow> list_all (\<lambda>c. c < 0x110000) cs"

text \<open>The strings a Rust \<open>String\<close> can hold.\<close>

definition valid_utf8 :: "string \<Rightarrow> bool" where
  "valid_utf8 s \<longleftrightarrow> code_points (chars s) \<and> utf8 (chars s) = s"

lemma of_char_of_nat: "n < 256 \<Longrightarrow> of_char (char_of (n :: nat)) = n"
  by (simp add: of_char_of)

lemma mod_lead: "q < m \<Longrightarrow> (k * m + q) mod m = (q :: nat)"
  by simp

lemma lead_bytes:
  "q < 32 \<Longrightarrow> (0xC0 + q) mod 32 = (q :: nat)" "q < 16 \<Longrightarrow> (0xE0 + q) mod 32 = q"
  "q < 8 \<Longrightarrow> (0xF0 + q) mod 8 = q" "(0x80 + c mod 64) mod 64 = c mod (64 :: nat)"
  using mod_lead [of q 32 6] mod_lead [of q 32 7] mod_lead [of q 8 30] mod_lead [of "c mod 64" 64 2] by simp_all

lemma base64_digits:
  "c div 4096 * 4096 + c div 64 mod 64 * 64 + c mod 64 = (c :: nat)"
  "c div 262144 * 262144 + c div 4096 mod 64 * 4096 + c div 64 mod 64 * 64 + c mod 64 = c"
proof -
  have "c div 64 = c div 4096 * 64 + c div 64 mod 64"
    using div_mult_mod_eq [of "c div 64" 64] by (simp add: div_mult2_eq [symmetric])
  moreover have "c = c div 64 * 64 + c mod 64"
    by simp
  ultimately show one: "c div 4096 * 4096 + c div 64 mod 64 * 64 + c mod 64 = c"
    by linarith
  have "c div 4096 = c div 262144 * 64 + c div 4096 mod 64"
    using div_mult_mod_eq [of "c div 4096" 64] by (simp add: div_mult2_eq [symmetric])
  with one show "c div 262144 * 262144 + c div 4096 mod 64 * 4096 + c div 64 mod 64 * 64 + c mod 64 = c"
    by linarith
qed

lemma next_code_point_utf8:
  assumes "c < 0x110000"
  shows "next_code_point (utf8_encode c @ r) = Some (c, r)"
proof -
  consider "c < 0x80" | "0x80 \<le> c" "c < 0x800" | "0x800 \<le> c" "c < 0x10000" | "0x10000 \<le> c"
    by linarith
  then show ?thesis
  proof cases
    case 1
    then show ?thesis by (simp add: utf8_encode_def of_char_of_nat)
  next
    case 2
    have "c div 64 < 32" using 2 by (intro less_mult_imp_div_less) simp
    with 2 show ?thesis
      by (simp add: utf8_encode_def of_char_of_nat cont_byte_def lead_bytes)
  next
    case 3
    have "c div 4096 < 16" using 3 by (intro less_mult_imp_div_less) simp
    with 3 show ?thesis
      using base64_digits(1) [of c]
      by (simp add: utf8_encode_def of_char_of_nat cont_byte_def lead_bytes)
  next
    case 4
    have "c div 262144 < 5" using assms by (intro less_mult_imp_div_less) simp
    with 4 show ?thesis
      using base64_digits(2) [of c]
      by (simp add: utf8_encode_def of_char_of_nat cont_byte_def lead_bytes)
  qed
qed

lemma chars_utf8: "code_points cs \<Longrightarrow> chars (utf8 cs) = cs"
proof (induction cs)
  case Nil
  then show ?case by (simp add: utf8_def chars.simps [of "[]"])
next
  case (Cons c cs)
  then show ?case
    by (subst chars.simps) (simp add: utf8_def code_points_def next_code_point_utf8)
qed

lemma valid_utf8_inject: "valid_utf8 s \<Longrightarrow> valid_utf8 t \<Longrightarrow> chars s = chars t \<longleftrightarrow> s = t"
  unfolding valid_utf8_def by metis

lemma valid_utf8_utf8: "code_points cs \<Longrightarrow> valid_utf8 (utf8 cs)"
  by (simp add: valid_utf8_def chars_utf8)

lemma utf8_encode_inject:
  "c < 0x110000 \<Longrightarrow> d < 0x110000 \<Longrightarrow> utf8_encode c @ r = utf8_encode d @ s \<longleftrightarrow> c = d \<and> r = s"
  by (metis Pair_inject next_code_point_utf8 option.inject)

text \<open>ASCII text is its own decoding.\<close>

lemma ascii_utf8: "list_all (\<lambda>c. (of_char c :: nat) < 0x80) s \<Longrightarrow> utf8 (map of_char s) = s \<and> code_points (map of_char s)"
  by (induction s) (auto simp: utf8_def code_points_def utf8_encode_def)

lemma chars_ascii: "list_all (\<lambda>c. (of_char c :: nat) < 0x80) s \<Longrightarrow> chars s = map of_char s"
  by (metis ascii_utf8 chars_utf8)

section \<open>White space\<close>

definition is_whitespace :: "nat \<Rightarrow> bool" where
  "is_whitespace c \<longleftrightarrow>
     9 \<le> c \<and> c \<le> 13 \<or> c = 0x20 \<or> c = 0x85 \<or> c = 0xA0 \<or> c = 0x1680 \<or> 0x2000 \<le> c \<and> c \<le> 0x200A \<or>
     c = 0x2028 \<or> c = 0x2029 \<or> c = 0x202F \<or> c = 0x205F \<or> c = 0x3000"

definition trim :: "string \<Rightarrow> string" where
  "trim s = utf8 (rev (dropWhile is_whitespace (rev (dropWhile is_whitespace (chars s)))))"

lemma trim_ascii:
  assumes "list_all (\<lambda>c. (of_char c :: nat) < 0x80 \<and> \<not> is_whitespace (of_char c)) s"
  shows "trim s = s"
proof -
  have ascii: "list_all (\<lambda>c. (of_char c :: nat) < 0x80) s"
    using assms by (auto simp: list_all_iff)
  have drop: "dropWhile is_whitespace xs = xs" if "set xs \<subseteq> of_char ` set s" for xs
    using that assms by (cases xs) (auto simp: list_all_iff)
  show ?thesis
    using ascii_utf8 [OF ascii] by (simp add: trim_def chars_ascii [OF ascii] drop)
qed

end
