(* ===== verification/Text_Format.thy ===== *)
theory Text_Format
  imports Unicode_Text
begin

text \<open>
  The text the program writes and reads: \<open>to_string\<close> and \<open>parse\<close> of \<open>u32\<close> and the
  lower-case hexadecimal form of bytes (\<open>format!("{b:02x}")\<close>).
\<close>

section \<open>Hexadecimal\<close>

definition hex_digit :: "nat \<Rightarrow> char" where
  "hex_digit d = char_of (if d < 10 then 48 + d else 87 + d)"

definition hex_byte :: "byte \<Rightarrow> string" where
  "hex_byte b = [hex_digit (unat b div 16), hex_digit (unat b mod 16)]"

definition hex_of :: "bytes \<Rightarrow> string" where
  "hex_of bs = concat (map hex_byte bs)"

text \<open>
  A decoder for the witnesses, with the behaviour the \<open>hex\<close> crate documents: pairs of digits
  in either case. In the model that crate is a parameter.
\<close>

definition hex_value :: "char \<Rightarrow> nat option" where
  "hex_value c =
     (let n = of_char c :: nat
      in if 48 \<le> n \<and> n \<le> 57 then Some (n - 48)
         else if 97 \<le> n \<and> n \<le> 102 then Some (n - 87)
         else if 65 \<le> n \<and> n \<le> 70 then Some (n - 55)
         else None)"

fun unhex :: "string \<Rightarrow> bytes option" where
  "unhex [] = Some []"
| "unhex [c] = None"
| "unhex (c # d # cs) =
     (case (hex_value c, hex_value d) of
        (Some x, Some y) \<Rightarrow> map_option (Cons (word_of_nat (16 * x + y))) (unhex cs)
      | _ \<Rightarrow> None)"

lemma hex_value_digit [simp]: "d < 16 \<Longrightarrow> hex_value (hex_digit d) = Some d"
  by (auto simp: hex_value_def hex_digit_def Let_def of_char_of)

lemma unhex_hex_of: "unhex (hex_of bs) = Some bs"
proof (induction bs)
  case (Cons b bs)
  have "unat b < 256"
    using unsigned_less [of b] by simp
  then have "unat b div 16 < 16" by linarith
  with Cons show ?case
    by (simp add: hex_of_def hex_byte_def)
qed (simp add: hex_of_def)

lemma length_hex_of [simp]: "length (hex_of bs) = 2 * length bs"
  by (induction bs) (simp_all add: hex_of_def hex_byte_def)

section \<open>Decimal\<close>

definition dec_digit :: "nat \<Rightarrow> char" where
  "dec_digit d = char_of (48 + d)"

fun dec_digits :: "nat \<Rightarrow> string" where
  "dec_digits n = (if n < 10 then [dec_digit n] else dec_digits (n div 10) @ [dec_digit (n mod 10)])"

declare dec_digits.simps [simp del]

definition u32_to_string :: "u32 \<Rightarrow> string" where
  "u32_to_string n = dec_digits (unat n)"

definition dec_value :: "char \<Rightarrow> nat option" where
  "dec_value c = (let n = of_char c :: nat in if 48 \<le> n \<and> n \<le> 57 then Some (n - 48) else None)"

text \<open>\<open>u32::from_str\<close>: an optional plus sign, at least one digit, no overflow.\<close>

fun parse_digits :: "u32 \<Rightarrow> string \<Rightarrow> u32 option" where
  "parse_digits acc [] = Some acc"
| "parse_digits acc (c # cs) =
     (case dec_value c of
        None \<Rightarrow> None
      | Some d \<Rightarrow>
         if unat acc * 10 + d < 2 ^ 32 then parse_digits (acc * 10 + word_of_nat d) cs else None)"

definition parse_u32 :: "string \<Rightarrow> u32 option" where
  "parse_u32 s =
     (if s = [] \<or> s = ''+'' \<or> s = ''-'' then None
      else parse_digits 0 (if hd s = CHR ''+'' then tl s else s))"

lemma dec_value_digit [simp]: "d < 10 \<Longrightarrow> dec_value (dec_digit d) = Some d"
  by (simp add: dec_value_def dec_digit_def of_char_of)

lemma parse_digits_append:
  "parse_digits acc (xs @ ys) = Option.bind (parse_digits acc xs) (\<lambda>a. parse_digits a ys)"
  by (induction acc xs rule: parse_digits.induct) (auto split: option.splits)

lemma parse_dec_digits: "n < 2 ^ 32 \<Longrightarrow> parse_digits 0 (dec_digits n) = Some (word_of_nat n)"
proof (induction n rule: dec_digits.induct)
  case (1 n)
  show ?case
  proof (cases "n < 10")
    case True
    then show ?thesis by (simp add: dec_digits.simps [of n])
  next
    case False
    then have IH: "parse_digits 0 (dec_digits (n div 10)) = Some (word_of_nat (n div 10))"
      using "1.prems" by (intro "1.IH") auto
    have un: "unat (word_of_nat (n div 10) :: u32) = n div 10"
      using "1.prems" by (simp add: unat_of_nat)
    have "word_of_nat (n div 10) * 10 + word_of_nat (n mod 10) = (word_of_nat (n div 10 * 10 + n mod 10) :: u32)"
      by (simp only: of_nat_add of_nat_mult of_nat_numeral)
    then have "word_of_nat (n div 10) * 10 + word_of_nat (n mod 10) = (word_of_nat n :: u32)"
      by simp
    moreover have "n div 10 * 10 + n mod 10 < 2 ^ 32"
      using "1.prems" by simp
    ultimately show ?thesis
      using False IH by (simp add: dec_digits.simps [of n] parse_digits_append un)
  qed
qed

lemma dec_digits_set: "c \<in> set (dec_digits n) \<Longrightarrow> \<exists>d < 10. c = dec_digit d"
proof (induction n rule: dec_digits.induct)
  case (1 n)
  show ?case
  proof (cases "c = dec_digit (n mod 10)")
    case True
    then show ?thesis by (intro exI [of _ "n mod 10"]) simp
  next
    case False
    with 1 show ?thesis
      by (subst (asm) (2) dec_digits.simps) (auto split: if_splits)
  qed
qed

lemma dec_digits_not_Nil [simp]: "dec_digits n \<noteq> []"
  by (subst dec_digits.simps) simp

lemma digit_code: "d < 10 \<Longrightarrow> (of_char (dec_digit d) :: nat) = 48 + d"
  by (simp add: dec_digit_def of_char_of)

lemma digit_plain:
  assumes "c \<in> set (dec_digits n)"
  shows "(of_char c :: nat) < 0x80" and "\<not> is_whitespace (of_char c)" and "c \<noteq> CHR ''+''" and "c \<noteq> CHR ''-''"
    and "c \<noteq> CHR '',''"
proof -
  obtain d where "d < 10" and "c = dec_digit d"
    using dec_digits_set [OF assms] by blast
  then have code: "(of_char c :: nat) = 48 + d" by (simp add: digit_code)
  with \<open>d < 10\<close> show "(of_char c :: nat) < 0x80" "\<not> is_whitespace (of_char c)"
    by (auto simp: is_whitespace_def)
  show "c \<noteq> CHR ''+''" and "c \<noteq> CHR ''-''" and "c \<noteq> CHR '',''"
    using code by auto
qed

lemma trim_dec_digits [simp]: "trim (dec_digits n) = dec_digits n"
  by (rule trim_ascii) (simp add: list_all_iff digit_plain)

lemma parse_to_string: "parse_u32 (trim (u32_to_string n)) = Some n"
proof -
  have "hd (dec_digits m) \<in> set (dec_digits m)" for m by simp
  then have "hd (dec_digits m) \<noteq> CHR ''+''" "hd (dec_digits m) \<noteq> CHR ''-''" for m
    using digit_plain by blast+
  moreover from this have "dec_digits m \<noteq> ''+''" "dec_digits m \<noteq> ''-''" for m
    by (metis list.sel(1))+
  ultimately show ?thesis
    using parse_dec_digits [of "unat n"] unsigned_less [of n]
    by (simp add: parse_u32_def u32_to_string_def)
qed

text \<open>Decimal text can be read back, so it determines the number.\<close>

lemma dec_digits_value: "foldl (\<lambda>a c. 10 * a + the (dec_value c)) 0 (dec_digits n) = n"
proof (induction n rule: dec_digits.induct)
  case (1 n)
  then show ?case by (subst dec_digits.simps) auto
qed

lemma dec_digits_inject [simp]: "dec_digits m = dec_digits n \<longleftrightarrow> m = n"
  by (metis dec_digits_value)

lemma hex_digit_not_slash: "d < 16 \<Longrightarrow> hex_digit d \<noteq> CHR ''/''"
proof
  assume "d < 16" "hex_digit d = CHR ''/''"
  then have "hex_value (CHR ''/'') = Some d" by (metis hex_value_digit)
  then show False by (simp add: hex_value_def)
qed

lemma hex_of_segment: "bs \<noteq> [] \<Longrightarrow> hex_of bs \<noteq> [] \<and> CHR ''/'' \<notin> set (hex_of bs)"
proof -
  have "CHR ''/'' \<notin> set (hex_byte b)" for b
  proof -
    have "unat b < 256" using unsigned_less [of b] by simp
    then have "unat b div 16 < 16" by linarith
    then show ?thesis using hex_digit_not_slash by (simp add: hex_byte_def) (metis mod_less_divisor zero_less_numeral)
  qed
  then show "bs \<noteq> [] \<Longrightarrow> ?thesis" by (cases bs) (auto simp: hex_of_def hex_byte_def)
qed

end
