(* ===== verification/Node.thy ===== *)
theory Node
  imports Reference_Deps Mempool Text_Format
begin

text \<open>
  The node of \<open>src/node.rs\<close>: slot authorship, the RPC handlers, block production and the two
  event loops over the shared runtime, mempool and peer list. Peer identifiers, the wall
  clock, the hash of a topic, the hex decoder and the iteration order of \<open>HashMap\<close> are
  parameters. Channels are lists, oldest message first.

  Only the application task writes the runtime and the mempool, and only the network task
  writes the peers, so a branch of a loop is one step. The tick reads the peer list twice,
  with other tasks free to run in between, so it is two steps.
\<close>

section \<open>Round-robin authorship\<close>

definition SLOT_SECS :: u64 where
  "SLOT_SECS = 20"

text \<open>\<open>now\<close> is the wall clock, in seconds since the epoch.\<close>

definition current_slot :: "u64 \<Rightarrow> u64" where
  "current_slot now = now div SLOT_SECS"

text \<open>The remainder by an empty peer list would panic.\<close>

definition is_my_slot :: "u64 \<Rightarrow> 'p \<Rightarrow> 'p list \<Rightarrow> bool option" where
  "is_my_slot now my_id peers =
     (if length peers = 0 then None
      else let idx = unat (current_slot now) mod length peers
           in Some (peers ! idx = my_id))"

section \<open>Block production\<close>

text \<open>\<open>by_signer.entry(ext.signer).or_default().push(ext)\<close>; the entries in insertion order.\<close>

fun entry_push :: "ext \<Rightarrow> (AccountId32 \<times> ext list) list \<Rightarrow> (AccountId32 \<times> ext list) list" where
  "entry_push e [] = [(ext_signer e, [e])]"
| "entry_push e (g # gs) =
     (if fst g = ext_signer e then (fst g, snd g @ [e]) # gs else g # entry_push e gs)"

definition group_by_signer :: "ext list \<Rightarrow> (AccountId32 \<times> ext list) list" where
  "group_by_signer candidates = foldl (\<lambda>gs e. entry_push e gs) [] candidates"

text \<open>The inner loop: the run of consecutive nonces; \<open>expected += 1\<close> may overflow.\<close>

fun take_run :: "bool \<Rightarrow> u32 \<Rightarrow> ext list \<Rightarrow> ext list option" where
  "take_run oc expected [] = Some []"
| "take_run oc expected (tx # txs) =
     (if ext_nonce tx = expected
      then (case plain_add oc expected 1 of
              None \<Rightarrow> None
            | Some expected' \<Rightarrow> map_option (Cons tx) (take_run oc expected' txs))
      else Some [])"

fun collect_runs :: "bool \<Rightarrow> runtime \<Rightarrow> (AccountId32 \<times> ext list) list \<Rightarrow> ext list option" where
  "collect_runs oc rt [] = Some []"
| "collect_runs oc rt (g # gs) =
     (case take_run oc (nonce (rt_system rt) (fst g)) (sort_key ext_nonce (snd g)) of
        None \<Rightarrow> None
      | Some txs \<Rightarrow> map_option (\<lambda>rest. txs @ rest) (collect_runs oc rt gs))"

text \<open>\<open>ord\<close> is the order in which the hash map yields its entries.\<close>

definition select_batch ::
  "bool \<Rightarrow> ((AccountId32 \<times> ext list) list \<Rightarrow> (AccountId32 \<times> ext list) list) \<Rightarrow> runtime \<Rightarrow> ext list \<Rightarrow>
   ext list option" where
  "select_batch oc ord rt candidates = collect_runs oc rt (ord (group_by_signer candidates))"

record publish_req =
  pr_topic :: string
  pr_data :: bytes

text \<open>The dependencies of the node: those of the runtime, the wire codecs and the rest.\<close>

record ('st, 'sk, 'vk) node_deps = "('st, 'sk, 'vk) deps" +
  n_ext :: "ext codec"
  n_block :: "runtime_block codec"
  n_topic_hash :: "string \<Rightarrow> string"
  n_hex_decode :: "string \<Rightarrow> string + bytes"
  n_overflow_checks :: bool
  n_hash_order :: "(AccountId32 \<times> ext list) list \<Rightarrow> (AccountId32 \<times> ext list) list"

abbreviation rt_deps :: "('st, 'sk, 'vk) node_deps \<Rightarrow> ('st, 'sk, 'vk) deps" where
  "rt_deps N \<equiv> deps.truncate N"

definition extrinsic_topic :: string where
  "extrinsic_topic = ''extrinsics''"

definition block_topic :: string where
  "block_topic = ''blocks''"

text \<open>The state after block production: the chain, the mempool, the requests to publish.\<close>

definition produce_block ::
  "('st, 'sk, 'vk) node_deps \<Rightarrow> 'st chain \<times> ext mempool \<Rightarrow>
   ('st chain \<times> ext mempool \<times> publish_req list) option" where
  "produce_block N cm =
     (let limit = (case block_limit (snd cm) of None \<Rightarrow> 10 | Some l \<Rightarrow> l)
      in case drain_for_block limit (snd cm) of
           (candidates, pool) \<Rightarrow>
             (case select_batch (n_overflow_checks N) (n_hash_order N) (fst (fst cm)) candidates of
                None \<Rightarrow> None
              | Some batch \<Rightarrow>
                 (case checked_add (block_number (rt_system (fst (fst cm)))) 1 of
                    None \<Rightarrow> None
                  | Some next_num \<Rightarrow>
                     (let block = \<lparr>blk_header = \<lparr>hd_block_number = next_num\<rparr>, blk_extrinsics = batch\<rparr>;
                          encoded = encode (n_block N) block
                      in case execute_block (rt_deps N) block (fst cm) of
                           None \<Rightarrow> None
                         | Some (Inl _, ch) \<Rightarrow> Some (ch, pool, [])
                         | Some (Inr _, ch) \<Rightarrow>
                            Some (ch, pool, [\<lparr>pr_topic = n_topic_hash N block_topic, pr_data = encoded\<rparr>])))))"

section \<open>RPC handlers\<close>

datatype status = ACCEPTED | BAD_REQUEST

text \<open>\<open>POST /submit\<close>: the two channel sends are the messages returned.\<close>

definition submit_handler ::
  "('st, 'sk, 'vk) node_deps \<Rightarrow> bytes \<Rightarrow> status \<times> publish_req list \<times> ext list" where
  "submit_handler N raw =
     (case decode (n_ext N) raw of
        None \<Rightarrow> (BAD_REQUEST, [], [])
      | Some e \<Rightarrow>
         (ACCEPTED, [\<lparr>pr_topic = n_topic_hash N extrinsic_topic, pr_data = raw\<rparr>], [e]))"

text \<open>
  \<open>GET /nonce\<close>: the error string or the number as text; \<open>None\<close> is the panic of \<open>base + pending\<close>.
  The count is cut to 32 bits by \<open>as u32\<close>.
\<close>

definition nonce_handler ::
  "('st, 'sk, 'vk) node_deps \<Rightarrow> runtime \<Rightarrow> ext mempool \<Rightarrow> string \<Rightarrow> (string + string) option" where
  "nonce_handler N rt pool hex =
     (case n_hex_decode N hex of
        Inl e \<Rightarrow> Some (Inl (''invalid hex: '' @ e))
      | Inr bytes \<Rightarrow>
         if length bytes \<noteq> 32 then Some (Inl ''account must be 32 bytes'')
         else (let account = AccountId32 (arr32_of bytes);
                   base = nonce (rt_system rt) account;
                   pending = word_of_nat (length (filter (\<lambda>e. ext_signer e = account)
                                                    (pending_extrinsics pool))) :: u32
               in map_option (\<lambda>n. Inr (u32_to_string n)) (plain_add (n_overflow_checks N) base pending)))"

section \<open>The event loops\<close>

record ('st, 'p) node_state =
  ns_my_id :: 'p
  ns_chain :: "'st chain"
  ns_pool :: "ext mempool"
  ns_peers :: "'p list"
  ns_rx_ext :: "ext list"
  ns_rx_blk :: "runtime_block list"
  ns_rx_pub :: "publish_req list"
  ns_out :: "publish_req list"
  ns_ticked :: bool

text \<open>The start of \<open>run\<close>: load, genesis, an empty mempool of block limit 3, ourselves as peer.\<close>

definition node_start ::
  "('st, 'sk, 'vk) node_deps \<Rightarrow> 'p \<Rightarrow> 'st \<Rightarrow> ('st, 'p) node_state option" where
  "node_start N my_id s =
     (case maybe_apply_genesis (rt_deps N) (runtime_new (rt_deps N) s, s) of
        None \<Rightarrow> None
      | Some ch \<Rightarrow>
         Some \<lparr>ns_my_id = my_id, ns_chain = ch, ns_pool = with_block_limit 3, ns_peers = [my_id],
               ns_rx_ext = [], ns_rx_blk = [], ns_rx_pub = [], ns_out = [], ns_ticked = False\<rparr>)"

text \<open>The application task: \<open>rx_ext.recv()\<close>, \<open>rx_blk.recv()\<close> and the two halves of the tick.\<close>

definition on_extrinsic :: "ext \<Rightarrow> ('st, 'p) node_state \<Rightarrow> ('st, 'p) node_state" where
  "on_extrinsic e n = n\<lparr>ns_pool := snd (submit e (ns_pool n))\<rparr>"

definition on_peer_block ::
  "('st, 'sk, 'vk) node_deps \<Rightarrow> runtime_block \<Rightarrow> ('st, 'p) node_state \<Rightarrow> ('st, 'p) node_state option" where
  "on_peer_block N b n =
     (let included = map (\<lambda>e. (ext_signer e, ext_nonce e)) (blk_extrinsics b)
      in case execute_block (rt_deps N) b (ns_chain n) of
           None \<Rightarrow> None
         | Some (Inl _, ch) \<Rightarrow> Some (n\<lparr>ns_chain := ch\<rparr>)
         | Some (Inr _, ch) \<Rightarrow>
            Some (n\<lparr>ns_chain := ch,
                    ns_pool := retain (\<lambda>e. \<not> list_ex (\<lambda>(s, k). s = ext_signer e \<and> k = ext_nonce e) included)
                                 (ns_pool n)\<rparr>))"

definition on_tick :: "('st, 'p) node_state \<Rightarrow> ('st, 'p) node_state" where
  "on_tick n = n\<lparr>ns_ticked := length (ns_peers n) > 1\<rparr>"

definition on_slot ::
  "('st, 'sk, 'vk) node_deps \<Rightarrow> u64 \<Rightarrow> ('st, 'p) node_state \<Rightarrow> ('st, 'p) node_state option" where
  "on_slot N now n =
     (case is_my_slot now (ns_my_id n) (ns_peers n) of
        None \<Rightarrow> None
      | Some False \<Rightarrow> Some (n\<lparr>ns_ticked := False\<rparr>)
      | Some True \<Rightarrow>
         (case produce_block N (ns_chain n, ns_pool n) of
            None \<Rightarrow> None
          | Some (ch, pool, reqs) \<Rightarrow>
             Some (n\<lparr>ns_ticked := False, ns_chain := ch, ns_pool := pool, ns_rx_pub := ns_rx_pub n @ reqs\<rparr>)))"

text \<open>The network task.\<close>

definition on_message ::
  "('st, 'sk, 'vk) node_deps \<Rightarrow> string \<Rightarrow> bytes \<Rightarrow> ('st, 'p) node_state \<Rightarrow> ('st, 'p) node_state" where
  "on_message N topic data n =
     (if topic = n_topic_hash N extrinsic_topic then
        (case decode (n_ext N) data of
           None \<Rightarrow> n
         | Some e \<Rightarrow> n\<lparr>ns_rx_ext := ns_rx_ext n @ [e]\<rparr>)
      else if topic = n_topic_hash N block_topic then
        (case decode (n_block N) data of
           None \<Rightarrow> n
         | Some b \<Rightarrow> n\<lparr>ns_rx_blk := ns_rx_blk n @ [b]\<rparr>)
      else n)"

definition on_connected :: "'p::linorder \<Rightarrow> ('st, 'p) node_state \<Rightarrow> ('st, 'p) node_state" where
  "on_connected peer n = n\<lparr>ns_peers := sort (ns_peers n @ [peer])\<rparr>"

definition on_disconnected :: "'p \<Rightarrow> ('st, 'p) node_state \<Rightarrow> ('st, 'p) node_state" where
  "on_disconnected peer n = n\<lparr>ns_peers := filter (\<lambda>q. q \<noteq> peer) (ns_peers n)\<rparr>"

definition on_rpc_submit ::
  "('st, 'sk, 'vk) node_deps \<Rightarrow> bytes \<Rightarrow> ('st, 'p) node_state \<Rightarrow> ('st, 'p) node_state" where
  "on_rpc_submit N raw n =
     (case submit_handler N raw of
        (_, reqs, exts) \<Rightarrow> n\<lparr>ns_rx_pub := ns_rx_pub n @ reqs, ns_rx_ext := ns_rx_ext n @ exts\<rparr>)"

text \<open>
  The steps of a node, first those that exchange no bytes with the outside. A loop branch that
  panics ends its task, so there is no step. A peer that connects is another node: its
  identifier is not ours.
\<close>

inductive task_step ::
  "('st, 'sk, 'vk) node_deps \<Rightarrow> ('st, 'p::linorder) node_state \<Rightarrow> ('st, 'p) node_state \<Rightarrow> bool"
  for N :: "('st, 'sk, 'vk) node_deps" where
  recv_ext: "\<not> ns_ticked n \<Longrightarrow> ns_rx_ext n = e # es \<Longrightarrow>
    task_step N n (on_extrinsic e (n\<lparr>ns_rx_ext := es\<rparr>))"
| recv_blk: "\<not> ns_ticked n \<Longrightarrow> ns_rx_blk n = b # bs \<Longrightarrow>
    on_peer_block N b (n\<lparr>ns_rx_blk := bs\<rparr>) = Some n' \<Longrightarrow> task_step N n n'"
| tick: "\<not> ns_ticked n \<Longrightarrow> task_step N n (on_tick n)"
| slot: "ns_ticked n \<Longrightarrow> on_slot N now n = Some n' \<Longrightarrow> task_step N n n'"
| connected: "peer \<noteq> ns_my_id n \<Longrightarrow> task_step N n (on_connected peer n)"
| disconnected: "peer \<noteq> ns_my_id n \<Longrightarrow> task_step N n (on_disconnected peer n)"

definition on_publish :: "('st, 'p) node_state \<Rightarrow> (publish_req \<times> ('st, 'p) node_state) option" where
  "on_publish n =
     (case ns_rx_pub n of
        [] \<Rightarrow> None
      | r # rs \<Rightarrow> Some (r, n\<lparr>ns_rx_pub := rs, ns_out := ns_out n @ [r]\<rparr>))"

text \<open>A single node in an environment that may send it anything.\<close>

inductive node_step ::
  "('st, 'sk, 'vk) node_deps \<Rightarrow> ('st, 'p::linorder) node_state \<Rightarrow> ('st, 'p) node_state \<Rightarrow> bool"
  for N :: "('st, 'sk, 'vk) node_deps" where
  task: "task_step N n n' \<Longrightarrow> node_step N n n'"
| message: "node_step N n (on_message N topic data n)"
| publish: "on_publish n = Some (r, n') \<Longrightarrow> node_step N n n'"
| rpc_submit: "node_step N n (on_rpc_submit N raw n)"

inductive node_reach ::
  "('st, 'sk, 'vk) node_deps \<Rightarrow> ('st \<Rightarrow> bool) \<Rightarrow> ('st, 'p::linorder) node_state \<Rightarrow> bool"
  for N :: "('st, 'sk, 'vk) node_deps" and I :: "'st \<Rightarrow> bool" where
  start: "chain_reach (rt_deps N) I ch \<Longrightarrow> node_start N my_id (snd ch) = Some n \<Longrightarrow> node_reach N I n"
| step: "node_reach N I n \<Longrightarrow> node_step N n n' \<Longrightarrow> node_reach N I n'"

end
