(* ===== verification/Node_Facts.thy ===== *)
theory Node_Facts
  imports Node
begin

text \<open>
  Facts on the node: what a batch contains and that the runtime applies all of it, what the
  author publishes and how a follower ends up in the same state, eviction, authorship, and
  the invariants of every reachable state.
\<close>

lemma rt_deps_simps [simp]:
  "d_kv (rt_deps N) = d_kv N" "d_codecs (rt_deps N) = d_codecs N"
  "d_ed25519 (rt_deps N) = d_ed25519 N" "d_payload (rt_deps N) = d_payload N"
  by (simp_all add: deps.truncate_def)

section \<open>Grouping by signer\<close>

definition groups_of :: "ext list \<Rightarrow> (AccountId32 \<times> ext list) list \<Rightarrow> bool" where
  "groups_of xs gs \<longleftrightarrow>
     distinct (map fst gs) \<and> (\<forall>g \<in> set gs. snd g = by_signer (fst g) xs) \<and>
     ext_signer ` set xs \<subseteq> fst ` set gs"

lemma fst_set_entry_push: "fst ` set (entry_push e gs) = insert (ext_signer e) (fst ` set gs)"
  by (induction gs) auto

lemma entry_push_groups_of:
  assumes "distinct (map fst gs)" and "\<forall>g \<in> set gs. snd g = by_signer (fst g) xs"
    and "ext_signer e \<notin> fst ` set gs \<Longrightarrow> by_signer (ext_signer e) xs = []"
  shows "distinct (map fst (entry_push e gs)) \<and>
         (\<forall>g \<in> set (entry_push e gs). snd g = by_signer (fst g) (xs @ [e]))"
  using assms
proof (induction gs)
  case Nil
  then show ?case by simp
next
  case (Cons g gs)
  show ?case
  proof (cases "fst g = ext_signer e")
    case True
    then have "ext_signer e \<notin> fst ` set gs"
      using Cons.prems(1) by auto
    then have "\<forall>h \<in> set gs. snd h = by_signer (fst h) (xs @ [e])"
      using Cons.prems(2) by auto
    with True Cons.prems show ?thesis by auto
  next
    case False
    then have "distinct (map fst (entry_push e gs)) \<and>
        (\<forall>g \<in> set (entry_push e gs). snd g = by_signer (fst g) (xs @ [e]))"
      using Cons.prems by (intro Cons.IH) auto
    with False Cons.prems show ?thesis
      using fst_set_entry_push [of e gs] by auto
  qed
qed

lemma by_signer_Nil_iff: "by_signer a xs = [] \<longleftrightarrow> a \<notin> ext_signer ` set xs"
  by (auto simp: by_signer_def filter_empty_conv)

lemma groups_of_group_by_signer: "groups_of xs (group_by_signer xs)"
proof (induction xs rule: rev_induct)
  case Nil
  then show ?case by (simp add: groups_of_def group_by_signer_def)
next
  case (snoc e xs)
  let ?gs = "group_by_signer xs"
  have gs: "group_by_signer (xs @ [e]) = entry_push e ?gs"
    by (simp add: group_by_signer_def)
  have "by_signer (ext_signer e) xs = []" if "ext_signer e \<notin> fst ` set ?gs"
    using that snoc by (auto simp: groups_of_def by_signer_Nil_iff)
  then show ?case
    using snoc entry_push_groups_of [of ?gs xs e]
    by (auto simp: gs groups_of_def fst_set_entry_push)
qed

text \<open>What the standard library says of the iteration order of a hash map: every entry, once.\<close>

definition hash_order_ok :: "('g list \<Rightarrow> 'g list) \<Rightarrow> bool" where
  "hash_order_ok ord \<longleftrightarrow> (\<forall>gs. mset (ord gs) = mset gs)"

lemma groups_of_order: "hash_order_ok ord \<Longrightarrow> groups_of xs gs \<Longrightarrow> groups_of xs (ord gs)"
proof -
  assume ord: "hash_order_ok ord" and groups: "groups_of xs gs"
  have perm: "mset (ord gs) = mset gs"
    using ord by (simp add: hash_order_ok_def)
  then have "mset (map fst (ord gs)) = mset (map fst gs)" by simp
  then have "distinct (map fst (ord gs)) = distinct (map fst gs)"
    by (rule mset_eq_imp_distinct_iff)
  moreover have "set (ord gs) = set gs"
    using perm by (rule mset_eq_setD)
  ultimately show ?thesis
    using groups by (simp add: groups_of_def)
qed

section \<open>Consecutive runs\<close>

fun consec :: "u32 \<Rightarrow> ext list \<Rightarrow> bool" where
  "consec n [] = True"
| "consec n (e # es) = (ext_nonce e = n \<and> consec (n + 1) es)"

lemma take_run_consec: "take_run oc n txs = Some run \<Longrightarrow> consec n run"
proof (induction oc n txs arbitrary: run rule: take_run.induct)
  case (2 oc n tx txs)
  then show ?case
    by (auto simp: plain_add_def split: if_splits option.splits)
qed simp

lemma take_run_prefix: "take_run oc n txs = Some run \<Longrightarrow> prefix run txs"
proof (induction oc n txs arbitrary: run rule: take_run.induct)
  case (2 oc n tx txs)
  then show ?case
    by (auto split: if_splits option.splits)
qed simp

lemma take_run_total:
  "unat n + length txs < 2 ^ 32 \<Longrightarrow> \<exists>run. take_run oc n txs = Some run"
proof (induction oc n txs rule: take_run.induct)
  case (2 oc n tx txs)
  have "plain_add oc n 1 = Some (n + 1)"
    using "2.prems" by (simp add: plain_add_def)
  moreover have "unat (n + 1) = Suc (unat n)"
    using "2.prems" by (simp add: unat_word_ariths)
  ultimately show ?case
    using 2 by auto
qed simp

text \<open>The extrinsics of a batch by one signer: the run of that signer's candidates.\<close>

definition signer_run :: "bool \<Rightarrow> runtime \<Rightarrow> ext list \<Rightarrow> AccountId32 \<Rightarrow> ext list option" where
  "signer_run oc rt xs a = take_run oc (nonce (rt_system rt) a) (sort_key ext_nonce (by_signer a xs))"

lemma by_signer_same: "(\<And>e. e \<in> set xs \<Longrightarrow> ext_signer e = a) \<Longrightarrow>
  by_signer b xs = (if a = b then xs else [])"
  by (induction xs) auto

lemma collect_runs_by_signer:
  assumes "distinct (map fst gs)" and "\<forall>g \<in> set gs. snd g = by_signer (fst g) xs"
    and "collect_runs oc rt gs = Some batch"
  shows "if a \<in> fst ` set gs then signer_run oc rt xs a = Some (by_signer a batch)
         else by_signer a batch = []"
  using assms
proof (induction gs arbitrary: batch)
  case Nil
  then show ?case by simp
next
  case (Cons g gs)
  then obtain txs rest where txs: "signer_run oc rt xs (fst g) = Some txs"
    and rest: "collect_runs oc rt gs = Some rest" and batch: "batch = txs @ rest"
    by (auto simp: signer_run_def split: option.splits)
  have IH: "if a \<in> fst ` set gs then signer_run oc rt xs a = Some (by_signer a rest)
         else by_signer a rest = []"
    using Cons.prems rest by (intro Cons.IH) auto
  have "ext_signer e = fst g" if "e \<in> set txs" for e
    using take_run_prefix [OF txs [unfolded signer_run_def]] that
    by (auto dest!: set_mono_prefix simp: by_signer_def)
  then have "by_signer a txs = (if fst g = a then txs else [])"
    by (rule by_signer_same)
  then show ?case
    using IH txs Cons.prems(1) by (auto simp: batch split: if_splits)
qed

lemma select_batch_by_signer:
  assumes "hash_order_ok ord" and "select_batch oc ord rt xs = Some batch"
  shows "signer_run oc rt xs a = Some (by_signer a batch)"
proof -
  have groups: "groups_of xs (ord (group_by_signer xs))"
    using assms(1) groups_of_group_by_signer by (rule groups_of_order)
  have "if a \<in> fst ` set (ord (group_by_signer xs))
        then signer_run oc rt xs a = Some (by_signer a batch) else by_signer a batch = []"
    using groups assms(2)
    by (intro collect_runs_by_signer) (auto simp: groups_of_def select_batch_def)
  moreover have "signer_run oc rt xs a = Some []" if "a \<notin> fst ` set (ord (group_by_signer xs))"
  proof -
    have "by_signer a xs = []"
      using that groups by (auto simp: groups_of_def by_signer_Nil_iff)
    then show ?thesis by (simp add: signer_run_def)
  qed
  ultimately show ?thesis by (auto split: if_splits)
qed

lemma select_batch_subset:
  assumes "hash_order_ok ord" and "select_batch oc ord rt xs = Some batch"
  shows "set batch \<subseteq> set xs"
proof
  fix e assume "e \<in> set batch"
  then have "e \<in> set (by_signer (ext_signer e) batch)"
    by (simp add: by_signer_def)
  moreover have "prefix (by_signer (ext_signer e) batch) (sort_key ext_nonce (by_signer (ext_signer e) xs))"
    using select_batch_by_signer [OF assms, of "ext_signer e"]
    by (auto simp: signer_run_def intro: take_run_prefix)
  ultimately show "e \<in> set xs"
    by (auto dest!: set_mono_prefix simp: by_signer_def)
qed

lemma select_batch_consec:
  assumes "hash_order_ok ord" and "select_batch oc ord rt xs = Some batch"
  shows "consec (nonce (rt_system rt) a) (by_signer a batch)"
  using select_batch_by_signer [OF assms, of a] take_run_consec by (simp add: signer_run_def)

lemma length_by_signer_run:
  assumes "hash_order_ok ord" and "select_batch oc ord rt xs = Some batch"
  shows "length (by_signer a batch) \<le> length (by_signer a xs)"
  using select_batch_by_signer [OF assms, of a] take_run_prefix prefix_length_le
  by (fastforce simp: signer_run_def)

lemma collect_runs_total:
  assumes "\<And>a txs. (a, txs) \<in> set gs \<Longrightarrow> unat (nonce (rt_system rt) a) + length txs < 2 ^ 32"
  shows "\<exists>batch. collect_runs oc rt gs = Some batch"
  using assms
proof (induction gs)
  case (Cons g gs)
  obtain txs where "take_run oc (nonce (rt_system rt) (fst g)) (sort_key ext_nonce (snd g)) = Some txs"
    using take_run_total [of "nonce (rt_system rt) (fst g)" "sort_key ext_nonce (snd g)" oc]
      Cons.prems [of "fst g" "snd g"] by auto
  moreover obtain rest where "collect_runs oc rt gs = Some rest"
    using Cons by auto
  ultimately show ?case by simp
qed simp

lemma select_batch_total:
  assumes "hash_order_ok ord"
    and "\<And>a. unat (nonce (rt_system rt) a) + length (by_signer a xs) < 2 ^ 32"
  shows "\<exists>batch. select_batch oc ord rt xs = Some batch"
  unfolding select_batch_def
proof (rule collect_runs_total)
  fix a txs assume "(a, txs) \<in> set (ord (group_by_signer xs))"
  then have "txs = by_signer a xs"
    using groups_of_order [OF assms(1) groups_of_group_by_signer, of xs] by (auto simp: groups_of_def)
  then show "unat (nonce (rt_system rt) a) + length txs < 2 ^ 32"
    using assms(2) by simp
qed

section \<open>The runtime applies the whole batch\<close>

lemma apply_extrinsic_nonce_word:
  assumes "apply_extrinsic D (e, v) ch = Some ch'"
  shows "nonce (rt_system (fst ch')) a =
    (if admissible (e, v) (fst ch) \<and> ext_signer e = a then nonce (rt_system (fst ch)) a + 1
     else nonce (rt_system (fst ch)) a)"
proof (cases "admissible (e, v) (fst ch)")
  case False
  then show ?thesis using assms by (simp add: apply_extrinsic_skip)
next
  case True
  then obtain ch1 where
    inc: "on_system (inc_nonce (d_kv D) (c_account (d_codecs D)) (c_u32 (d_codecs D)) (ext_signer e)) ch = Some ch1"
    and dis: "map_option snd (runtime_dispatch D (ext_signer e) (ext_call e) ch1) = Some ch'"
    using assms by (auto simp: apply_extrinsic_admissible split: option.splits)
  from dis have "rt_system (fst ch') = rt_system (fst ch1)"
    by (auto dest: runtime_dispatch_system)
  then show ?thesis
    using on_system_SomeD [OF inc] True by (auto simp: inc_nonce_SomeD(1))
qed

lemma apply_extrinsics_consec:
  "apply_extrinsics D xs ch = Some ch' \<Longrightarrow> (\<And>e v. (e, v) \<in> set xs \<Longrightarrow> v = Ok_unit) \<Longrightarrow>
   (\<And>a. consec (nonce (rt_system (fst ch)) a) (by_signer a (map fst xs))) \<Longrightarrow>
   applied D xs ch = map fst xs"
proof (induction xs arbitrary: ch)
  case (Cons x xs)
  obtain e v where x: "x = (e, v)" by (cases x)
  from Cons.prems(1) obtain ch1 where one: "apply_extrinsic D (e, v) ch = Some ch1"
    and rest: "apply_extrinsics D xs ch1 = Some ch'"
    by (auto simp: x split: option.splits)
  have adm: "admissible (e, v) (fst ch)"
    using Cons.prems(2) [of e v] Cons.prems(3) [of "ext_signer e"] by (simp add: x admissible_def)
  have "consec (nonce (rt_system (fst ch1)) a) (by_signer a (map fst xs))" for a
    using Cons.prems(3) [of a] apply_extrinsic_nonce_word [OF one, of a] adm
    by (auto simp: x split: if_splits)
  then have "applied D xs ch1 = map fst xs"
    using rest Cons.prems(2) by (intro Cons.IH) auto
  then show ?case using adm one by (simp add: x)
qed simp

section \<open>Block production\<close>

definition drained :: "ext mempool \<Rightarrow> ext list" where
  "drained pool = take (case block_limit pool of None \<Rightarrow> 10 | Some l \<Rightarrow> l) (mp_pending pool)"

definition rest_pool :: "ext mempool \<Rightarrow> ext mempool" where
  "rest_pool pool = pool\<lparr>mp_pending := drop (case block_limit pool of None \<Rightarrow> 10 | Some l \<Rightarrow> l) (mp_pending pool)\<rparr>"

definition next_block :: "'st chain \<Rightarrow> ext list \<Rightarrow> runtime_block" where
  "next_block ch batch =
     \<lparr>blk_header = \<lparr>hd_block_number = block_number (rt_system (fst ch)) + 1\<rparr>, blk_extrinsics = batch\<rparr>"

lemma execute_next_block:
  "execute_block D (next_block ch batch) ch = Some (r, ch') \<Longrightarrow> r = Ok_unit"
  by (cases rule: execute_block_SomeE) (auto simp: next_block_def)

text \<open>
  A production that does not panic executed the next block on its own runtime, successfully,
  took the drained candidates out of the pool and asks to publish exactly that block.
\<close>

lemma produce_block_SomeE:
  assumes "produce_block N (ch, pool) = Some (ch', pool', reqs)"
  obtains batch where
    "select_batch (n_overflow_checks N) (n_hash_order N) (fst ch) (drained pool) = Some batch"
    and "execute_block (rt_deps N) (next_block ch batch) ch = Some (Ok_unit, ch')"
    and "pool' = rest_pool pool"
    and "reqs = [\<lparr>pr_topic = n_topic_hash N block_topic, pr_data = encode (n_block N) (next_block ch batch)\<rparr>]"
proof -
  obtain batch n where
    sel: "select_batch (n_overflow_checks N) (n_hash_order N) (fst ch) (drained pool) = Some batch"
    and n: "checked_add (block_number (rt_system (fst ch))) 1 = Some n"
    using assms
    by (auto simp: produce_block_def drain_for_block_eq drained_def Let_def split: option.splits)
  have next_num: "\<lparr>blk_header = \<lparr>hd_block_number = n\<rparr>, blk_extrinsics = batch\<rparr> = next_block ch batch"
    using checked_add_SomeD [OF n] by (simp add: next_block_def)
  have run: "(case execute_block (rt_deps N) (next_block ch batch) ch of
      None \<Rightarrow> None
    | Some (Inl _, ch1) \<Rightarrow> Some (ch1, rest_pool pool, [])
    | Some (Inr _, ch1) \<Rightarrow> Some (ch1, rest_pool pool,
        [\<lparr>pr_topic = n_topic_hash N block_topic, pr_data = encode (n_block N) (next_block ch batch)\<rparr>])) =
    Some (ch', pool', reqs)"
    using assms sel n
    unfolding rest_pool_def
    by (simp add: produce_block_def drain_for_block_eq drained_def Let_def next_num
        split: option.splits sum.splits prod.splits)
  then obtain r ch1 where ex: "execute_block (rt_deps N) (next_block ch batch) ch = Some (r, ch1)"
    by (cases "execute_block (rt_deps N) (next_block ch batch) ch") auto
  then have "r = Ok_unit" by (rule execute_next_block)
  with ex run sel that show thesis by auto
qed

lemma produce_block_total:
  assumes "hash_order_ok (n_hash_order N)" and "runtime_wf (fst ch)"
    and "unat (block_number (rt_system (fst ch))) < 2 ^ 32 - 1"
    and "\<And>a. unat (nonce (rt_system (fst ch)) a) + length (by_signer a (drained pool)) < 2 ^ 32"
  shows "\<exists>ch' pool' reqs. produce_block N (ch, pool) = Some (ch', pool', reqs)"
proof -
  obtain batch where
    sel: "select_batch (n_overflow_checks N) (n_hash_order N) (fst ch) (drained pool) = Some batch"
    using select_batch_total [OF assms(1,4)] by blast
  have n: "checked_add (block_number (rt_system (fst ch))) 1 = Some (block_number (rt_system (fst ch)) + 1)"
    using checked_add_one_cases [of "block_number (rt_system (fst ch))"] assms(3) by auto
  have "unat (nonce (rt_system (fst ch)) a) + length (by_signer a (blk_extrinsics (next_block ch batch))) < 2 ^ 32"
    for a
    using length_by_signer_run [OF assms(1) sel, of a] assms(4) [of a] by (simp add: next_block_def)
  then obtain r ch' where "execute_block (rt_deps N) (next_block ch batch) ch = Some (r, ch')"
    using execute_block_total [OF assms(2,3)] by blast
  then show ?thesis
    using sel n
    by (cases r)
      (auto simp: produce_block_def drain_for_block_eq drained_def Let_def next_block_def)
qed

lemma applied_batch:
  assumes "select_batch oc ord (fst ch) xs = Some batch"
    and "execute_block (rt_deps N) (next_block ch batch) ch = Some (r, ch')"
    and "hash_order_ok ord" and "\<forall>e \<in> set batch. verify (d_ed25519 N) (d_payload N) e = Ok_unit"
  shows "applied_block (rt_deps N) (next_block ch batch) ch = batch"
proof -
  let ?b = "next_block ch batch"
  have ok: "v = Ok_unit" if "(e, v) \<in> set (results (rt_deps N) ?b)" for e v
    using that assms(4) by (auto simp: results_alt next_block_def)
  have "apply_extrinsics (rt_deps N) (results (rt_deps N) ?b) (bumped (rt_deps N) ch) = Some ch'"
    using assms(2) by (cases rule: execute_block_SomeE) (auto simp: next_block_def)
  then have "applied (rt_deps N) (results (rt_deps N) ?b) (bumped (rt_deps N) ch) = map fst (results (rt_deps N) ?b)"
    using ok select_batch_consec [OF assms(3,1)]
    by (intro apply_extrinsics_consec) (auto simp: next_block_def)
  then show ?thesis by (simp add: applied_block_def next_block_def)
qed

lemma applied_next_block:
  assumes "select_batch oc ord (fst ch) xs = Some batch"
    and "execute_block (rt_deps N) (next_block ch batch) ch = Some (r, ch')"
    and "hash_order_ok ord" and "\<And>e. e \<in> set xs \<Longrightarrow> verify (d_ed25519 N) (d_payload N) e = Ok_unit"
  shows "applied_block (rt_deps N) (next_block ch batch) ch = batch"
  using assms(1-3) select_batch_subset [OF assms(3,1)] assms(4) by (intro applied_batch) auto

section \<open>Authorship\<close>

lemma is_my_slot_nth:
  "is_my_slot now p peers = Some True \<longleftrightarrow>
   peers \<noteq> [] \<and> peers ! (unat (current_slot now) mod length peers) = p"
  by (auto simp: is_my_slot_def Let_def)

lemma mod_hits:
  fixes i n s :: nat
  assumes "i < n"
  shows "\<exists>k < n. (s + k) mod n = i"
proof -
  let ?k = "(i + (n - s mod n)) mod n"
  have "(s + ?k) mod n = (s mod n + (i + (n - s mod n))) mod n"
    by (metis mod_add_left_eq mod_add_right_eq)
  also have "s mod n + (i + (n - s mod n)) = i + n"
    using mod_less_divisor [of n s] assms by linarith
  finally have "(s + ?k) mod n = i" using assms by simp
  moreover have "?k < n" using assms by simp
  ultimately show ?thesis by blast
qed

lemma current_slot_later:
  assumes "unat now + 20 * k < 2 ^ 64"
  shows "unat (current_slot (now + 20 * word_of_nat k)) = unat (current_slot now) + k"
proof -
  have k: "unat (word_of_nat k :: u64) = k"
    using assms by (simp add: unat_of_nat)
  have "unat (20 * word_of_nat k :: u64) = 20 * k"
    using assms by (simp add: unat_word_ariths k)
  then have "unat (now + 20 * word_of_nat k) = unat now + 20 * k"
    using assms by (simp add: unat_word_ariths)
  then show ?thesis
    by (simp add: current_slot_def SLOT_SECS_def unat_div)
qed

section \<open>Invariants of a node\<close>

definition peers_ok :: "('st, 'p::linorder) node_state \<Rightarrow> bool" where
  "peers_ok n \<longleftrightarrow> sorted (ns_peers n) \<and> ns_my_id n \<in> set (ns_peers n)"

definition node_inv :: "('st, 'sk, 'vk) node_deps \<Rightarrow> ('st \<Rightarrow> bool) \<Rightarrow> ('st, 'p::linorder) node_state \<Rightarrow> bool" where
  "node_inv N I n \<longleftrightarrow>
     chain_reach (rt_deps N) I (ns_chain n) \<and> peers_ok n \<and> within_capacity (ns_pool n) \<and>
     mp_max_capacity (ns_pool n) = None \<and> mp_block_limit (ns_pool n) = Some 3 \<and>
     block_number (rt_system (fst (ns_chain n))) \<noteq> 0"

lemma submit_limits [simp]:
  "mp_max_capacity (snd (submit e mp)) = mp_max_capacity mp"
  "mp_block_limit (snd (submit e mp)) = mp_block_limit mp"
  by (simp_all add: submit_def)

lemma retain_limits [simp]:
  "mp_max_capacity (retain f mp) = mp_max_capacity mp" "mp_block_limit (retain f mp) = mp_block_limit mp"
  by (simp_all add: retain_def)

lemma rest_pool_limits [simp]:
  "mp_max_capacity (rest_pool mp) = mp_max_capacity mp" "mp_block_limit (rest_pool mp) = mp_block_limit mp"
  by (simp_all add: rest_pool_def)

lemma genesis_block_number:
  "maybe_apply_genesis D ch = Some ch' \<Longrightarrow> block_number (rt_system (fst ch')) \<noteq> 0"
  using genesis_fresh [of ch D]
  by (cases "block_number (rt_system (fst ch)) = 0") (auto simp: maybe_apply_genesis_def)

lemma execute_block_nonzero:
  "execute_block D b ch = Some (r, ch') \<Longrightarrow> block_number (rt_system (fst ch')) \<noteq> 0"
  using execute_block_number [of D b ch r ch'] by auto

lemma node_start_inv:
  assumes "chain_reach (rt_deps N) I ch" and "node_start N my_id (snd ch) = Some n"
  shows "node_inv N I n"
proof -
  have "chain_reach (rt_deps N) I (runtime_new (rt_deps N) (snd ch), snd ch)"
    using assms(1) by (cases ch) (auto intro: chain_reach.restart)
  then show ?thesis
    using assms(2)
    by (auto simp: node_start_def node_inv_def peers_ok_def with_block_limit_def within_capacity_def
        split: option.splits intro: chain_reach.genesis dest: genesis_block_number)
qed

lemma node_inv_pool:
  "node_inv N I n \<Longrightarrow> within_capacity mp \<Longrightarrow> mp_max_capacity mp = None \<Longrightarrow> mp_block_limit mp = Some 3 \<Longrightarrow>
   execute_block (rt_deps N) b (ns_chain n) = Some (r, ch) \<Longrightarrow>
   node_inv N I (n\<lparr>ns_chain := ch, ns_pool := mp\<rparr>)"
  by (auto simp: node_inv_def peers_ok_def intro: chain_reach.block dest: execute_block_nonzero)

lemma node_inv_on_peer_block:
  assumes "node_inv N I n" and "on_peer_block N b n = Some n'"
  shows "node_inv N I n'"
proof -
  obtain r ch where ex: "execute_block (rt_deps N) b (ns_chain n) = Some (r, ch)"
    using assms(2) by (auto simp: on_peer_block_def Let_def split: option.splits)
  show ?thesis
  proof (cases r)
    case (Inl e)
    then show ?thesis
      using assms ex node_inv_pool [OF assms(1), of "ns_pool n" b r ch]
      by (auto simp: on_peer_block_def Let_def node_inv_def)
  next
    case (Inr u)
    then obtain f where n': "n' = n\<lparr>ns_chain := ch, ns_pool := retain f (ns_pool n)\<rparr>"
      using assms(2) ex by (auto simp: on_peer_block_def Let_def)
    show ?thesis
      unfolding n'
      using assms(1) by (intro node_inv_pool [OF assms(1) _ _ _ ex])
        (simp_all add: node_inv_def within_capacity_ops)
  qed
qed

lemma node_inv_on_slot:
  assumes "node_inv N I n" and "on_slot N now n = Some n'"
  shows "node_inv N I n'"
proof (cases "is_my_slot now (ns_my_id n) (ns_peers n) = Some True")
  case True
  then obtain ch pool reqs where pb: "produce_block N (ns_chain n, ns_pool n) = Some (ch, pool, reqs)"
    and n': "n' = n\<lparr>ns_ticked := False, ns_chain := ch, ns_pool := pool, ns_rx_pub := ns_rx_pub n @ reqs\<rparr>"
    using assms(2) by (auto simp: on_slot_def split: option.splits)
  obtain batch where "execute_block (rt_deps N) (next_block (ns_chain n) batch) (ns_chain n) = Some (Ok_unit, ch)"
    and "pool = rest_pool (ns_pool n)"
    using produce_block_SomeE [OF pb] by metis
  then show ?thesis
    using assms(1)
    by (auto simp: n' node_inv_def peers_ok_def within_capacity_def
        intro: chain_reach.block dest: execute_block_nonzero)
next
  case False
  then have "n' = n\<lparr>ns_ticked := False\<rparr>"
    using assms(2) by (auto simp: on_slot_def split: option.splits bool.splits)
  then show ?thesis
    using assms(1) by (simp add: node_inv_def peers_ok_def)
qed

lemma task_step_inv: "task_step N n n' \<Longrightarrow> node_inv N I n \<Longrightarrow> node_inv N I n'"
proof (induction rule: task_step.induct)
  case (recv_ext n e es)
  then show ?case
    by (simp add: node_inv_def peers_ok_def on_extrinsic_def within_capacity_submit)
next
  case (recv_blk n b bs n')
  have "node_inv N I (n\<lparr>ns_rx_blk := bs\<rparr>)"
    using recv_blk.prems by (simp add: node_inv_def peers_ok_def)
  then show ?case using recv_blk.hyps(3) by (rule node_inv_on_peer_block)
next
  case (slot n now n')
  then show ?case by (blast intro: node_inv_on_slot)
next
  case (disconnected peer n)
  then show ?case
    by (auto simp: node_inv_def peers_ok_def on_disconnected_def sorted_wrt_filter)
qed (simp_all add: node_inv_def peers_ok_def on_tick_def on_connected_def)

lemma node_step_inv: "node_step N n n' \<Longrightarrow> node_inv N I n \<Longrightarrow> node_inv N I n'"
proof (induction rule: node_step.induct)
  case (task n n')
  then show ?case by (rule task_step_inv)
qed (auto simp: node_inv_def peers_ok_def on_message_def on_publish_def on_rpc_submit_def
    submit_handler_def split: option.splits list.splits)

lemma node_reach_inv: "node_reach N I n \<Longrightarrow> node_inv N I n"
proof (induction rule: node_reach.induct)
  case (start ch my_id n)
  then show ?case by (rule node_start_inv)
next
  case (step n n')
  then show ?case by (blast intro: node_step_inv)
qed

lemma run_blocks_nonzero:
  "run_blocks D bs ch = Some ch' \<Longrightarrow> block_number (rt_system (fst ch)) \<noteq> 0 \<Longrightarrow>
   block_number (rt_system (fst ch')) \<noteq> 0"
  by (induction bs arbitrary: ch) (auto split: option.splits dest: execute_block_nonzero)

lemma run_blocks_reach: "chain_reach D I ch \<Longrightarrow> run_blocks D bs ch = Some ch' \<Longrightarrow> chain_reach D I ch'"
  by (induction bs arbitrary: ch) (auto split: option.splits dest: chain_reach.block)

section \<open>Maximal runs\<close>

lemma take_run_stops:
  "take_run oc n txs = Some run \<Longrightarrow>
   drop (length run) txs = [] \<or> ext_nonce (txs ! length run) \<noteq> n + word_of_nat (length run)"
proof (induction oc n txs arbitrary: run rule: take_run.induct)
  case (2 oc n tx txs)
  show ?case
  proof (cases "ext_nonce tx = n")
    case True
    then obtain rest where rest: "take_run oc (n + 1) txs = Some rest" and run: "run = tx # rest"
      using "2.prems" by (auto simp: plain_add_def split: if_splits option.splits)
    have "plain_add oc n 1 = Some (n + 1)"
      using True "2.prems" by (auto simp: plain_add_def split: if_splits option.splits)
    from "2.IH" [OF True this rest] show ?thesis
      by (auto simp: run algebra_simps)
  qed (use "2.prems" in simp)
qed simp

lemma take_run_all:
  "consec n txs \<Longrightarrow> unat n + length txs < 2 ^ 32 \<Longrightarrow> take_run oc n txs = Some txs"
proof (induction oc n txs rule: take_run.induct)
  case (2 oc n tx txs)
  have "plain_add oc n 1 = Some (n + 1)" and "unat (n + 1) = Suc (unat n)"
    using "2.prems" by (simp_all add: plain_add_def unat_word_ariths)
  with 2 show ?case by simp
qed simp

lemma take_run_stale:
  assumes "take_run oc n (sort_key ext_nonce txs) = Some run" and "e \<in> set txs" and "ext_nonce e < n"
  shows "run = []"
proof (cases "sort_key ext_nonce txs")
  case Nil
  then have "txs = []" by (metis length_0_conv length_sort)
  with assms(2) show ?thesis by simp
next
  case (Cons t ts)
  have "sorted (map ext_nonce (t # ts))"
    using sorted_sort_key [of ext_nonce txs] by (simp add: Cons)
  moreover have "e \<in> set (t # ts)"
    using assms(2) by (metis Cons set_sort)
  ultimately have "ext_nonce t < n"
    using assms(3) by auto
  then show ?thesis
    using assms(1) by (auto simp: Cons split: if_splits)
qed

lemma consec_append:
  "consec n (xs @ ys) \<longleftrightarrow> consec n xs \<and> consec (n + word_of_nat (length xs)) ys"
  by (induction n xs rule: consec.induct) (auto simp: algebra_simps)

lemma consec_bound:
  "consec n xs \<Longrightarrow> unat n + length xs < 2 ^ 32 \<Longrightarrow> e \<in> set xs \<Longrightarrow> unat (ext_nonce e) < unat n + length xs"
proof (induction n xs rule: consec.induct)
  case (2 n x xs)
  have "unat (n + 1) = Suc (unat n)"
    using "2.prems" by (simp add: unat_word_ariths)
  with 2 show ?case by auto
qed simp

lemma sort_key_snoc:
  assumes "\<And>x. x \<in> set xs \<Longrightarrow> f x \<le> f e"
  shows "sort_key f (xs @ [e]) = sort_key f xs @ [e]"
proof (rule properties_for_sort_key)
  show "mset (sort_key f xs @ [e]) = mset (xs @ [e])" by simp
  show "sorted (map f (sort_key f xs @ [e]))"
    using assms by (auto simp: sorted_append)
  show "filter (\<lambda>x. f k = f x) (sort_key f xs @ [e]) = filter (\<lambda>x. f k = f x) (xs @ [e])"
    if "k \<in> set (sort_key f xs @ [e])" for k
    using sort_key_stable [of f "f k" xs] by (simp add: eq_commute)
qed

section \<open>The RPC nonce\<close>

text \<open>The account of 32 raw bytes.\<close>

abbreviation account_of :: "bytes \<Rightarrow> AccountId32" where
  "account_of bs \<equiv> AccountId32 (arr32_of bs)"

lemma nonce_handler_value:
  assumes "n_hex_decode N hex = Inr bs" and "length bs = 32"
    and "unat (nonce (rt_system rt) (account_of bs)) + length (by_signer (account_of bs) (mp_pending pool)) < 2 ^ 32"
  shows "nonce_handler N rt pool hex =
    Some (Inr (u32_to_string (nonce (rt_system rt) (account_of bs) +
                              word_of_nat (length (by_signer (account_of bs) (mp_pending pool))))))"
proof -
  let ?k = "length (by_signer (account_of bs) (mp_pending pool))"
  have "unat (word_of_nat ?k :: u32) = ?k"
    using assms(3) by (simp add: unat_of_nat)
  then show ?thesis
    using assms by (simp add: nonce_handler_def Let_def pending_extrinsics_def by_signer_def plain_add_def)
qed

lemma node_start_chain:
  "node_start N my_id s = Some n \<Longrightarrow> maybe_apply_genesis (rt_deps N) (runtime_new (rt_deps N) s, s) = Some (ns_chain n)"
  by (auto simp: node_start_def split: option.splits)

end
