(* ===== verification/Debug_Format.thy ===== *)
theory Debug_Format
  imports Runtime Text_Format
begin

text \<open>
  \<open>Debug\<close> output. The builders of \<open>core::fmt\<close> (\<open>debug_struct\<close>, \<open>debug_map\<close> and the
  indenting writer of the alternate form \<open>{:#?}\<close>), the escaping of strings, the hand-written
  implementations of \<open>src/support.rs\<close> and the derived ones of the runtime and its pallets.
  Which non-ASCII characters are printed as they are is a table of the Unicode standard: the
  parameter \<open>pr\<close>. The flag \<open>alt\<close> is the alternate form.
\<close>

section \<open>The builders of the standard library\<close>

definition nl :: char where
  "nl = CHR 0x0A"

text \<open>\<open>PadAdapter\<close>: four spaces at the start of every line; the flag is \<open>on_newline\<close>.\<close>

fun pad_from :: "bool \<Rightarrow> string \<Rightarrow> string" where
  "pad_from on_newline [] = []"
| "pad_from on_newline (c # cs) = (if on_newline then ''    '' else []) @ c # pad_from (c = nl) cs"

definition pretty_fields :: "(string \<times> string) list \<Rightarrow> string" where
  "pretty_fields fs = concat (map (\<lambda>(k, v). pad_from True (k @ '': '' @ v @ '','' @ [nl])) fs)"

fun join_fields :: "(string \<times> string) list \<Rightarrow> string" where
  "join_fields [] = []"
| "join_fields [(k, v)] = k @ '': '' @ v"
| "join_fields ((k, v) # f # fs) = k @ '': '' @ v @ '', '' @ join_fields (f # fs)"

definition debug_struct :: "bool \<Rightarrow> string \<Rightarrow> (string \<times> string) list \<Rightarrow> string" where
  "debug_struct alt name fs =
     (if fs = [] then name
      else if alt then name @ '' {'' @ [nl] @ pretty_fields fs @ ''}''
      else name @ '' { '' @ join_fields fs @ '' }'')"

definition debug_map :: "bool \<Rightarrow> (string \<times> string) list \<Rightarrow> string" where
  "debug_map alt es =
     (if es = [] then ''{}''
      else if alt then ''{'' @ [nl] @ pretty_fields es @ ''}''
      else ''{'' @ join_fields es @ ''}'')"

text \<open>\<open>char::escape_debug\<close> as \<open>Debug for str\<close> uses it: single quotes are left alone.\<close>

fun hex_digits :: "nat \<Rightarrow> string" where
  "hex_digits n = (if n < 16 then [hex_digit n] else hex_digits (n div 16) @ [hex_digit (n mod 16)])"

declare hex_digits.simps [simp del]

definition printable :: "(nat \<Rightarrow> bool) \<Rightarrow> nat \<Rightarrow> bool" where
  "printable pr c \<longleftrightarrow> (if c < 0x80 then 0x20 \<le> c \<and> c < 0x7F else pr c)"

definition backslash :: char where
  "backslash = CHR 0x5C"

definition dquote :: char where
  "dquote = CHR 0x22"

definition escape_debug :: "(nat \<Rightarrow> bool) \<Rightarrow> nat \<Rightarrow> string" where
  "escape_debug pr c =
     (if c = 0 then [backslash, CHR ''0'']
      else if c = 9 then [backslash, CHR ''t'']
      else if c = 13 then [backslash, CHR ''r'']
      else if c = 10 then [backslash, CHR ''n'']
      else if c = 0x5C then [backslash, backslash]
      else if c = 0x22 then [backslash, dquote]
      else if printable pr c then utf8_encode c
      else [backslash, CHR ''u'', CHR ''{''] @ hex_digits c @ [CHR ''}''])"

definition str_debug :: "(nat \<Rightarrow> bool) \<Rightarrow> string \<Rightarrow> string" where
  "str_debug pr s = [dquote] @ concat (map (escape_debug pr) (chars s)) @ [dquote]"

section \<open>The implementations of the repository\<close>

text \<open>The character between the two halves, U+2026.\<close>

definition ellipsis :: string where
  "ellipsis = utf8_encode 0x2026"

text \<open>\<open>&hex[..8]\<close> and \<open>&hex[56..]\<close>: the hexadecimal form of 32 bytes is 64 characters long.\<close>

definition account_debug :: "AccountId32 \<Rightarrow> string" where
  "account_debug a =
     (let hex = hex_of (arr32_list (as_bytes a))
      in ''0x'' @ take 8 hex @ ellipsis @ drop 56 hex)"

definition ext_debug ::
  "(nat \<Rightarrow> bool) \<Rightarrow> bool \<Rightarrow> ('c \<Rightarrow> string) \<Rightarrow> 'c unchecked_extrinsic \<Rightarrow> string" where
  "ext_debug pr alt call_debug e =
     (let sig_hex = hex_of (arr64_list (ext_signature e))
      in debug_struct alt ''UncheckedExtrinsic''
           [(''signer'', account_debug (ext_signer e)),
            (''signature'', str_debug pr (''0x'' @ take 8 sig_hex @ ellipsis @ drop 120 sig_hex)),
            (''nonce'', u32_to_string (ext_nonce e)),
            (''call'', call_debug (ext_call e))])"

definition system_debug :: "bool \<Rightarrow> AccountId32 system_pallet \<Rightarrow> string" where
  "system_debug alt p =
     debug_struct alt ''Pallet''
       [(''block_number'', u32_to_string (sys_block_number p)),
        (''nonce'', debug_map alt (map (\<lambda>(a, n). (account_debug a, u32_to_string n)) (sys_nonce p)))]"

definition balances_debug :: "bool \<Rightarrow> AccountId32 balances_pallet \<Rightarrow> string" where
  "balances_debug alt p =
     debug_struct alt ''Pallet''
       [(''balances'', debug_map alt (map (\<lambda>(a, b). (account_debug a, dec_digits (unat b))) (bal_balances p)))]"

definition poe_debug :: "(nat \<Rightarrow> bool) \<Rightarrow> bool \<Rightarrow> (AccountId32, string) poe_pallet \<Rightarrow> string" where
  "poe_debug pr alt p =
     debug_struct alt ''Pallet''
       [(''claims'', debug_map alt (map (\<lambda>(c, a). (str_debug pr c, account_debug a)) (poe_claims p)))]"

definition runtime_debug :: "(nat \<Rightarrow> bool) \<Rightarrow> bool \<Rightarrow> runtime \<Rightarrow> string" where
  "runtime_debug pr alt rt =
     debug_struct alt ''Runtime''
       [(''system'', system_debug alt (rt_system rt)),
        (''balances'', balances_debug alt (rt_balances rt)),
        (''proof_of_existence'', poe_debug pr alt (rt_poe rt))]"

section \<open>Delimited text\<close>

lemma nl_neq [simp]: "nl \<noteq> CHR '' ''" "nl \<noteq> CHR ''}''" "CHR ''}'' \<noteq> nl" "CHR '' '' \<noteq> nl"
  by (simp_all add: nl_def)

text \<open>Text in complete lines.\<close>

definition whole_lines :: "bool \<Rightarrow> string \<Rightarrow> bool" where
  "whole_lines b s \<longleftrightarrow> (if s = [] then b else last s = nl)"

lemma pad_from_append:
  "pad_from b (s @ t) = pad_from b s @ pad_from (whole_lines b s) t"
  by (induction b s rule: pad_from.induct) (auto simp: whole_lines_def)

text \<open>An indented block ends at the first brace in the first column, whatever it contains.\<close>

lemma pad_block_inject:
  "whole_lines b s \<Longrightarrow> whole_lines b s' \<Longrightarrow>
   pad_from b s @ CHR ''}'' # r = pad_from b s' @ CHR ''}'' # r' \<Longrightarrow> s = s' \<and> r = r'"
proof (induction b s arbitrary: s' rule: pad_from.induct)
  case (1 b)
  then show ?case by (cases s') (auto simp: whole_lines_def)
next
  case (2 b c cs)
  obtain c' cs' where s': "s' = c' # cs'"
    using "2.prems"(2,3) by (cases s') (simp_all add: whole_lines_def)
  have c: "c' = c" and tl: "pad_from (c = nl) cs @ CHR ''}'' # r = pad_from (c = nl) cs' @ CHR ''}'' # r'"
    using "2.prems"(3) by (cases b; auto simp: s')+
  have "whole_lines (c = nl) cs" "whole_lines (c = nl) cs'"
    using "2.prems"(1,2) by (simp_all add: s' c whole_lines_def split: if_splits)
  from "2.IH" [OF this tl] show ?case by (simp add: s' c)
qed

definition entries :: "(string \<times> string) list \<Rightarrow> string" where
  "entries fs = concat (map (\<lambda>(k, v). k @ '': '' @ v @ '','' @ [nl]) fs)"

lemma entries_Cons [simp]: "entries [] = []" "entries ((k, v) # fs) = k @ '': '' @ v @ '','' @ [nl] @ entries fs"
  by (simp_all add: entries_def)

lemma whole_lines_entries: "whole_lines True (entries fs)"
proof (induction fs)
  case (Cons f fs)
  then show ?case by (cases f) (auto simp: whole_lines_def)
qed (simp add: whole_lines_def)

lemma pretty_fields_entries: "pretty_fields fs = pad_from True (entries fs)"
proof (induction fs)
  case (Cons f fs)
  obtain k v where f: "f = (k, v)" by (cases f)
  have "pad_from True (entries (f # fs)) = pad_from True ((k @ '': '' @ v @ '','' @ [nl]) @ entries fs)"
    by (simp add: f)
  also have "\<dots> = pad_from True (k @ '': '' @ v @ '','' @ [nl]) @ pad_from True (entries fs)"
    by (subst pad_from_append) (simp add: whole_lines_def)
  finally show ?case using Cons by (simp add: f pretty_fields_def)
qed (simp add: pretty_fields_def)

lemma debug_struct_inject:
  assumes "fs \<noteq> []" and "fs' \<noteq> []" and "debug_struct True name fs @ r = debug_struct True name fs' @ r'"
  shows "entries fs = entries fs' \<and> r = r'"
  using assms pad_block_inject [OF whole_lines_entries whole_lines_entries, of fs r fs' r']
  by (simp add: debug_struct_def pretty_fields_entries)

lemma debug_map_inject:
  assumes "debug_map True es @ r = debug_map True es' @ r'"
  shows "entries es = entries es' \<and> r = r'"
  using assms pad_block_inject [OF whole_lines_entries whole_lines_entries, of es r es' r']
  by (auto simp: debug_map_def pretty_fields_entries split: if_splits)

lemma terminator_inject:
  "x \<notin> set a \<Longrightarrow> x \<notin> set b \<Longrightarrow> a @ x # r = b @ x # s \<longleftrightarrow> a = b \<and> r = s"
proof (induction a arbitrary: b)
  case Nil
  then show ?case by (cases b) auto
next
  case (Cons y a)
  then show ?case by (cases b) auto
qed

lemma number_inject: "dec_digits m @ CHR '','' # r = dec_digits n @ CHR '','' # s \<longleftrightarrow> m = n \<and> r = s"
proof -
  have "CHR '','' \<notin> set (dec_digits k)" for k using digit_plain(5) by blast
  then show ?thesis by (simp add: terminator_inject)
qed

section \<open>Escaped strings can be read back\<close>

lemma hex_digits_value: "foldl (\<lambda>a c. 16 * a + the (hex_value c)) 0 (hex_digits n) = n"
proof (induction n rule: hex_digits.induct)
  case (1 n)
  then show ?case by (subst hex_digits.simps) auto
qed

lemma hex_digits_set: "c \<in> set (hex_digits n) \<Longrightarrow> hex_value c \<noteq> None"
proof (induction n rule: hex_digits.induct)
  case (1 n)
  then show ?case by (subst (asm) (2) hex_digits.simps) (auto split: if_splits)
qed

lemma hex_digits_inject: "hex_digits m @ CHR ''}'' # r = hex_digits n @ CHR ''}'' # s \<longleftrightarrow> m = n \<and> r = s"
proof -
  have "hex_value (CHR ''}'') = None" by (simp add: hex_value_def)
  then have "CHR ''}'' \<notin> set (hex_digits k)" for k using hex_digits_set by blast
  then show ?thesis using hex_digits_value by (metis terminator_inject)
qed

text \<open>The four kinds of escape, by their first characters.\<close>

lemma char_of_eq: "n < 256 \<Longrightarrow> char_of n = x \<longleftrightarrow> n = (of_char x :: nat)"
  by (metis char_of_char of_char_of_nat)

lemma utf8_encode_head:
  assumes "c < 0x110000" and "c \<noteq> 0x5C"
  shows "\<exists>x r. utf8_encode c = x # r \<and> x \<noteq> CHR 0x5C \<and> (x = CHR 0x22 \<longrightarrow> c = 0x22)"
proof (cases "c < 0x80")
  case True
  then have "char_of c \<noteq> CHR 0x5C \<and> (char_of c = CHR 0x22 \<longrightarrow> c = 0x22)"
    using assms(2) by (simp add: char_of_eq)
  moreover have "utf8_encode c = [char_of c]" using True by (simp add: utf8_encode_def)
  ultimately show ?thesis by blast
next
  case False
  have *: "char_of n \<noteq> CHR 0x5C \<and> char_of n \<noteq> CHR 0x22" if "0xC0 \<le> n" "n < 256" for n :: nat
    using that by (simp add: char_of_eq)
  have "c div 64 < 32" if "c < 0x800" using that by (intro less_mult_imp_div_less) simp
  moreover have "c div 4096 < 16" if "c < 0x10000" using that by (intro less_mult_imp_div_less) simp
  moreover have "c div 262144 < 5" using assms(1) by (intro less_mult_imp_div_less) simp
  ultimately show ?thesis
    using False * [of "0xC0 + c div 64"] * [of "0xE0 + c div 4096"] * [of "0xF0 + c div 262144"]
    by (auto simp: utf8_encode_def)
qed

lemma escape_debug_cases:
  assumes "c < 0x110000"
  obtains (literal) x r where "escape_debug pr c = utf8_encode c" "utf8_encode c = x # r"
      "x \<noteq> backslash" "x \<noteq> dquote"
  | (short) x where "escape_debug pr c = [backslash, x]" "x \<noteq> CHR ''u''"
      "(c, x) \<in> {(0, CHR ''0''), (9, CHR ''t''), (13, CHR ''r''), (10, CHR ''n''), (0x5C, backslash), (0x22, dquote)}"
  | (code) "escape_debug pr c = [backslash, CHR ''u'', CHR ''{''] @ hex_digits c @ [CHR ''}'']"
proof -
  consider "c \<in> {0, 9, 13, 10, 0x5C, 0x22}" | "c \<notin> {0, 9, 13, 10, 0x5C, 0x22}" "printable pr c"
    | "c \<notin> {0, 9, 13, 10, 0x5C, 0x22}" "\<not> printable pr c" by blast
  then show thesis
  proof cases
    case 1
    then show thesis using short by (auto simp: escape_debug_def backslash_def dquote_def)
  next
    case 2
    then show thesis
      using literal utf8_encode_head [OF assms] by (auto simp: escape_debug_def backslash_def dquote_def)
  next
    case 3
    then show thesis using code by (simp add: escape_debug_def)
  qed
qed

lemma escape_debug_head: "c < 0x110000 \<Longrightarrow> escape_debug pr c @ r \<noteq> dquote # s"
  by (cases rule: escape_debug_cases [of c pr]) (auto simp: backslash_def dquote_def)

lemma escape_debug_inject:
  assumes "c < 0x110000" and "d < 0x110000" and "escape_debug pr c @ r = escape_debug pr d @ s"
  shows "c = d \<and> r = s"
  using assms(1)
proof (cases rule: escape_debug_cases [where pr = pr])
  case c: (literal x t)
  from assms(2) show ?thesis
    by (cases rule: escape_debug_cases [where pr = pr])
      (use assms c utf8_encode_inject [of c d r s] in auto)
next
  case c: (short x)
  from assms(2) show ?thesis
    by (cases rule: escape_debug_cases [where pr = pr])
      (use assms(3) c in \<open>auto simp: backslash_def dquote_def\<close>)
next
  case c: code
  from assms(2) show ?thesis
    by (cases rule: escape_debug_cases [where pr = pr])
      (use assms(3) c hex_digits_inject [of c r d s] in auto)
qed

lemma escapes_inject:
  "code_points cs \<Longrightarrow> code_points ds \<Longrightarrow>
   concat (map (escape_debug pr) cs) @ dquote # r = concat (map (escape_debug pr) ds) @ dquote # s \<Longrightarrow>
   cs = ds \<and> r = s"
proof (induction cs arbitrary: ds)
  case Nil
  then show ?case
    by (cases ds) (auto simp: code_points_def escape_debug_head [symmetric])
next
  case (Cons c cs)
  obtain d ds' where ds: "ds = d # ds'"
    using Cons.prems escape_debug_head [of c pr] by (cases ds) (auto simp: code_points_def)
  have "c = d \<and> concat (map (escape_debug pr) cs) @ dquote # r = concat (map (escape_debug pr) ds') @ dquote # s"
    using Cons.prems by (intro escape_debug_inject [where pr = pr]) (auto simp: ds code_points_def)
  with Cons show ?case by (auto simp: ds code_points_def)
qed

section \<open>What the dump of the runtime shows\<close>

text \<open>What is printed of an account: its first and its last four bytes.\<close>

definition account_ends :: "AccountId32 \<Rightarrow> bytes \<times> bytes" where
  "account_ends a = (take 4 (arr32_list (as_bytes a)), drop 28 (arr32_list (as_bytes a)))"

lemma take_hex_of: "take (2 * n) (hex_of bs) = hex_of (take n bs)"
proof (induction bs arbitrary: n)
  case (Cons b bs)
  from Cons [of "n - 1"] show ?case by (cases n) (simp_all add: hex_of_def hex_byte_def)
qed (simp add: hex_of_def)

lemma drop_hex_of: "drop (2 * n) (hex_of bs) = hex_of (drop n bs)"
proof (induction bs arbitrary: n)
  case (Cons b bs)
  from Cons [of "n - 1"] show ?case by (cases n) (simp_all add: hex_of_def hex_byte_def)
qed (simp add: hex_of_def)

lemma hex_of_inject [simp]: "hex_of a = hex_of b \<longleftrightarrow> a = b"
  by (metis option.inject unhex_hex_of)

lemma account_debug_alt:
  "account_debug a = ''0x'' @ hex_of (fst (account_ends a)) @ ellipsis @ hex_of (snd (account_ends a))"
  using take_hex_of [of 4 "arr32_list (as_bytes a)"] drop_hex_of [of 28 "arr32_list (as_bytes a)"]
  by (simp add: account_debug_def account_ends_def Let_def)

lemma length_account_ends [simp]: "length (fst (account_ends a)) = 4" "length (snd (account_ends a)) = 4"
  by (simp_all add: account_ends_def)

lemma account_debug_inject:
  "account_debug a @ r = account_debug b @ s \<longleftrightarrow> account_ends a = account_ends b \<and> r = s"
  by (auto simp: account_debug_alt prod_eq_iff)

lemma lines_inject:
  assumes "\<And>x y r s. x \<in> A \<Longrightarrow> y \<in> A \<Longrightarrow> f x @ r = f y @ s \<Longrightarrow> g x = g y \<and> r = s"
    and "\<And>x. f x \<noteq> []"
  shows "set xs \<subseteq> A \<Longrightarrow> set ys \<subseteq> A \<Longrightarrow> concat (map f xs) = concat (map f ys) \<Longrightarrow> map g xs = map g ys"
proof (induction xs arbitrary: ys)
  case Nil
  then show ?case using assms(2) by (cases ys) auto
next
  case (Cons x xs)
  then obtain y ys' where ys: "ys = y # ys'"
    using assms(2) by (cases ys) auto
  have "g x = g y \<and> concat (map f xs) = concat (map f ys')"
    using Cons.prems by (intro assms(1)) (auto simp: ys)
  with Cons show ?case by (simp add: ys)
qed

lemma entries_map:
  "entries (map (\<lambda>(x, y). (k x, v y)) m) = concat (map (\<lambda>(x, y). k x @ '': '' @ v y @ '','' @ [nl]) m)"
  by (induction m) auto

lemma number_entries_inject:
  assumes "entries (map (\<lambda>(a, n). (account_debug a, dec_digits (h n))) m) =
           entries (map (\<lambda>(a, n). (account_debug a, dec_digits (h n))) m')"
  shows "map (\<lambda>(a, n). (account_ends a, h n)) m = map (\<lambda>(a, n). (account_ends a, h n)) m'"
proof (rule lines_inject [where A = UNIV])
  let ?f = "\<lambda>(a, n). account_debug a @ '': '' @ dec_digits (h n) @ '','' @ [nl]"
  show "concat (map ?f m) = concat (map ?f m')"
    using assms by (simp add: entries_map)
  fix x y r s
  show "(case x of (a, n) \<Rightarrow> (account_ends a, h n)) = (case y of (a, n) \<Rightarrow> (account_ends a, h n)) \<and> r = s"
    if "?f x @ r = ?f y @ s"
    using that by (auto simp: account_debug_inject number_inject split: prod.splits)
qed auto

lemma str_debug_inject:
  "code_points (chars s) \<Longrightarrow> code_points (chars t) \<Longrightarrow>
   str_debug pr s @ r = str_debug pr t @ r' \<Longrightarrow> chars s = chars t \<and> r = r'"
  using escapes_inject [of "chars s" "chars t" pr r r'] by (simp add: str_debug_def)

lemma claim_entries_inject:
  assumes "entries (map (\<lambda>(c, a). (str_debug pr c, account_debug a)) m) =
           entries (map (\<lambda>(c, a). (str_debug pr c, account_debug a)) m')"
    and "\<forall>c \<in> fst ` set m \<union> fst ` set m'. valid_utf8 c"
  shows "map (\<lambda>(c, a). (c, account_ends a)) m = map (\<lambda>(c, a). (c, account_ends a)) m'"
proof (rule lines_inject [where A = "{x. valid_utf8 (fst x)}"])
  let ?f = "\<lambda>(c, a). str_debug pr c @ '': '' @ account_debug a @ '','' @ [nl]"
  show "concat (map ?f m) = concat (map ?f m')"
    using assms by (simp add: entries_map)
  show "set m \<subseteq> {x. valid_utf8 (fst x)}" "set m' \<subseteq> {x. valid_utf8 (fst x)}"
    using assms(2) by auto
  fix x y r s
  assume "?f x @ r = ?f y @ s" and valid: "x \<in> {x. valid_utf8 (fst x)}" "y \<in> {x. valid_utf8 (fst x)}"
  then have "chars (fst x) = chars (fst y) \<and>
      '': '' @ account_debug (snd x) @ '','' @ [nl] @ r = '': '' @ account_debug (snd y) @ '','' @ [nl] @ s"
    by (intro str_debug_inject [where pr = pr]) (auto simp: valid_utf8_def split: prod.splits)
  then show "(case x of (c, a) \<Rightarrow> (c, account_ends a)) = (case y of (c, a) \<Rightarrow> (c, account_ends a)) \<and> r = s"
    using valid valid_utf8_inject [of "fst x" "fst y"] by (auto simp: account_debug_inject split: prod.splits)
qed (auto simp: str_debug_def)

text \<open>What a reader of the dump sees of each pallet.\<close>

definition system_view :: "AccountId32 system_pallet \<Rightarrow> u32 \<times> ((bytes \<times> bytes) \<times> nat) list" where
  "system_view p = (sys_block_number p, map (\<lambda>(a, n). (account_ends a, unat n)) (sys_nonce p))"

definition balances_view :: "AccountId32 balances_pallet \<Rightarrow> ((bytes \<times> bytes) \<times> nat) list" where
  "balances_view p = map (\<lambda>(a, b). (account_ends a, unat b)) (bal_balances p)"

definition claims_view :: "(AccountId32, string) poe_pallet \<Rightarrow> (string \<times> bytes \<times> bytes) list" where
  "claims_view p = map (\<lambda>(c, a). (c, account_ends a)) (poe_claims p)"

lemma account_debug_view: "account_ends a = account_ends b \<Longrightarrow> account_debug a = account_debug b"
  by (simp add: account_debug_alt)

lemma map_view_cong:
  assumes "map g xs = map g ys" and "\<And>x y. g x = g y \<Longrightarrow> f x = f y"
  shows "map f xs = map f ys"
  using assms(1)
proof (induction xs arbitrary: ys)
  case (Cons x xs)
  then obtain y ys' where ys: "ys = y # ys'" and "g x = g y" and "map g xs = map g ys'"
    by (auto simp: Cons_eq_map_conv)
  then show ?case using Cons.IH assms(2) [of x y] by simp
qed simp

lemma system_debug_view:
  assumes "system_view p = system_view q"
  shows "system_debug alt p = system_debug alt q"
proof -
  have "map (\<lambda>(a, n). (account_ends a, unat n)) (sys_nonce p) = map (\<lambda>(a, n). (account_ends a, unat n)) (sys_nonce q)"
    using assms by (simp add: system_view_def)
  then have "map (\<lambda>(a, n). (account_debug a, u32_to_string n)) (sys_nonce p) =
        map (\<lambda>(a, n). (account_debug a, u32_to_string n)) (sys_nonce q)"
    by (rule map_view_cong) (auto simp: u32_to_string_def intro: account_debug_view)
  then show ?thesis using assms by (simp add: system_debug_def system_view_def)
qed

lemma balances_debug_view:
  assumes "balances_view p = balances_view q"
  shows "balances_debug alt p = balances_debug alt q"
proof -
  have "map (\<lambda>(a, b). (account_debug a, dec_digits (unat b))) (bal_balances p) =
        map (\<lambda>(a, b). (account_debug a, dec_digits (unat b))) (bal_balances q)"
    by (rule map_view_cong [of "\<lambda>(a, b). (account_ends a, unat b)"])
      (use assms in \<open>auto simp: balances_view_def intro: account_debug_view\<close>)
  then show ?thesis by (simp add: balances_debug_def)
qed

lemma poe_debug_view:
  assumes "claims_view p = claims_view q"
  shows "poe_debug pr alt p = poe_debug pr alt q"
proof -
  have "map (\<lambda>(c, a). (str_debug pr c, account_debug a)) (poe_claims p) =
        map (\<lambda>(c, a). (str_debug pr c, account_debug a)) (poe_claims q)"
    by (rule map_view_cong [of "\<lambda>(c, a). (c, account_ends a)"])
      (use assms in \<open>auto simp: claims_view_def intro: account_debug_view\<close>)
  then show ?thesis by (simp add: poe_debug_def)
qed

lemma system_debug_inject:
  assumes "system_debug True p @ r = system_debug True q @ s"
  shows "system_view p = system_view q \<and> r = s"
proof -
  have e: "u32_to_string (sys_block_number p) @ CHR '','' # nl # ''nonce: '' @
      debug_map True (map (\<lambda>(a, n). (account_debug a, u32_to_string n)) (sys_nonce p)) @ '','' @ [nl] =
    u32_to_string (sys_block_number q) @ CHR '','' # nl # ''nonce: '' @
      debug_map True (map (\<lambda>(a, n). (account_debug a, u32_to_string n)) (sys_nonce q)) @ '','' @ [nl]"
    and rs: "r = s"
    using debug_struct_inject [OF _ _ assms [unfolded system_debug_def]] by simp_all
  have n: "sys_block_number p = sys_block_number q" and
    m: "debug_map True (map (\<lambda>(a, n). (account_debug a, u32_to_string n)) (sys_nonce p)) @ '','' @ [nl] =
        debug_map True (map (\<lambda>(a, n). (account_debug a, u32_to_string n)) (sys_nonce q)) @ '','' @ [nl]"
    using e by (auto simp: u32_to_string_def number_inject dest: unsigned_word_eqI)
  have "entries (map (\<lambda>(a, n). (account_debug a, dec_digits (unat n))) (sys_nonce p)) =
        entries (map (\<lambda>(a, n). (account_debug a, dec_digits (unat n))) (sys_nonce q))"
    using debug_map_inject [OF m] by (simp add: u32_to_string_def)
  from number_entries_inject [OF this] n rs show ?thesis by (simp add: system_view_def)
qed

lemma balances_debug_inject:
  assumes "balances_debug True p @ r = balances_debug True q @ s"
  shows "balances_view p = balances_view q \<and> r = s"
proof -
  have m: "debug_map True (map (\<lambda>(a, b). (account_debug a, dec_digits (unat b))) (bal_balances p)) @ '','' @ [nl] =
      debug_map True (map (\<lambda>(a, b). (account_debug a, dec_digits (unat b))) (bal_balances q)) @ '','' @ [nl]"
    and rs: "r = s"
    using debug_struct_inject [OF _ _ assms [unfolded balances_debug_def]] by simp_all
  from number_entries_inject [OF conjunct1 [OF debug_map_inject [OF m]]] rs show ?thesis
    by (simp add: balances_view_def)
qed

lemma poe_debug_inject:
  assumes "poe_debug pr True p @ r = poe_debug pr True q @ s"
    and "\<forall>c \<in> fst ` set (poe_claims p) \<union> fst ` set (poe_claims q). valid_utf8 c"
  shows "claims_view p = claims_view q \<and> r = s"
proof -
  have m: "debug_map True (map (\<lambda>(c, a). (str_debug pr c, account_debug a)) (poe_claims p)) @ '','' @ [nl] =
      debug_map True (map (\<lambda>(c, a). (str_debug pr c, account_debug a)) (poe_claims q)) @ '','' @ [nl]"
    and rs: "r = s"
    using debug_struct_inject [OF _ _ assms(1) [unfolded poe_debug_def]] by simp_all
  from claim_entries_inject [OF conjunct1 [OF debug_map_inject [OF m]] assms(2)] rs show ?thesis
    by (simp add: claims_view_def)
qed

lemma runtime_debug_iff:
  assumes "\<forall>c \<in> fst ` set (poe_claims (rt_poe rt)) \<union> fst ` set (poe_claims (rt_poe rt')). valid_utf8 c"
  shows "runtime_debug pr True rt = runtime_debug pr True rt' \<longleftrightarrow>
    system_view (rt_system rt) = system_view (rt_system rt') \<and>
    balances_view (rt_balances rt) = balances_view (rt_balances rt') \<and>
    claims_view (rt_poe rt) = claims_view (rt_poe rt')" (is "?l \<longleftrightarrow> ?r")
proof
  assume ?l
  then have "runtime_debug pr True rt @ [] = runtime_debug pr True rt' @ []" by simp
  from debug_struct_inject [OF _ _ this [unfolded runtime_debug_def]] show ?r
    using poe_debug_inject [of pr "rt_poe rt" "[]" "rt_poe rt'" "[]", OF _ assms]
    by (auto dest!: system_debug_inject balances_debug_inject)
next
  assume ?r
  then show ?l
    using system_debug_view [of "rt_system rt" "rt_system rt'" True]
      balances_debug_view [of "rt_balances rt" "rt_balances rt'" True]
      poe_debug_view [of "rt_poe rt" "rt_poe rt'" pr True]
    by (simp add: runtime_debug_def)
qed

text \<open>The lines that \<open>state\<close> prints for a runtime that holds nothing.\<close>

definition empty_dump :: string where
  "empty_dump = concat (map (\<lambda>l. l @ [nl])
     [''Runtime {'',
      ''    system: Pallet {'',
      ''        block_number: 0,'',
      ''        nonce: {},'',
      ''    },'',
      ''    balances: Pallet {'',
      ''        balances: {},'',
      ''    },'',
      ''    proof_of_existence: Pallet {'',
      ''        claims: {},'',
      ''    },'']) @ ''}''"

lemma runtime_debug_empty:
  assumes "sys_block_number (rt_system rt) = 0" "sys_nonce (rt_system rt) = []" "bal_balances (rt_balances rt) = []"
    "poe_claims (rt_poe rt) = []"
  shows "runtime_debug pr True rt = empty_dump"
proof -
  have zero: "u32_to_string 0 = ''0''"
    by (simp add: u32_to_string_def dec_digits.simps dec_digit_def char_of_def bit_simps)
  show ?thesis
    by (simp add: empty_dump_def runtime_debug_def system_debug_def balances_debug_def poe_debug_def debug_struct_def debug_map_def
        assms zero pretty_fields_def nl_def)
qed

end
