(* ===== verification/Server.thy ===== *)
theory Server
  imports Node_Facts Debug_Format
begin

text \<open>
  The set-up of a node and its RPC server: \<open>build_swarm\<close> of \<open>src/network.rs\<close>, the part of
  \<open>run\<close> in \<open>src/node.rs\<close> before the event loops, the alignment of the ticker, and
  \<open>start_rpc_server\<close> with the \<open>/state\<close> handler. The swarm of libp2p and the path matcher of
  axum are parameters.
\<close>

section \<open>The swarm\<close>

datatype validation_mode = Strict | Permissive | Anonymous | No_Validation

datatype authenticity = Signed | Author | Random_Author | Anonymous_Author

record swarm_config =
  sc_heartbeat_secs :: nat
  sc_validation_mode :: validation_mode
  sc_authenticity :: authenticity
  sc_idle_timeout_secs :: nat

text \<open>
  The calls on libp2p: each may fail with an error. \<open>lp_listen\<close> takes the text of the address,
  which it parses.
\<close>

record ('sw, 'p, 'addr) libp2p =
  lp_build :: "swarm_config \<Rightarrow> string + 'sw"
  lp_local_peer_id :: "'sw \<Rightarrow> 'p"
  lp_subscribe :: "'sw \<Rightarrow> string \<Rightarrow> string + 'sw"
  lp_listen :: "'sw \<Rightarrow> string \<Rightarrow> string + 'sw"
  lp_dial :: "'sw \<Rightarrow> 'addr \<Rightarrow> string + 'sw"

definition build_swarm :: "('sw, 'p, 'addr) libp2p \<Rightarrow> string + 'sw" where
  "build_swarm L =
     lp_build L \<lparr>sc_heartbeat_secs = 10, sc_validation_mode = Strict, sc_authenticity = Signed,
                 sc_idle_timeout_secs = 60\<rparr>"

text \<open>The operator \<open>?\<close>: the first error is returned.\<close>

definition try_then :: "'e + 'a \<Rightarrow> ('a \<Rightarrow> 'e + 'b) \<Rightarrow> 'e + 'b" where
  "try_then r f = (case r of Inl e \<Rightarrow> Inl e | Inr x \<Rightarrow> f x)"

definition listen_addr :: "16 word \<Rightarrow> string" where
  "listen_addr port = ''/ip4/0.0.0.0/tcp/'' @ dec_digits (unat port)"

definition rpc_addr :: "16 word \<Rightarrow> string" where
  "rpc_addr rpc_port = ''0.0.0.0:'' @ dec_digits (unat rpc_port)"

text \<open>
  \<open>run\<close> up to the spawning of the tasks. The runtime is loaded and the genesis applied before
  the first network call, so the store is returned in every case; \<open>None\<close> is a panic. The last
  component is the address the RPC server is started on, if any.
\<close>

definition run_setup ::
  "('st, 'sk, 'vk) node_deps \<Rightarrow> ('sw, 'p, 'addr) libp2p \<Rightarrow> 16 word \<Rightarrow> 'addr option \<Rightarrow> 16 word option \<Rightarrow> 'st \<Rightarrow>
   ((string + 'sw \<times> ('st, 'p) node_state \<times> string option) \<times> 'st) option" where
  "run_setup N L port dial_addr rpc_port s =
     (case maybe_apply_genesis (rt_deps N) (runtime_new (rt_deps N) s, s) of
        None \<Rightarrow> None
      | Some ch \<Rightarrow>
         Some (try_then (build_swarm L) (\<lambda>sw.
                 let my_peer_id = lp_local_peer_id L sw
                 in try_then (lp_subscribe L sw extrinsic_topic) (\<lambda>sw.
                    try_then (lp_subscribe L sw block_topic) (\<lambda>sw.
                    try_then (lp_listen L sw (listen_addr port)) (\<lambda>sw.
                    try_then (case dial_addr of None \<Rightarrow> Inr sw | Some addr \<Rightarrow> lp_dial L sw addr) (\<lambda>sw.
                      Inr (sw,
                           \<lparr>ns_my_id = my_peer_id, ns_chain = ch, ns_pool = with_block_limit 3,
                            ns_peers = [my_peer_id], ns_rx_ext = [], ns_rx_blk = [], ns_rx_pub = [],
                            ns_out = [], ns_ticked = False\<rparr>,
                           map_option rpc_addr rpc_port)))))),
               snd ch))"

section \<open>The ticker\<close>

definition secs_until_next :: "u64 \<Rightarrow> u64" where
  "secs_until_next now_secs = SLOT_SECS - now_secs mod SLOT_SECS"

text \<open>\<open>interval_at\<close>: the first tick after the wait, the others one slot apart.\<close>

definition tick_at :: "u64 \<Rightarrow> nat \<Rightarrow> u64" where
  "tick_at started k = started + secs_until_next started + word_of_nat k * SLOT_SECS"

section \<open>The RPC server\<close>

definition state_handler :: "(nat \<Rightarrow> bool) \<Rightarrow> runtime \<Rightarrow> string" where
  "state_handler pr rt = runtime_debug pr True rt"

datatype http_method = GET | POST

record http_request =
  rq_method :: http_method
  rq_path :: string
  rq_body :: bytes

text \<open>\<open>Unrouted\<close>: no route has this path and method, so axum answers by itself.\<close>

datatype rpc_reply = Reply nat string | Unrouted

record ('st, 'sk, 'vk) server_deps = "('st, 'sk, 'vk) node_deps" +
  s_match :: "string \<Rightarrow> string \<Rightarrow> string option"
  s_scale_error :: "bytes \<Rightarrow> string"
  s_printable :: "nat \<Rightarrow> bool"

abbreviation node_of :: "('st, 'sk, 'vk) server_deps \<Rightarrow> ('st, 'sk, 'vk) node_deps" where
  "node_of S \<equiv> node_deps.truncate S"

text \<open>
  The routes of \<open>start_rpc_server\<close>; \<open>s_match pattern path\<close> is the text captured from a path
  that matches. \<open>None\<close> is a panic of the handler.
\<close>

definition serve_rpc ::
  "('st, 'sk, 'vk) server_deps \<Rightarrow> http_request \<Rightarrow> ('st, 'p) node_state \<Rightarrow>
   (rpc_reply \<times> ('st, 'p) node_state) option" where
  "serve_rpc S rq n =
     (if s_match S ''/submit'' (rq_path rq) \<noteq> None \<and> rq_method rq = POST then
        (case submit_handler (node_of S) (rq_body rq) of
           (ACCEPTED, _, _) \<Rightarrow> Some (Reply 202 '''', on_rpc_submit (node_of S) (rq_body rq) n)
         | (BAD_REQUEST, _, _) \<Rightarrow>
            Some (Reply 400 (''SCALE decode failed: '' @ s_scale_error S (rq_body rq)),
                  on_rpc_submit (node_of S) (rq_body rq) n))
      else if s_match S ''/nonce/:account'' (rq_path rq) \<noteq> None \<and> rq_method rq = GET then
        (case nonce_handler (node_of S) (fst (ns_chain n)) (ns_pool n)
                (the (s_match S ''/nonce/:account'' (rq_path rq))) of
           None \<Rightarrow> None
         | Some (Inl e) \<Rightarrow> Some (Reply 400 e, n)
         | Some (Inr body) \<Rightarrow> Some (Reply 200 body, n))
      else if s_match S ''/state'' (rq_path rq) \<noteq> None \<and> rq_method rq = GET then
        Some (Reply 200 (state_handler (s_printable S) (fst (ns_chain n))), n)
      else Some (Unrouted, n))"

text \<open>
  What axum documents of its patterns, for the paths the clients use: a literal pattern
  matches itself only, \<open>:account\<close> matches and captures one segment.
\<close>

definition routes_ok :: "(string \<Rightarrow> string \<Rightarrow> string option) \<Rightarrow> bool" where
  "routes_ok m \<longleftrightarrow>
     (\<forall>path. m ''/submit'' path \<noteq> None \<longleftrightarrow> path = ''/submit'') \<and>
     (\<forall>path. m ''/state'' path \<noteq> None \<longleftrightarrow> path = ''/state'') \<and>
     (\<forall>path seg. m ''/nonce/:account'' path = Some seg \<longleftrightarrow>
        path = ''/nonce/'' @ seg \<and> seg \<noteq> [] \<and> CHR ''/'' \<notin> set seg)"

text \<open>
  What an HTTP client gets from the server at \<open>url\<close>: the body of a reply below 400, an error
  for every other one.
\<close>

definition served_get ::
  "('st, 'sk, 'vk) server_deps \<Rightarrow> ('st, 'p) node_state \<Rightarrow> string \<Rightarrow> string \<Rightarrow> string + string" where
  "served_get S n url u =
     (if prefix url u then
        (case serve_rpc S \<lparr>rq_method = GET, rq_path = drop (length url) u, rq_body = []\<rparr> n of
           Some (Reply code body, _) \<Rightarrow> if code < 400 then Inr body else Inl body
         | _ \<Rightarrow> Inl ''no reply'')
      else Inl ''no route to host'')"

section \<open>Facts\<close>

lemma node_of_simps [simp]:
  "d_kv (node_of S) = d_kv S" "d_codecs (node_of S) = d_codecs S" "d_ed25519 (node_of S) = d_ed25519 S"
  "d_payload (node_of S) = d_payload S" "n_ext (node_of S) = n_ext S" "n_block (node_of S) = n_block S"
  "n_topic_hash (node_of S) = n_topic_hash S" "n_hex_decode (node_of S) = n_hex_decode S"
  "n_overflow_checks (node_of S) = n_overflow_checks S" "n_hash_order (node_of S) = n_hash_order S"
  "deps.truncate (node_of S) = deps.truncate S"
  by (simp_all add: node_deps.truncate_def deps.truncate_def)

lemma routes_okD:
  assumes "routes_ok m"
  shows "m ''/submit'' path \<noteq> None \<longleftrightarrow> path = ''/submit''"
    and "m ''/nonce/:account'' path = Some seg \<longleftrightarrow> path = ''/nonce/'' @ seg \<and> seg \<noteq> [] \<and> CHR ''/'' \<notin> set seg"
    and "m ''/state'' path \<noteq> None \<longleftrightarrow> path = ''/state''"
  using assms [unfolded routes_ok_def, THEN conjunct1] assms [unfolded routes_ok_def, THEN conjunct2, THEN conjunct1]
    assms [unfolded routes_ok_def, THEN conjunct2, THEN conjunct2] by metis+

lemma serve_nonce:
  assumes "routes_ok (s_match S)" and "seg \<noteq> []" and "CHR ''/'' \<notin> set seg"
  shows "serve_rpc S \<lparr>rq_method = GET, rq_path = ''/nonce/'' @ seg, rq_body = bs\<rparr> n =
    (case nonce_handler (node_of S) (fst (ns_chain n)) (ns_pool n) seg of
       None \<Rightarrow> None | Some (Inl e) \<Rightarrow> Some (Reply 400 e, n) | Some (Inr body) \<Rightarrow> Some (Reply 200 body, n))"
proof -
  have "''/nonce/'' @ seg \<noteq> ''/submit''" by simp
  then have "s_match S ''/submit'' (''/nonce/'' @ seg) = None"
    using routes_okD(1) [OF assms(1), of "''/nonce/'' @ seg"] by blast
  moreover have "s_match S ''/nonce/:account'' (''/nonce/'' @ seg) = Some seg"
    using routes_okD(2) [OF assms(1)] assms(2,3) by blast
  ultimately show ?thesis by (simp add: serve_rpc_def)
qed

lemma serve_submit:
  assumes "routes_ok (s_match S)"
  shows "serve_rpc S \<lparr>rq_method = POST, rq_path = ''/submit'', rq_body = bs\<rparr> n =
    Some (if decode (n_ext S) bs = None then Reply 400 (''SCALE decode failed: '' @ s_scale_error S bs) else Reply 202 '''',
          on_rpc_submit (node_of S) bs n)"
  using assms by (auto simp: serve_rpc_def routes_ok_def submit_handler_def split: option.splits)

lemma try_then_simps [simp]: "try_then (Inl e) f = Inl e" "try_then (Inr x) f = f x"
  by (simp_all add: try_then_def)

lemma try_then_Inr: "try_then r f = Inr y \<longleftrightarrow> (\<exists>x. r = Inr x \<and> f x = Inr y)"
  by (cases r) auto

lemma serve_state:
  assumes "routes_ok (s_match S)"
  shows "serve_rpc S \<lparr>rq_method = GET, rq_path = ''/state'', rq_body = bs\<rparr> n =
    Some (Reply 200 (state_handler (s_printable S) (fst (ns_chain n))), n)"
proof -
  have "s_match S ''/submit'' ''/state'' = None"
    using routes_okD(1) [OF assms, of "''/state''"] by simp
  moreover have "s_match S ''/nonce/:account'' ''/state'' = None"
    using routes_okD(2) [OF assms, of "''/state''"] by (cases "s_match S ''/nonce/:account'' ''/state''") auto
  moreover have "s_match S ''/state'' ''/state'' \<noteq> None"
    using routes_okD(3) [OF assms, of "''/state''"] by simp
  ultimately show ?thesis by (auto simp: serve_rpc_def)
qed

text \<open>A set-up that succeeds starts the node of \<open>node_start\<close>.\<close>

lemma run_setup_node:
  assumes "run_setup N L port dial rpc s = Some (Inr (sw, n, addr), s')"
  shows "node_start N (ns_my_id n) s = Some n \<and> s' = snd (ns_chain n) \<and> addr = map_option rpc_addr rpc"
  using assms
  by (auto simp: run_setup_def node_start_def Let_def try_then_Inr split: option.splits)

lemma run_setup_store:
  "run_setup N L port dial rpc s = Some (r, s') \<Longrightarrow>
   \<exists>rt. maybe_apply_genesis (rt_deps N) (runtime_new (rt_deps N) s, s) = Some (rt, s')"
  by (auto simp: run_setup_def split: option.splits)

lemma tick_slot:
  assumes "unat started + 20 * (k + 1) < 2 ^ 64"
  shows "unat (current_slot (tick_at started k)) = unat (current_slot started) + Suc k"
    and "unat (tick_at started k) mod 20 = 0"
proof -
  let ?m = "unat started mod 20"
  have slot: "unat SLOT_SECS = 20" by (simp add: SLOT_SECS_def)
  have until: "unat (secs_until_next started) = 20 - ?m"
  proof -
    have "unat (started mod SLOT_SECS) = ?m" by (simp add: unat_mod_distrib slot)
    moreover have "started mod SLOT_SECS \<le> SLOT_SECS"
      by (simp add: word_le_nat_alt unat_mod_distrib slot order.strict_implies_order)
    ultimately show ?thesis
      by (simp add: secs_until_next_def unat_sub slot)
  qed
  have small: "unat started + (20 - ?m) + k * 20 < 2 ^ 64"
  proof -
    have "unat started + (20 - ?m) + k * 20 \<le> unat started + 20 * (k + 1)" by simp
    then show ?thesis using assms by (rule le_less_trans)
  qed
  have "unat (word_of_nat k * SLOT_SECS :: u64) = k * 20"
    using small by (simp add: unat_word_ariths slot unat_of_nat)
  then have at: "unat (tick_at started k) = unat started + (20 - ?m) + k * 20"
    using small by (simp add: tick_at_def unat_word_ariths until)
  have "n + (20 - n mod 20) = (n div 20 + 1) * 20" for n :: nat
    by presburger
  then have "unat started + (20 - ?m) = (unat started div 20 + 1) * 20" .
  then have eq: "unat (tick_at started k) = (unat started div 20 + 1 + k) * 20"
    unfolding at by simp
  show "unat (current_slot (tick_at started k)) = unat (current_slot started) + Suc k"
    by (simp add: current_slot_def unat_div_distrib slot eq)
  show "unat (tick_at started k) mod 20 = 0"
    by (simp add: eq)
qed

end
