(* ===== verification/Ledger_Spec.thy ===== *)
theory Ledger_Spec
  imports Block_Execution
begin

text \<open>
  What the runtime promises, without words, maps, stores or codecs: a ledger of natural
  numbers and functions. The runtime refines it: the ledger of the runtime after a block is
  the block's effect on the ledger before.
\<close>

record ledger =
  lg_height :: nat
  lg_nonce :: "AccountId32 \<Rightarrow> nat"
  lg_balance :: "AccountId32 \<Rightarrow> nat"
  lg_claim :: "string \<rightharpoonup> AccountId32"

fun ledger_call :: "AccountId32 \<Rightarrow> RuntimeCall \<Rightarrow> ledger \<Rightarrow> ledger" where
  "ledger_call a (RC_balances (Call_transfer to amount)) l =
     (if unat amount \<le> lg_balance l a \<and> lg_balance l to + unat amount < 2 ^ 128
      then l\<lparr>lg_balance := (lg_balance l)(a := lg_balance l a - unat amount, to := lg_balance l to + unat amount)\<rparr>
      else l)"
| "ledger_call a (RC_proof_of_existence (Call_create_claim c)) l =
     (if lg_claim l c = None then l\<lparr>lg_claim := (lg_claim l)(c \<mapsto> a)\<rparr> else l)"
| "ledger_call a (RC_proof_of_existence (Call_revoke_claim c)) l =
     (if lg_claim l c = Some a then l\<lparr>lg_claim := (lg_claim l)(c := None)\<rparr> else l)"

text \<open>\<open>ok\<close> says which extrinsics verify.\<close>

definition ledger_ext :: "(ext \<Rightarrow> bool) \<Rightarrow> ext \<Rightarrow> ledger \<Rightarrow> ledger" where
  "ledger_ext ok e l =
     (if ok e \<and> lg_nonce l (ext_signer e) = unat (ext_nonce e)
      then ledger_call (ext_signer e) (ext_call e)
             (l\<lparr>lg_nonce := (lg_nonce l)(ext_signer e := Suc (lg_nonce l (ext_signer e)))\<rparr>)
      else l)"

definition ledger_block :: "(ext \<Rightarrow> bool) \<Rightarrow> runtime_block \<Rightarrow> ledger \<Rightarrow> ledger" where
  "ledger_block ok b l =
     (let l1 = l\<lparr>lg_height := Suc (lg_height l)\<rparr>
      in if unat (hd_block_number (blk_header b)) = lg_height l1 then fold (ledger_ext ok) (blk_extrinsics b) l1
         else l1)"

definition ledger_of :: "runtime \<Rightarrow> ledger" where
  "ledger_of rt =
     \<lparr>lg_height = unat (block_number (rt_system rt)), lg_nonce = (\<lambda>a. unat (nonce (rt_system rt) a)),
      lg_balance = (\<lambda>a. unat (balance (rt_balances rt) a)), lg_claim = get_claim (rt_poe rt)\<rparr>"

definition verified :: "('st, 'sk, 'vk) deps \<Rightarrow> ext \<Rightarrow> bool" where
  "verified D e \<longleftrightarrow> verify (d_ed25519 D) (d_payload D) e = Ok_unit"

lemma ledger_of_simps [simp]:
  "lg_height (ledger_of rt) = unat (block_number (rt_system rt))"
  "lg_nonce (ledger_of rt) a = unat (nonce (rt_system rt) a)"
  "lg_balance (ledger_of rt) a = unat (balance (rt_balances rt) a)"
  "lg_claim (ledger_of rt) = get_claim (rt_poe rt)"
  by (simp_all add: ledger_of_def)

lemma ledger_eqI:
  assumes "lg_height l = lg_height l'" and "\<And>a. lg_nonce l a = lg_nonce l' a"
    and "\<And>a. lg_balance l a = lg_balance l' a" and "lg_claim l = lg_claim l'"
  shows "(l :: ledger) = l'"
  using assms by (simp add: fun_eq_iff)

text \<open>A call of the runtime is the call of the ledger; the runtime with its nonces replaced.\<close>

lemma dispatch_refines:
  assumes "runtime_wf (fst ch)" and "runtime_dispatch D caller call ch = Some (r, ch')"
  shows "ledger_of (fst ch') = ledger_call caller call (ledger_of (fst ch))"
proof (cases call rule: RuntimeCall_cases)
  case (transfer to amount)
  let ?ps = "(rt_balances (fst ch), snd ch)"
  let ?t = "Balances_Pallet.transfer (d_kv D) (c_account (d_codecs D)) (c_u128 (d_codecs D)) caller to amount ?ps"
  show ?thesis
  proof (cases rule: transfer_cases [of "d_kv D" "c_account (d_codecs D)" "c_u128 (d_codecs D)" caller to amount ?ps])
    case ok
    have "unat (balance (rt_balances (fst ch)) to + amount) = unat (balance (rt_balances (fst ch)) to) + unat amount"
      using ok(3) by (simp add: unat_word_ariths)
    moreover have "unat (balance (rt_balances (fst ch)) caller - amount) =
        unat (balance (rt_balances (fst ch)) caller) - unat amount"
      using ok(2) by (simp add: unat_sub word_le_nat_alt)
    moreover have tr: "?t = (Inr (), (rt_balances (fst ch'), snd ch'))"
      using assms(2) ok(1) transfer by (auto split: prod.splits)
    note transfer_ok_balance [OF tr]
    ultimately show ?thesis
      using assms(2) ok transfer runtime_dispatch_system [OF assms(2)]
      by (intro ledger_eqI) (auto split: prod.splits simp: \<open>\<And>a. balance (fst (rt_balances (fst ch'), snd ch')) a = _\<close>)
  qed (use assms(2) transfer in \<open>auto split: prod.splits\<close>)
next
  case (create claim)
  have "poe_wf (fst (rt_poe (fst ch), snd ch))"
    using assms(1) by (simp add: runtime_wf_def)
  then show ?thesis
    using assms(2) create
    by (cases rule: create_claim_cases [of "(rt_poe (fst ch), snd ch)" claim "d_kv D"
          "c_content (d_codecs D)" "c_account (d_codecs D)" caller])
      (auto intro!: ledger_eqI)
next
  case (revoke claim)
  show ?thesis
    using assms(2) revoke
    by (cases rule: revoke_claim_cases [of "(rt_poe (fst ch), snd ch)" claim "d_kv D" "c_content (d_codecs D)" caller])
      (auto intro!: ledger_eqI)
qed

lemma on_system_inc_nonce:
  assumes "on_system (inc_nonce K ca cu a) ch = Some ch1"
  shows "ledger_of (fst ch1) =
           (ledger_of (fst ch))\<lparr>lg_nonce := (lg_nonce (ledger_of (fst ch)))(a := Suc (nonce_of ch a))\<rparr>"
proof -
  obtain p s where inc: "inc_nonce K ca cu a (rt_system (fst ch), snd ch) = Some (p, s)"
    and ch1: "ch1 = ((fst ch)\<lparr>rt_system := p\<rparr>, s)"
    using on_system_SomeD [OF assms] by blast
  show ?thesis
    using inc_nonce_SomeD [OF inc] by (intro ledger_eqI) (simp_all add: ch1)
qed

lemma apply_extrinsic_refines:
  assumes "runtime_wf (fst ch)" and "apply_extrinsic D (e, v) ch = Some ch'"
  shows "ledger_of (fst ch') = ledger_ext (\<lambda>_. v = Ok_unit) e (ledger_of (fst ch))"
proof (cases "admissible (e, v) (fst ch)")
  case False
  then show ?thesis
    using assms by (auto simp: apply_extrinsic_skip ledger_ext_def admissible_def unsigned_word_eqI)
next
  case True
  then obtain ch1 r where
    inc: "on_system (inc_nonce (d_kv D) (c_account (d_codecs D)) (c_u32 (d_codecs D)) (ext_signer e)) ch = Some ch1"
    and dis: "runtime_dispatch D (ext_signer e) (ext_call e) ch1 = Some (r, ch')"
    using assms(2) by (auto simp: apply_extrinsic_admissible split: option.splits)
  have "runtime_wf (fst ch1)"
    using inc assms(1)
    by (auto simp: on_system_def inc_nonce_def Let_def runtime_wf_def split: option.splits)
  then show ?thesis
    using True dispatch_refines [OF _ dis] on_system_inc_nonce [OF inc]
    by (simp add: ledger_ext_def admissible_def)
qed

lemma apply_extrinsics_refines:
  "runtime_wf (fst ch) \<Longrightarrow> apply_extrinsics D (map (\<lambda>e. (e, verify (d_ed25519 D) (d_payload D) e)) xs) ch = Some ch' \<Longrightarrow>
   ledger_of (fst ch') = fold (ledger_ext (verified D)) xs (ledger_of (fst ch))"
proof (induction xs arbitrary: ch)
  case (Cons e xs)
  then obtain ch1 where one: "apply_extrinsic D (e, verify (d_ed25519 D) (d_payload D) e) ch = Some ch1"
    and rest: "apply_extrinsics D (map (\<lambda>e. (e, verify (d_ed25519 D) (d_payload D) e)) xs) ch1 = Some ch'"
    by (auto split: option.splits)
  have "ledger_of (fst ch1) = ledger_ext (verified D) e (ledger_of (fst ch))"
    using apply_extrinsic_refines [OF Cons.prems(1) one] by (simp add: ledger_ext_def verified_def)
  with Cons.IH [OF apply_extrinsic_wf [OF one Cons.prems(1)] rest] show ?case by simp
qed simp

lemma ledger_of_bumped:
  "unat (block_number (rt_system (fst ch)) + 1) = Suc (unat (block_number (rt_system (fst ch)))) \<Longrightarrow>
   ledger_of (fst (bumped D ch)) = (ledger_of (fst ch))\<lparr>lg_height := Suc (lg_height (ledger_of (fst ch)))\<rparr>"
  by (intro ledger_eqI) simp_all

lemma execute_block_refines:
  assumes "runtime_wf (fst ch)" and "execute_block D b ch = Some (r, ch')"
  shows "ledger_of (fst ch') = ledger_block (verified D) b (ledger_of (fst ch))"
proof -
  have suc: "unat (block_number (rt_system (fst ch)) + 1) = Suc (unat (block_number (rt_system (fst ch))))"
    using assms(2) by (cases rule: execute_block_cases [of ch D b]) auto
  have num: "hd_block_number (blk_header b) = block_number (rt_system (fst ch)) + 1 \<longleftrightarrow>
      unat (hd_block_number (blk_header b)) = Suc (unat (block_number (rt_system (fst ch))))"
    unfolding suc [symmetric] by (metis unsigned_word_eqI)
  from assms(2) show ?thesis
  proof (cases rule: execute_block_SomeE)
    case bad_header
    then show ?thesis
      using num by (simp add: ledger_block_def Let_def ledger_of_bumped [OF suc])
  next
    case run
    then have "ledger_of (fst ch') = fold (ledger_ext (verified D)) (blk_extrinsics b) (ledger_of (fst (bumped D ch)))"
      using apply_extrinsics_refines [of "bumped D ch" D "blk_extrinsics b"] assms(1) by (simp add: results_alt)
    then show ?thesis
      using run(1) num by (simp add: ledger_block_def Let_def ledger_of_bumped [OF suc])
  qed
qed

lemma run_blocks_refines:
  "runtime_wf (fst ch) \<Longrightarrow> run_blocks D bs ch = Some ch' \<Longrightarrow>
   ledger_of (fst ch') = fold (ledger_block (verified D)) bs (ledger_of (fst ch))"
proof (induction bs arbitrary: ch)
  case (Cons b bs)
  then obtain r ch1 where b: "execute_block D b ch = Some (r, ch1)" and bs: "run_blocks D bs ch1 = Some ch'"
    by (auto split: option.splits)
  with Cons.IH [OF execute_block_wf [OF b Cons.prems(1)] bs] execute_block_refines [OF Cons.prems(1) b]
  show ?case by simp
qed simp

end
