(* ===== verification/Cli.thy ===== *)
theory Cli
  imports Server Ledger_Spec
begin

text \<open>
  The command line of \<open>src/main.rs\<close>: the five commands and the demo scenario. With a node
  URL a submission asks the node for the nonce, signs and posts the extrinsic; without one it
  runs a block on a runtime loaded from the local database. The HTTP client is a parameter:
  \<open>get\<close> is the body of a response or an error. The argument parser is not modelled: a command
  is a value of \<open>Commands\<close>. \<open>None\<close> is a panic.
\<close>

section \<open>Submissions\<close>

datatype 'st cli_outcome = Posted string bytes | Ran dispatch_result "'st chain"

definition remote_submit ::
  "('st, 'sk, 'vk) node_deps \<Rightarrow> (string \<Rightarrow> string + string) \<Rightarrow> string \<Rightarrow> AccountKeyring \<Rightarrow> RuntimeCall \<Rightarrow>
   'st cli_outcome option" where
  "remote_submit N get url kr call =
     (let signer_pub = public (d_ed25519 N) kr;
          account_hex = hex_of (arr32_list (as_bytes signer_pub))
      in case get (url @ ''/nonce/'' @ account_hex) of
           Inl _ \<Rightarrow> None
         | Inr body \<Rightarrow>
            (case parse_u32 (trim body) of
               None \<Rightarrow> None
             | Some n \<Rightarrow>
                (let e = new_signed (d_ed25519 N) (d_payload N) (signing_key (d_ed25519 N) kr) n call
                 in Some (Posted (url @ ''/submit'') (encode (n_ext N) e)))))"

definition local_submit ::
  "('st, 'sk, 'vk) node_deps \<Rightarrow> AccountKeyring \<Rightarrow> RuntimeCall \<Rightarrow> 'st chain \<Rightarrow> 'st cli_outcome option" where
  "local_submit N kr call ch =
     (let signer_pub = public (d_ed25519 N) kr;
          n = nonce (rt_system (fst ch)) signer_pub;
          e = new_signed (d_ed25519 N) (d_payload N) (signing_key (d_ed25519 N) kr) n call
      in case checked_add (block_number (rt_system (fst ch))) 1 of
           None \<Rightarrow> None
         | Some next_block_number \<Rightarrow>
            (case execute_block (rt_deps N)
                    \<lparr>blk_header = \<lparr>hd_block_number = next_block_number\<rparr>, blk_extrinsics = [e]\<rparr> ch of
               None \<Rightarrow> None
             | Some (r, ch') \<Rightarrow> Some (Ran r ch')))"

text \<open>\<open>db\<close> is the database \<open>Runtime::new\<close> opens; \<open>None\<close> if opening it panics.\<close>

definition submit_transfer ::
  "('st, 'sk, 'vk) node_deps \<Rightarrow> (string \<Rightarrow> string + string) \<Rightarrow> string \<Rightarrow> string \<Rightarrow> u128 \<Rightarrow> string option \<Rightarrow>
   'st option \<Rightarrow> 'st cli_outcome option" where
  "submit_transfer N get from to amount node db =
     (case from_name from of
        None \<Rightarrow> None
      | Some from_kr \<Rightarrow>
         (case from_name to of
            None \<Rightarrow> None
          | Some to_kr \<Rightarrow>
             (let call = RC_balances (Call_transfer (public (d_ed25519 N) to_kr) amount)
              in case node of
                   Some url \<Rightarrow> remote_submit N get url from_kr call
                 | None \<Rightarrow>
                    (case db of
                       None \<Rightarrow> None
                     | Some s \<Rightarrow>
                        (case plain_mul (n_overflow_checks N) amount 10 of
                           None \<Rightarrow> None
                         | Some b \<Rightarrow>
                            local_submit N from_kr call
                              (on_balances (set_balance (d_kv N) (c_account (d_codecs N)) (c_u128 (d_codecs N))
                                              (public (d_ed25519 N) from_kr) b)
                                 (runtime_new (rt_deps N) s, s)))))))"

definition submit_claim ::
  "('st, 'sk, 'vk) node_deps \<Rightarrow> (string \<Rightarrow> string + string) \<Rightarrow> string \<Rightarrow> string \<Rightarrow> string option \<Rightarrow> 'st option \<Rightarrow>
   'st cli_outcome option" where
  "submit_claim N get account claim node db =
     (case from_name account of
        None \<Rightarrow> None
      | Some kr \<Rightarrow>
         (let call = RC_proof_of_existence (Call_create_claim claim)
          in case node of
               Some url \<Rightarrow> remote_submit N get url kr call
             | None \<Rightarrow>
                (case db of
                   None \<Rightarrow> None
                 | Some s \<Rightarrow> local_submit N kr call (runtime_new (rt_deps N) s, s))))"

text \<open>What the commands print.\<close>

datatype console = Stdout string | Stderr string

datatype post_result = Post_ok nat | Post_status nat string | Post_error string

definition post_report :: "post_result \<Rightarrow> console" where
  "post_report res =
     (case res of
        Post_ok code \<Rightarrow> Stdout (''Submitted (HTTP '' @ dec_digits code @ '')'')
      | Post_status code body \<Rightarrow> Stderr (''Server error '' @ dec_digits code @ '': '' @ body)
      | Post_error e \<Rightarrow> Stderr (''Connection error: '' @ e))"

definition run_report :: "(nat \<Rightarrow> bool) \<Rightarrow> dispatch_result \<Rightarrow> runtime \<Rightarrow> console" where
  "run_report pr r rt =
     (case r of
        Inr _ \<Rightarrow> Stdout (runtime_debug pr True rt)
      | Inl e \<Rightarrow> Stderr (''Execution error: '' @ e))"

section \<open>The commands\<close>

datatype Commands =
    Start (start_port: "16 word") (start_peer: "string option") (start_rpc_port: "16 word option")
      (start_db_path: "string option")
  | State (state_db_path: "string option")
  | Reset (reset_db_path: "string option")
  | SubmitTransfer string string u128 "string option"
  | SubmitClaim string string "string option"

text \<open>
  The world of a process: the databases by their path, and what is outside the repository.
  \<open>h_open\<close> is \<open>DB::open\<close> with \<open>create_if_missing\<close>, given what the path holds; \<open>h_remove\<close> is
  \<open>remove_dir_all\<close>, with what it leaves behind.
\<close>

type_synonym 'st disk = "string \<rightharpoonup> 'st"

record ('st, 'sw, 'p, 'addr) host_env =
  h_open :: "string \<Rightarrow> 'st option \<Rightarrow> string + 'st"
  h_remove :: "string \<Rightarrow> 'st \<Rightarrow> (string + unit) \<times> 'st option"
  h_get :: "string \<Rightarrow> string + string"
  h_post :: "string \<Rightarrow> bytes \<Rightarrow> post_result"
  h_multiaddr :: "string \<Rightarrow> 'addr option"
  h_libp2p :: "('sw, 'p, 'addr) libp2p"

datatype ('st, 'sw, 'p) main_exit =
    Finished "console list"
  | Failed string
  | Running 'sw "('st, 'p) node_state" "string option"

definition set_db_path :: "string option \<Rightarrow> db_cells option" where
  "set_db_path path = (case path of None \<Rightarrow> Some fresh_cells | Some p \<Rightarrow> init_db_path p fresh_cells)"

text \<open>The first use of the database: it is opened at the path the cell holds.\<close>

definition open_db :: "('st, 'sw, 'p, 'addr) host_env \<Rightarrow> db_cells \<Rightarrow> 'st disk \<Rightarrow> (string \<times> 'st) option" where
  "open_db H cells fs =
     (case ROCKS_DB (force_rocks_db cells) of
        None \<Rightarrow> None
      | Some path \<Rightarrow> (case h_open H path (fs path) of Inl _ \<Rightarrow> None | Inr s \<Rightarrow> Some (path, s)))"

definition finish_submit ::
  "('st, 'sk, 'vk) server_deps \<Rightarrow> ('st, 'sw, 'p, 'addr) host_env \<Rightarrow> string \<Rightarrow> 'st disk \<Rightarrow> 'st cli_outcome option \<Rightarrow>
   (('st, 'sw, 'p) main_exit \<times> 'st disk) option" where
  "finish_submit S H path fs res =
     (case res of
        None \<Rightarrow> None
      | Some (Posted url bytes) \<Rightarrow> Some (Finished [post_report (h_post H url bytes)], fs)
      | Some (Ran r ch) \<Rightarrow> Some (Finished [run_report (s_printable S) r (fst ch)], fs(path \<mapsto> snd ch)))"

definition quoted :: "string \<Rightarrow> string" where
  "quoted path = [CHR 0x27] @ path @ [CHR 0x27]"

definition reset_at ::
  "('st, 'sw, 'p, 'addr) host_env \<Rightarrow> string \<Rightarrow> 'st disk \<Rightarrow> console list \<times> 'st disk" where
  "reset_at H path fs =
     (case fs path of
        None \<Rightarrow>
          ([Stdout (''Nothing to reset '' @ utf8_encode 0x2014 @ '' '' @ quoted path @ '' does not exist'')], fs)
      | Some s \<Rightarrow>
          (case h_remove H path s of
             (Inl e, left) \<Rightarrow>
               ([Stderr (''failed to delete '' @ quoted path @ '': '' @ e), Stdout (''Reset: deleted '' @ quoted path)],
                fs(path := left))
           | (Inr _, left) \<Rightarrow> ([Stdout (''Reset: deleted '' @ quoted path)], fs(path := left))))"

text \<open>
  \<open>main\<close>. \<open>Failed\<close> is the panic of \<open>unwrap\<close> on an error of \<open>run\<close>, which leaves the database
  behind; any other panic is \<open>None\<close>.
\<close>

definition cli_main ::
  "('st, 'sk, 'vk) server_deps \<Rightarrow> ('st, 'sw, 'p, 'addr) host_env \<Rightarrow> Commands \<Rightarrow> 'st disk \<Rightarrow>
   (('st, 'sw, 'p) main_exit \<times> 'st disk) option" where
  "cli_main S H cmd fs =
     (case cmd of
        Start port peer rpc_port path \<Rightarrow>
          (case set_db_path path of
             None \<Rightarrow> None
           | Some cells \<Rightarrow>
              (case (case peer of None \<Rightarrow> Some None | Some a \<Rightarrow> map_option Some (h_multiaddr H a)) of
                 None \<Rightarrow> None
               | Some dial_addr \<Rightarrow>
                  (case open_db H cells fs of
                     None \<Rightarrow> None
                   | Some (db, s) \<Rightarrow>
                      (case run_setup (node_of S) (h_libp2p H) port dial_addr rpc_port s of
                         None \<Rightarrow> None
                       | Some (Inl e, s') \<Rightarrow> Some (Failed e, fs(db \<mapsto> s'))
                       | Some (Inr (sw, n, addr), s') \<Rightarrow> Some (Running sw n addr, fs(db \<mapsto> s'))))))
      | State path \<Rightarrow>
          (case set_db_path path of
             None \<Rightarrow> None
           | Some cells \<Rightarrow>
              (case open_db H cells fs of
                 None \<Rightarrow> None
               | Some (db, s) \<Rightarrow>
                  Some (Finished [Stdout (runtime_debug (s_printable S) True (runtime_new (deps.truncate S) s))],
                        fs(db \<mapsto> s))))
      | Reset path \<Rightarrow>
          (case reset_at H (case path of None \<Rightarrow> ''state.db'' | Some p \<Rightarrow> p) fs of
             (out, fs') \<Rightarrow> Some (Finished out, fs'))
      | SubmitTransfer from to amount node \<Rightarrow>
          finish_submit S H ''state.db'' fs
            (submit_transfer (node_of S) (h_get H) from to amount node (map_option snd (open_db H fresh_cells fs)))
      | SubmitClaim account claim node \<Rightarrow>
          finish_submit S H ''state.db'' fs
            (submit_claim (node_of S) (h_get H) account claim node (map_option snd (open_db H fresh_cells fs))))"

section \<open>The demo\<close>

definition demo_block_5 :: "('st, 'sk, 'vk) deps \<Rightarrow> runtime_block" where
  "demo_block_5 D =
     (let charlie = public (d_ed25519 D) Charlie; alice = public (d_ed25519 D) Alice;
          signed = (\<lambda>kr n call. new_signed (d_ed25519 D) (d_payload D) (signing_key (d_ed25519 D) kr) n call);
          transfer = (\<lambda>to amount. RC_balances (Call_transfer to amount));
          revoke = (\<lambda>c. RC_proof_of_existence (Call_revoke_claim c))
      in \<lparr>blk_header = \<lparr>hd_block_number = 5\<rparr>, blk_extrinsics =
           [signed Alice 4 (transfer charlie 3), signed Alice 5 (revoke ''Non-existent claim''),
            signed Charlie 3 (revoke ''Patent for my invention''),
            signed Bob 4 (revoke ''Patent for my invention''), signed Bob 5 (transfer alice 15)]\<rparr>)"

definition demo_blocks :: "('st, 'sk, 'vk) deps \<Rightarrow> runtime_block list" where
  "demo_blocks D =
     (let alice = public (d_ed25519 D) Alice; bob = public (d_ed25519 D) Bob; charlie = public (d_ed25519 D) Charlie;
          signed = (\<lambda>kr n call. new_signed (d_ed25519 D) (d_payload D) (signing_key (d_ed25519 D) kr) n call);
          transfer = (\<lambda>to amount. RC_balances (Call_transfer to amount));
          create = (\<lambda>c. RC_proof_of_existence (Call_create_claim c));
          revoke = (\<lambda>c. RC_proof_of_existence (Call_revoke_claim c));
          blk = (\<lambda>n xs. \<lparr>blk_header = \<lparr>hd_block_number = n\<rparr>, blk_extrinsics = xs\<rparr>)
      in [blk 1 [signed Alice 0 (transfer bob 70), signed Alice 1 (transfer charlie 20),
                 signed Bob 0 (transfer charlie 30)],
          blk 2 [signed Charlie 0 (transfer alice 40)],
          blk 3 [signed Alice 2 (create ''My first document''), signed Bob 1 (transfer alice 5),
                 signed Bob 2 (create ''Patent for my invention''), signed Charlie 1 (create ''Copyright on my work'')],
          blk 4 [signed Charlie 2 (transfer bob 10), signed Bob 3 (create ''My first document''),
                 signed Alice 3 (revoke ''My first document'')],
          demo_block_5 D])"

definition demo_pool :: "('st, 'sk, 'vk) deps \<Rightarrow> ext mempool" where
  "demo_pool D =
     (let signed = (\<lambda>kr n call. new_signed (d_ed25519 D) (d_payload D) (signing_key (d_ed25519 D) kr) n call)
      in snd (submit (signed Bob 6 (RC_balances (Call_transfer (public (d_ed25519 D) Charlie) 2)))
           (snd (submit (signed Alice 6 (RC_balances (Call_transfer (public (d_ed25519 D) Bob) 1))) mempool_new))))"

text \<open>The block drawn from the mempool; its result is only logged.\<close>

definition demo_mempool_block :: "('st, 'sk, 'vk) deps \<Rightarrow> 'st chain \<Rightarrow> 'st chain option" where
  "demo_mempool_block D ch =
     (let batch = fst (drain_for_block 2 (demo_pool D))
      in case checked_add (block_number (rt_system (fst ch))) 1 of
           None \<Rightarrow> None
         | Some n \<Rightarrow>
            map_option snd (execute_block D \<lparr>blk_header = \<lparr>hd_block_number = n\<rparr>, blk_extrinsics = batch\<rparr> ch))"

definition run_demo :: "('st, 'sk, 'vk) deps \<Rightarrow> 'st \<Rightarrow> 'st chain option" where
  "run_demo D s =
     (let ch = on_balances (set_balance (d_kv D) (c_account (d_codecs D)) (c_u128 (d_codecs D))
                              (public (d_ed25519 D) Alice) 100) (runtime_new D s, s)
      in case run_blocks D (demo_blocks D) ch of
           None \<Rightarrow> None
         | Some ch5 \<Rightarrow> demo_mempool_block D ch5)"

section \<open>Facts\<close>

lemma runtime_new_wf [simp]: "runtime_wf (runtime_new D s)"
  by (simp add: runtime_new_def runtime_wf_def Let_def system_new_def balances_new_def balances_wf_def)

lemma on_balances_set_simps [simp]:
  "rt_system (fst (on_balances (set_balance K ca cb who b) ch)) = rt_system (fst ch)"
  "rt_poe (fst (on_balances (set_balance K ca cb who b) ch)) = rt_poe (fst ch)"
  "runtime_wf (fst ch) \<Longrightarrow> runtime_wf (fst (on_balances (set_balance K ca cb who b) ch))"
  "balance (rt_balances (fst (on_balances (set_balance K ca cb who b) ch))) a =
     (if a = who then b else balance (rt_balances (fst ch)) a)"
  by (simp_all add: on_balances_alt runtime_wf_def balances_wf_set_balance)

lemma new_signed_simps [simp]:
  "ext_signer (new_signed E enc (signing_key E kr) n call) = public E kr"
  "ext_nonce (new_signed E enc sk n call) = n" "ext_call (new_signed E enc sk n call) = call"
  by (simp_all add: new_signed_def Let_def public_def)

text \<open>A local submission seals the next block with the one extrinsic, which is admitted.\<close>

lemma local_submit_ledger:
  assumes "runtime_wf (fst ch)" and "ed25519_ok (d_ed25519 N)"
    and "unat (block_number (rt_system (fst ch))) < 2 ^ 32 - 1"
    and "nonce_of ch (public (d_ed25519 N) kr) < 2 ^ 32 - 1"
  obtains ch' where "local_submit N kr call ch = Some (Ran Ok_unit ch')"
    and "ledger_of (fst ch') = ledger_call (public (d_ed25519 N) kr) call
      ((ledger_of (fst ch))\<lparr>lg_height := Suc (lg_height (ledger_of (fst ch))),
         lg_nonce := (lg_nonce (ledger_of (fst ch)))
           (public (d_ed25519 N) kr := Suc (nonce_of ch (public (d_ed25519 N) kr)))\<rparr>)"
proof -
  let ?n = "block_number (rt_system (fst ch)) + 1" and ?a = "public (d_ed25519 N) kr"
  let ?e = "new_signed (d_ed25519 N) (d_payload N) (signing_key (d_ed25519 N) kr)
      (nonce (rt_system (fst ch)) ?a) call"
  let ?b = "\<lparr>blk_header = \<lparr>hd_block_number = ?n\<rparr>, blk_extrinsics = [?e]\<rparr>"
  have add: "checked_add (block_number (rt_system (fst ch))) 1 = Some ?n" and num: "unat ?n = Suc (unat (block_number (rt_system (fst ch))))"
    using checked_add_one_cases [of "block_number (rt_system (fst ch))"] assms(3) by auto
  have "nonce_of ch a + length (by_signer a (blk_extrinsics ?b)) < 2 ^ 32" for a
    using assms(4) unsigned_less [of "nonce (rt_system (fst ch)) a"] by auto
  then obtain r ch' where ex: "execute_block (rt_deps N) ?b ch = Some (r, ch')"
    using execute_block_total [OF assms(1,3)] by blast
  then have "r = Ok_unit"
    by (cases rule: execute_block_SomeE) auto
  moreover have "verified (rt_deps N) ?e"
    using assms(2) by (simp add: verified_def verify_new_signed)
  ultimately show thesis
    using that execute_block_refines [OF assms(1) ex] ex add num
    by (simp add: local_submit_def Let_def ledger_block_def ledger_ext_def)
qed

section \<open>The demo on the ledger\<close>

text \<open>The ledger of a runtime loaded from an empty store, with the demo's opening balance.\<close>

definition demo_ledger :: "('st, 'sk, 'vk) deps \<Rightarrow> ledger" where
  "demo_ledger D = \<lparr>lg_height = 0, lg_nonce = (\<lambda>_. 0), lg_balance = (\<lambda>_. 0)(public (d_ed25519 D) Alice := 100),
                    lg_claim = Map.empty\<rparr>"

lemma demo_blocks_ledger:
  fixes D :: "('st, 'sk, 'vk) deps"
  assumes "ed25519_ok (d_ed25519 D)" and "inj (public (d_ed25519 D))"
  defines "A \<equiv> public (d_ed25519 D) Alice" and "B \<equiv> public (d_ed25519 D) Bob" and "C \<equiv> public (d_ed25519 D) Charlie"
  shows "\<exists>l. fold (ledger_block (verified D)) (demo_blocks D) (demo_ledger D) = l \<and>
    lg_height l = 5 \<and> lg_nonce l A = 6 \<and> lg_nonce l B = 6 \<and> lg_nonce l C = 4 \<and>
    lg_balance l A = 67 \<and> lg_balance l B = 30 \<and> lg_balance l C = 3 \<and>
    lg_claim l = [''Copyright on my work'' \<mapsto> C]"
proof -
  have neq: "A \<noteq> B" "B \<noteq> A" "A \<noteq> C" "C \<noteq> A" "B \<noteq> C" "C \<noteq> B"
    using assms(2) by (auto simp: A_def B_def C_def dest: injD)
  have ver: "verified D (new_signed (d_ed25519 D) (d_payload D) sk n call)" for sk n call
    using assms(1) by (simp add: verified_def verify_new_signed)
  note pub = A_def [symmetric] B_def [symmetric] C_def [symmetric]
  show ?thesis
    by (simp add: demo_blocks_def demo_block_5_def demo_ledger_def Let_def ledger_block_def ledger_ext_def ver neq pub)
qed

context runtime_host
begin

lemma runtime_new_empty:
  assumes "inv s" and "\<And>k. kv_get (d_kv D) s k = None"
  shows "sys_block_number (rt_system (runtime_new D s)) = 0" "sys_nonce (rt_system (runtime_new D s)) = []"
    "bal_balances (rt_balances (runtime_new D s)) = []" "poe_claims (rt_poe (runtime_new D s)) = []"
proof -
  have "kv_scan_prefix (d_kv D) s p = []" for p
    using scan_set [OF assms(1), of _ _ p] assms(2)
    by (metis list.set_intros(1) neq_Nil_conv option.distinct(1) surj_pair)
  then show "sys_block_number (rt_system (runtime_new D s)) = 0" "sys_nonce (rt_system (runtime_new D s)) = []"
    "bal_balances (rt_balances (runtime_new D s)) = []" "poe_claims (rt_poe (runtime_new D s)) = []"
    using assms(2) by (simp_all add: runtime_new_def Let_def system_new_def balances_new_def poe_new_def load_entries_def)
qed

lemma ledger_of_fresh:
  assumes "inv s" and "\<And>k. kv_get (d_kv D) s k = None"
  shows "ledger_of (runtime_new D s) = \<lparr>lg_height = 0, lg_nonce = (\<lambda>_. 0), lg_balance = (\<lambda>_. 0), lg_claim = Map.empty\<rparr>"
  using runtime_new_empty [OF assms]
  by (simp add: ledger_of_def block_number_def nonce_def balance_def get_claim_def fun_eq_iff del: bt_get_poe_claims)

end

lemma demo_start:
  assumes "runtime_host D I" and "I s" and "\<And>k. kv_get (d_kv D) s k = None"
  shows "ledger_of (fst (on_balances (set_balance K ca cb (public (d_ed25519 D) Alice) 100) (runtime_new D s, s))) =
         demo_ledger D"
proof -
  let ?l = "ledger_of (runtime_new D s)"
  have l: "?l = \<lparr>lg_height = 0, lg_nonce = (\<lambda>_. 0), lg_balance = (\<lambda>_. 0), lg_claim = Map.empty\<rparr>"
    using assms by (rule runtime_host.ledger_of_fresh)
  have "lg_height ?l = 0" "lg_nonce ?l a = 0" "lg_balance ?l a = 0" "lg_claim ?l = Map.empty" for a
    unfolding l by simp_all
  then show ?thesis
    by (intro ledger_eqI) (simp_all add: demo_ledger_def)
qed

lemma lg_nonce_of: "lg_nonce (ledger_of (fst ch)) a = nonce_of ch a"
  by simp

lemma demo_length: "length (by_signer a (concat (map blk_extrinsics (demo_blocks D)))) < 2 ^ 32"
proof -
  have "length (by_signer a (concat (map blk_extrinsics (demo_blocks D)))) \<le> 16"
    unfolding by_signer_def by (rule order_trans [OF length_filter_le]) (simp add: demo_blocks_def demo_block_5_def Let_def)
  also have "(16 :: nat) < 2 ^ 32" by simp
  finally show ?thesis .
qed

lemma demo_batch:
  "fst (drain_for_block 2 (demo_pool D)) =
   [new_signed (d_ed25519 D) (d_payload D) (signing_key (d_ed25519 D) Alice) 6
      (RC_balances (Call_transfer (public (d_ed25519 D) Bob) 1)),
    new_signed (d_ed25519 D) (d_payload D) (signing_key (d_ed25519 D) Bob) 6
      (RC_balances (Call_transfer (public (d_ed25519 D) Charlie) 2))]"
  by (simp add: demo_pool_def Let_def submit_def mempool_new_def drain_for_block_eq)

text \<open>The five blocks run, and end in the ledger computed above.\<close>

lemma demo_run:
  assumes "runtime_wf (fst ch0)" and l0: "ledger_of (fst ch0) = demo_ledger D"
  obtains ch5 where "run_blocks D (demo_blocks D) ch0 = Some ch5" and "runtime_wf (fst ch5)"
    and "ledger_of (fst ch5) = fold (ledger_block (verified D)) (demo_blocks D) (demo_ledger D)"
proof -
  have "lg_height (ledger_of (fst ch0)) = 0" and "lg_nonce (ledger_of (fst ch0)) a = 0" for a
    unfolding l0 by (simp_all add: demo_ledger_def)
  then have height0: "unat (block_number (rt_system (fst ch0))) = 0" and nonce0: "nonce_of ch0 a = 0" for a
    by (simp_all only: ledger_of_simps)
  have "nonce_of ch0 a + length (by_signer a (concat (map blk_extrinsics (demo_blocks D)))) < 2 ^ 32" for a
    unfolding nonce0 using demo_length by simp
  moreover have "unat (block_number (rt_system (fst ch0))) + length (demo_blocks D) < 2 ^ 32"
    unfolding height0 by (simp add: demo_blocks_def demo_block_5_def Let_def)
  ultimately obtain ch5 where run: "run_blocks D (demo_blocks D) ch0 = Some ch5"
    using run_blocks_total [OF assms(1)] by blast
  with that run_blocks_wf [OF run assms(1)] run_blocks_refines [OF assms(1) run] show thesis
    unfolding l0 by blast
qed

lemma demo_last_ledger:
  fixes D :: "('st, 'sk, 'vk) deps" and l :: ledger
  assumes ok: "ed25519_ok (d_ed25519 D)" and dist: "inj (public (d_ed25519 D))"
  defines "A \<equiv> public (d_ed25519 D) Alice" and "B \<equiv> public (d_ed25519 D) Bob" and "C \<equiv> public (d_ed25519 D) Charlie"
  assumes "lg_height l = 5" "lg_nonce l A = 6" "lg_nonce l B = 6" "lg_balance l A = 67" "lg_balance l B = 30"
    "lg_balance l C = 3" and "unat n = 6"
  defines "l' \<equiv> ledger_block (verified D)
    \<lparr>blk_header = \<lparr>hd_block_number = n\<rparr>, blk_extrinsics = fst (drain_for_block 2 (demo_pool D))\<rparr> l"
  shows "lg_height l' = 6 \<and> lg_balance l' A = 66 \<and> lg_balance l' B = 29 \<and> lg_balance l' C = 5 \<and>
    lg_claim l' = lg_claim l"
proof -
  have neq: "A \<noteq> B" "B \<noteq> A" "A \<noteq> C" "C \<noteq> A" "B \<noteq> C" "C \<noteq> B"
    using dist by (auto simp: A_def B_def C_def dest: injD)
  have ver: "verified D (new_signed (d_ed25519 D) (d_payload D) sk n call)" for sk n call
    using ok by (simp add: verified_def verify_new_signed)
  note pub = A_def [symmetric] B_def [symmetric] C_def [symmetric]
  show ?thesis
    unfolding l'_def demo_batch
    using assms(6-12) by (simp add: ledger_block_def ledger_ext_def Let_def ver neq pub)
qed

lemma run_demo_ledger:
  fixes D :: "('st, 'sk, 'vk) deps"
  assumes "runtime_host D I" and "I s" and "\<And>k. kv_get (d_kv D) s k = None"
    and ok: "ed25519_ok (d_ed25519 D)" and dist: "inj (public (d_ed25519 D))"
  defines "A \<equiv> public (d_ed25519 D) Alice" and "B \<equiv> public (d_ed25519 D) Bob" and "C \<equiv> public (d_ed25519 D) Charlie"
  obtains ch where "run_demo D s = Some ch" and "lg_height (ledger_of (fst ch)) = 6"
    and "lg_balance (ledger_of (fst ch)) A = 66" and "lg_balance (ledger_of (fst ch)) B = 29"
    and "lg_balance (ledger_of (fst ch)) C = 5" and "lg_claim (ledger_of (fst ch)) = [''Copyright on my work'' \<mapsto> C]"
proof -
  let ?ch0 = "on_balances (set_balance (d_kv D) (c_account (d_codecs D)) (c_u128 (d_codecs D))
      (public (d_ed25519 D) Alice) 100) (runtime_new D s, s)"
  have wf0: "runtime_wf (fst ?ch0)" by simp
  obtain ch5 where run: "run_blocks D (demo_blocks D) ?ch0 = Some ch5" and wf5: "runtime_wf (fst ch5)"
    and l5: "ledger_of (fst ch5) = fold (ledger_block (verified D)) (demo_blocks D) (demo_ledger D)"
    using demo_run [OF wf0 demo_start [OF assms(1-3)]] by blast
  have l: "lg_height (ledger_of (fst ch5)) = 5" "lg_nonce (ledger_of (fst ch5)) A = 6"
    "lg_nonce (ledger_of (fst ch5)) B = 6" "lg_balance (ledger_of (fst ch5)) A = 67"
    "lg_balance (ledger_of (fst ch5)) B = 30" "lg_balance (ledger_of (fst ch5)) C = 3"
    "lg_claim (ledger_of (fst ch5)) = [''Copyright on my work'' \<mapsto> C]"
    using demo_blocks_ledger [OF ok dist] unfolding l5 A_def B_def C_def by blast+
  have neq: "A \<noteq> B" "A \<noteq> C" "B \<noteq> C"
    using dist by (auto simp: A_def B_def C_def dest: injD)
  let ?n = "block_number (rt_system (fst ch5)) + 1"
  let ?b = "\<lparr>blk_header = \<lparr>hd_block_number = ?n\<rparr>, blk_extrinsics = fst (drain_for_block 2 (demo_pool D))\<rparr>"
  have h5: "unat (block_number (rt_system (fst ch5))) = 5"
    using l(1) by (simp only: ledger_of_simps)
  then have add: "checked_add (block_number (rt_system (fst ch5))) 1 = Some ?n" and num: "unat ?n = 6"
    using checked_add_one_cases [of "block_number (rt_system (fst ch5))"] by auto
  have "nonce_of ch5 A = 6" "nonce_of ch5 B = 6"
    using l(2,3) by (simp_all only: ledger_of_simps)
  then have "nonce_of ch5 a + length (by_signer a (blk_extrinsics ?b)) < 2 ^ 32" for a
    using neq(1) unsigned_less [of "nonce (rt_system (fst ch5)) a"]
    by (auto simp: demo_batch A_def B_def)
  then obtain r ch6 where ex: "execute_block D ?b ch5 = Some (r, ch6)"
    using execute_block_total [OF wf5, of ?b D] h5 by auto
  have "run_demo D s = Some ch6"
    using run add ex by (simp add: run_demo_def demo_mempool_block_def Let_def)
  moreover have "ledger_of (fst ch6) = ledger_block (verified D) ?b (ledger_of (fst ch5))"
    using wf5 ex by (rule execute_block_refines)
  moreover note demo_last_ledger [OF ok dist l(1-6) [unfolded A_def B_def C_def] num] l(7)
  ultimately show thesis
    using that unfolding A_def B_def C_def by presburger
qed

section \<open>Overflow of the local balance\<close>

lemma submit_transfer_overflow:
  "n_overflow_checks N \<Longrightarrow> 2 ^ 128 \<le> unat amount * 10 \<Longrightarrow> submit_transfer N get from to amount None db = None"
  by (auto simp: submit_transfer_def plain_mul_def Let_def split: option.splits)

section \<open>The commands on the database\<close>

abbreviation db_file :: "string option \<Rightarrow> string" where
  "db_file path \<equiv> (case path of None \<Rightarrow> ''state.db'' | Some p \<Rightarrow> p)"

lemma open_set_db_path:
  "\<exists>cells. set_db_path path = Some cells \<and>
     open_db H cells fs = (case h_open H (db_file path) (fs (db_file path)) of Inl _ \<Rightarrow> None | Inr s \<Rightarrow> Some (db_file path, s))"
  by (auto simp: set_db_path_def init_db_path_def open_db_def force_rocks_db_def db_path_def fresh_cells_def
      split: option.splits)

lemma cli_main_start:
  assumes "h_open H (db_file path) (fs (db_file path)) = Inr s"
  shows "cli_main S H (Start port peer rpc path) fs = Some (x, fs') \<longleftrightarrow>
    (\<exists>dial r s'. (case peer of None \<Rightarrow> Some None | Some a \<Rightarrow> map_option Some (h_multiaddr H a)) = Some dial \<and>
       run_setup (node_of S) (h_libp2p H) port dial rpc s = Some (r, s') \<and> fs' = fs(db_file path \<mapsto> s') \<and>
       x = (case r of Inl e \<Rightarrow> Failed e | Inr (sw, n, addr) \<Rightarrow> Running sw n addr))"
proof -
  obtain cells where "set_db_path path = Some cells" and "open_db H cells fs = Some (db_file path, s)"
    using open_set_db_path [of path H fs] assms by auto
  then show ?thesis
    by (auto simp: cli_main_def split: option.splits sum.splits prod.splits)
qed

text \<open>When the directory cannot be deleted, \<open>reset\<close> says so and then reports success.\<close>

lemma reset_failure_reported_deleted:
  assumes "fs (db_file path) = Some old" and "h_remove H (db_file path) old = (Inl e, Some left)"
  shows "cli_main S H (Reset path) fs =
    Some (Finished [Stderr (''failed to delete '' @ quoted (db_file path) @ '': '' @ e),
                    Stdout (''Reset: deleted '' @ quoted (db_file path))], fs(db_file path \<mapsto> left))"
  using assms by (simp add: cli_main_def reset_at_def)

end
