(* ===== verification/Reference_Node.thy ===== *)
theory Reference_Node
  imports Cli
begin

text \<open>
  Concrete inputs for the witnesses: the runtime of \<open>Reference_Deps\<close> booted on an empty
  store and after genesis, signed extrinsics of the dev accounts, and a node over them. They
  show that the hypotheses of the theorems hold together; they model no code of the
  repository.
\<close>

definition ref_boot :: "mem chain" where
  "ref_boot = (runtime_new ref_deps [], [])"

definition ref_start :: "mem chain" where
  "ref_start = bumped ref_deps (fund ref_deps Charlie (fund ref_deps Bob (fund ref_deps Alice ref_boot)))"

definition ref_ext :: "AccountKeyring \<Rightarrow> u32 \<Rightarrow> RuntimeCall \<Rightarrow> ext" where
  "ref_ext a n call = new_signed ref_ed25519 ref_payload (signing_key ref_ed25519 a) n call"

definition ref_block :: "u32 \<Rightarrow> ext list \<Rightarrow> runtime_block" where
  "ref_block n xs = \<lparr>blk_header = \<lparr>hd_block_number = n\<rparr>, blk_extrinsics = xs\<rparr>"

definition ref_node :: "(mem, arr32, arr32) node_deps" where
  "ref_node = \<lparr>d_kv = mem_store, d_codecs = ref_codecs, d_ed25519 = ref_ed25519, d_payload = ref_payload,
     n_ext = ext_codec, n_block = block_codec, n_topic_hash = (\<lambda>t. t), n_hex_decode = (\<lambda>h. case unhex h of None \<Rightarrow> Inl ''bad'' | Some bs \<Rightarrow> Inr bs),
     n_overflow_checks = True, n_hash_order = rev\<rparr>"

lemma ref_boot_simps [simp]:
  "block_number (rt_system (fst ref_boot)) = 0" "nonce (rt_system (fst ref_boot)) a = 0"
  "balance (rt_balances (fst ref_boot)) a = 0" "get_claim (rt_poe (fst ref_boot)) c = None"
  by (simp_all add: ref_boot_def runtime_new_def system_new_def balances_new_def poe_new_def load_entries_def
      mem_store_defs block_number_def nonce_def balance_def get_claim_def Let_def)

lemma ref_boot_reach: "chain_reach ref_deps bt_wf ref_boot"
  unfolding ref_boot_def by (rule chain_reach.boot) (simp_all add: mem_store_defs)

lemma ref_genesis: "maybe_apply_genesis ref_deps ref_boot = Some ref_start"
  by (simp add: genesis_fresh ref_start_def)

lemma ref_start_reach: "chain_reach ref_deps bt_wf ref_start"
  using ref_boot_reach ref_genesis by (rule chain_reach.genesis)

lemma ref_wf [simp]: "runtime_wf (fst ref_boot)" "runtime_wf (fst ref_start)"
  using ref.reach_synced [OF ref_boot_reach] ref.reach_synced [OF ref_start_reach]
  by (simp_all add: chain_synced_wf)

lemma ref_start_simps [simp]:
  "block_number (rt_system (fst ref_start)) = 1" "nonce (rt_system (fst ref_start)) a = 0"
  "balance (rt_balances (fst ref_start)) (public ref_ed25519 k) = 1000000"
  "get_claim (rt_poe (fst ref_start)) c = None"
  by (simp_all add: ref_start_def) (cases k; simp)

lemma ref_ext_simps [simp]:
  "ext_signer (ref_ext a n call) = public ref_ed25519 a" "ext_nonce (ref_ext a n call) = n"
  "ext_call (ref_ext a n call) = call" "verify ref_ed25519 ref_payload (ref_ext a n call) = Ok_unit"
  by (simp_all add: ref_ext_def verify_new_signed)

lemma ref_block_simps [simp]:
  "hd_block_number (blk_header (ref_block n xs)) = n" "blk_extrinsics (ref_block n xs) = xs"
  by (simp_all add: ref_block_def)

lemma ref_node_simps [simp]:
  "deps.truncate ref_node = ref_deps" "n_ext ref_node = ext_codec" "n_block ref_node = block_codec"
  "n_topic_hash ref_node t = t" "n_hex_decode ref_node (hex_of bs) = Inr bs" "n_overflow_checks ref_node" "n_hash_order ref_node = rev"
  "d_ed25519 ref_node = ref_ed25519" "d_payload ref_node = ref_payload" "hash_order_ok rev"
  by (simp_all add: ref_node_def deps.truncate_def ref_deps_def hash_order_ok_def unhex_hex_of)

lemma ref_nonce_room: "length xs < 2 ^ 32 \<Longrightarrow> nonce_of ref_start a + length (by_signer a xs) < 2 ^ 32"
  using le_less_trans [OF length_filter_le] by (simp add: by_signer_def)

lemma ref_run:
  assumes "length bs < 2 ^ 32 - 1" and "length (concat (map blk_extrinsics bs)) < 2 ^ 32"
  obtains ch' where "run_blocks ref_deps bs ref_start = Some ch'"
  using run_blocks_total [of ref_start bs ref_deps] assms ref_nonce_room by auto

text \<open>A block with one extrinsic of a dev account on a state with the nonces of \<open>ref_start\<close>.\<close>

lemma ref_single:
  assumes "runtime_wf (fst ch)" and "rt_system (fst ch) = rt_system (fst ref_start)"
  obtains ch1 r ch' where "execute_block ref_deps (ref_block 2 [ref_ext k 0 call]) ch = Some (Ok_unit, ch')"
    and "runtime_dispatch ref_deps (public ref_ed25519 k) call ch1 = Some (r, ch')"
    and "rt_balances (fst ch1) = rt_balances (fst ch)" and "rt_poe (fst ch1) = rt_poe (fst ch)"
    and "runtime_wf (fst ch1)"
proof -
  let ?b = "ref_block 2 [ref_ext k 0 call]" and ?e = "ref_ext k 0 call"
  obtain ch' r0 where ex: "execute_block ref_deps ?b ch = Some (r0, ch')"
    using execute_block_total [OF assms(1), of ?b ref_deps] assms(2) ref_nonce_room [of "[?e]"] by auto
  then have "r0 = Ok_unit \<and> apply_extrinsic ref_deps (?e, Ok_unit) (bumped ref_deps ch) = Some ch'"
    using assms(2) by (cases rule: execute_block_SomeE) (auto simp: results_alt split: option.splits)
  then have r0: "r0 = Ok_unit"
    and one: "apply_extrinsic ref_deps (?e, Ok_unit) (bumped ref_deps ch) = Some ch'" by auto
  have "admissible (?e, Ok_unit) (fst (bumped ref_deps ch))"
    using assms(2) by (simp add: admissible_def)
  from apply_extrinsic_runE [OF one this] obtain ch1 r where
    "runtime_dispatch ref_deps (ext_signer ?e) (ext_call ?e) ch1 = Some (r, ch')"
    and "rt_balances (fst ch1) = rt_balances (fst (bumped ref_deps ch))"
    and "rt_poe (fst ch1) = rt_poe (fst (bumped ref_deps ch))"
    and "runtime_wf (fst (bumped ref_deps ch)) \<Longrightarrow> runtime_wf (fst ch1)" by blast
  with ex r0 assms(1) that [of ch' ch1 r] show thesis by simp
qed

lemma ref_transfer:
  obtains ch' where
    "execute_block ref_deps (ref_block 2 [ref_ext Alice 0 (RC_balances (Call_transfer (public ref_ed25519 Bob) 5))])
       ref_start = Some (Ok_unit, ch')"
    and "balance (rt_balances (fst ch')) (public ref_ed25519 Alice) = 999995"
    and "balance (rt_balances (fst ch')) (public ref_ed25519 Bob) = 1000005"
proof -
  let ?a = "public ref_ed25519 Alice" and ?b = "public ref_ed25519 Bob"
  let ?call = "RC_balances (Call_transfer ?b 5)"
  obtain ch1 r ch' where ex: "execute_block ref_deps (ref_block 2 [ref_ext Alice 0 ?call]) ref_start = Some (Ok_unit, ch')"
    and dis: "runtime_dispatch ref_deps ?a ?call ch1 = Some (r, ch')"
    and bal: "rt_balances (fst ch1) = rt_balances (fst ref_start)"
    using ref_single [OF ref_wf(2) refl, of Alice ?call] by blast
  let ?t = "transfer mem_store (c_account ref_codecs) (c_u128 ref_codecs) ?a ?b 5 (rt_balances (fst ch1), snd ch1)"
  have "fst ?t = Ok_unit"
    by (simp add: transfer_ok_iff bal)
  then have "?t = (Inr (), (rt_balances (fst ch'), snd ch'))"
    using dis by (auto split: prod.splits)
  from transfer_ok_balance [OF this] have
    "balance (rt_balances (fst ch')) ?a = 999995 \<and> balance (rt_balances (fst ch')) ?b = 1000005"
    by (simp add: bal)
  with ex that show thesis by blast
qed

text \<open>A pool with one transfer of Alice, and the production of the next block from it.\<close>

definition ref_pool :: "ext mempool" where
  "ref_pool = \<lparr>mp_pending = [ref_ext Alice 0 (RC_balances (Call_transfer (public ref_ed25519 Bob) 5))],
               mp_max_capacity = None, mp_block_limit = Some 3\<rparr>"

lemma drained_ref_pool [simp]:
  "drained ref_pool = [ref_ext Alice 0 (RC_balances (Call_transfer (public ref_ed25519 Bob) 5))]"
  by (simp add: drained_def ref_pool_def block_limit_def)

lemma ref_produce:
  obtains ch' pool' reqs where "produce_block ref_node (ref_start, ref_pool) = Some (ch', pool', reqs)"
  using produce_block_total [of ref_node ref_start ref_pool] ref_nonce_room [of "drained ref_pool"] by auto

text \<open>A claim of Alice, and a state in which her nonce is already 1.\<close>

abbreviation ref_claim :: "u32 \<Rightarrow> ext" where
  "ref_claim n \<equiv> ref_ext Alice n (RC_proof_of_existence (Call_create_claim ''doc''))"

definition ref_later :: "mem chain" where
  "ref_later = ((fst ref_start)\<lparr>rt_system := (rt_system (fst ref_start))
     \<lparr>sys_nonce := [(public ref_ed25519 Alice, 1)]\<rparr>\<rparr>, snd ref_start)"

lemma ref_later_simps [simp]:
  "runtime_wf (fst ref_later)" "block_number (rt_system (fst ref_later)) = 1"
  "nonce (rt_system (fst ref_later)) a = (if a = public ref_ed25519 Alice then 1 else 0)"
  using ref_wf(2) by (simp_all add: ref_later_def runtime_wf_def bt_wf_def nonce_def bt_get_def)

definition ref_stale_pool :: "ext mempool" where
  "ref_stale_pool = \<lparr>mp_pending = [ref_claim 0, ref_claim 1], mp_max_capacity = None, mp_block_limit = Some 3\<rparr>"

lemma ref_stale_pool_simps [simp]:
  "drained ref_stale_pool = [ref_claim 0, ref_claim 1]" "mp_pending ref_stale_pool = [ref_claim 0, ref_claim 1]"
  by (simp_all add: drained_def ref_stale_pool_def block_limit_def)

lemma ref_stale_produce:
  obtains ch' pool' reqs where "produce_block ref_node (ref_later, ref_stale_pool) = Some (ch', pool', reqs)"
proof -
  have "nonce_of ref_later a + length (by_signer a (drained ref_stale_pool)) < 2 ^ 32" for a
    by simp
  from produce_block_total [OF _ _ _ this, of ref_node] show thesis
    using that by auto
qed

lemma ref_select:
  assumes "hash_order_ok ord" and "length xs < 2 ^ 32"
  obtains batch where "select_batch oc ord (fst ref_start) xs = Some batch"
  using select_batch_total [OF assms(1) ref_nonce_room [OF assms(2)]] by blast

text \<open>The payload encoding is injective.\<close>

lemma inj_ref_payload: "inj ref_payload"
proof (rule injI)
  fix x y assume eq: "ref_payload x = ref_payload y"
  obtain a n c a' n' c' where xy: "x = (a, n, c)" "y = (a', n', c')" by (metis surj_pair)
  have u32: "parses (word_par 4 :: u32 parser) (word_enc 4)"
    by (rule parses_word) simp
  have "arr32_list a = arr32_list a'" and rest: "word_enc 4 n @ call_enc c = word_enc 4 n' @ call_enc c'"
    using eq by (simp_all add: xy ref_payload_def)
  moreover have "word_par 4 (word_enc 4 n @ call_enc c) = Some (n, call_enc c)"
    and "word_par 4 (word_enc 4 n' @ call_enc c') = Some (n', call_enc c')"
    using u32 by simp_all
  ultimately have "a = a'" "Some (n, call_enc c) = Some (n', call_enc c')"
    by (metis arr32_list_inject)+
  then have "a = a'" "n = n'" "call_enc c = call_enc c'" by auto
  moreover have "Some (c, [] :: bytes) = Some (c', [])"
    using parses_Nil [OF parses_call, of c] parses_Nil [OF parses_call, of c'] \<open>call_enc c = call_enc c'\<close>
    by metis
  ultimately show "x = y" by (simp add: xy)
qed

text \<open>A node on an empty store, with one peer.\<close>

definition ref_state :: "(mem, nat) node_state" where
  "ref_state = \<lparr>ns_my_id = 1, ns_chain = ref_start, ns_pool = with_block_limit 3, ns_peers = [1],
     ns_rx_ext = [], ns_rx_blk = [], ns_rx_pub = [], ns_out = [], ns_ticked = False\<rparr>"

lemma ref_state_start: "node_start ref_node 1 [] = Some ref_state"
  by (simp add: node_start_def ref_genesis [unfolded ref_boot_def] ref_state_def)

lemma ref_state_reach: "node_reach ref_node bt_wf ref_state"
proof (rule node_reach.start)
  show "chain_reach (rt_deps ref_node) bt_wf ref_boot" by (simp add: ref_boot_reach)
  show "node_start ref_node 1 (snd ref_boot) = Some ref_state"
    using ref_state_start by (simp add: ref_boot_def)
qed

text \<open>A server on that node, and a host whose ports may be taken.\<close>

definition ref_match :: "string \<Rightarrow> string \<Rightarrow> string option" where
  "ref_match pat path =
     (if pat = ''/nonce/:account''
      then (let p = ''/nonce/''; seg = drop (length p) path
            in if path = p @ seg \<and> seg \<noteq> [] \<and> CHR ''/'' \<notin> set seg then Some seg else None)
      else if pat = path then Some [] else None)"

lemma ref_routes_ok [simp]: "routes_ok ref_match"
  by (auto simp: routes_ok_def ref_match_def Let_def)

definition ref_server :: "(mem, arr32, arr32) server_deps" where
  "ref_server = \<lparr>d_kv = mem_store, d_codecs = ref_codecs, d_ed25519 = ref_ed25519, d_payload = ref_payload,
     n_ext = ext_codec, n_block = block_codec, n_topic_hash = (\<lambda>t. t),
     n_hex_decode = (\<lambda>h. case unhex h of None \<Rightarrow> Inl ''bad'' | Some bs \<Rightarrow> Inr bs),
     n_overflow_checks = True, n_hash_order = rev,
     s_match = ref_match, s_scale_error = (\<lambda>_. ''bad''), s_printable = (\<lambda>c. c < 127)\<rparr>"

lemma ref_server_simps [simp]:
  "node_of ref_server = ref_node" "deps.truncate ref_server = ref_deps" "d_ed25519 ref_server = ref_ed25519"
  "d_payload ref_server = ref_payload" "n_ext ref_server = ext_codec" "s_match ref_server = ref_match"
  "n_hex_decode ref_server (hex_of bs) = Inr bs"
  by (simp_all add: ref_server_def ref_node_def node_deps.truncate_def deps.truncate_def ref_deps_def unhex_hex_of)

definition ref_host :: "bool \<Rightarrow> (mem, unit, nat, unit) host_env" where
  "ref_host up =
     \<lparr>h_open = (\<lambda>_ old. Inr (case old of None \<Rightarrow> [] | Some s \<Rightarrow> s)), h_remove = (\<lambda>_ _. (Inr (), None)),
      h_get = (\<lambda>_. Inl ''offline''), h_post = (\<lambda>_ _. Post_error ''offline''), h_multiaddr = (\<lambda>_. Some ()),
      h_libp2p = \<lparr>lp_build = (\<lambda>_. Inr ()), lp_local_peer_id = (\<lambda>_. 1), lp_subscribe = (\<lambda>_ _. Inr ()),
                  lp_listen = (\<lambda>_ _. if up then Inr () else Inl ''address in use''), lp_dial = (\<lambda>_ _. Inr ())\<rparr>\<rparr>"

lemma ref_host_simps [simp]:
  "h_open (ref_host up) p None = Inr []" "h_open (ref_host up) p (Some s) = Inr s"
  "h_remove (ref_host up) p s = (Inr (), None)"
  by (simp_all add: ref_host_def)

lemma ref_run_setup:
  assumes "maybe_apply_genesis ref_deps (runtime_new ref_deps s, s) = Some ch"
  shows "\<exists>n. run_setup ref_node (h_libp2p (ref_host up)) port None None s =
    Some (if up then Inr ((), n, None) else Inl ''address in use'', snd ch) \<and> ns_chain n = ch"
  using assms by (simp add: run_setup_def ref_host_def build_swarm_def Let_def) (metis node_state.select_convs(2))

end
