(* ===== verification/Crash.thy ===== *)
theory Crash
  imports Chain
begin

text \<open>
  What is on disk when the process dies, or the disk fills up, in the middle of a block. The
  runtime takes its store as a parameter, so no second model of it is needed: it runs on a
  store with room for \<open>n\<close> writes (\<open>crashing\<close>), which loses all later ones. The pallets only
  log a failed write, so the run goes on in memory, and the store at its end is the disk
  after exactly \<open>n\<close> writes. The relation \<open>torn\<close> lists the states a restart may then find.
\<close>

section \<open>A store with room for \<open>n\<close> writes\<close>

definition crashing :: "'st kv_store \<Rightarrow> (nat \<times> 'st) kv_store" where
  "crashing K =
     \<lparr>kv_get = (\<lambda>d. kv_get K (snd d)),
      kv_put = (\<lambda>d k v. case d of
                  (0, s) \<Rightarrow> (Inl ''no space left on device'', (0, s))
                | (Suc n, s) \<Rightarrow> (fst (kv_put K s k v), (n, snd (kv_put K s k v)))),
      kv_delete = (\<lambda>d k. case d of
                  (0, s) \<Rightarrow> (Inl ''no space left on device'', (0, s))
                | (Suc n, s) \<Rightarrow> (fst (kv_delete K s k), (n, snd (kv_delete K s k)))),
      kv_scan_prefix = (\<lambda>d. kv_scan_prefix K (snd d))\<rparr>"

definition crash_deps :: "('st, 'sk, 'vk) deps \<Rightarrow> (nat \<times> 'st, 'sk, 'vk) deps" where
  "crash_deps D = \<lparr>d_kv = crashing (d_kv D), d_codecs = d_codecs D, d_ed25519 = d_ed25519 D, d_payload = d_payload D\<rparr>"

lemma crash_deps_simps [simp]:
  "d_kv (crash_deps D) = crashing (d_kv D)" "d_codecs (crash_deps D) = d_codecs D"
  "d_ed25519 (crash_deps D) = d_ed25519 D" "d_payload (crash_deps D) = d_payload D"
  by (simp_all add: crash_deps_def)

lemma crashing_simps [simp]:
  "kv_get (crashing K) d k = kv_get K (snd d) k"
  "snd (kv_put (crashing K) (0, s) k v) = (0, s)"
  "snd (kv_put (crashing K) (Suc n, s) k v) = (n, snd (kv_put K s k v))"
  "snd (kv_delete (crashing K) (0, s) k) = (0, s)"
  "snd (kv_delete (crashing K) (Suc n, s) k) = (n, snd (kv_delete K s k))"
  "kv_scan_prefix (crashing K) d p = kv_scan_prefix K (snd d) p"
  by (simp_all add: crashing_def)

lemma results_crash [simp]: "results (crash_deps D) b = results D b"
  by (simp add: results_def)

text \<open>What a restart may find of the second pass of \<open>execute_block\<close> that stopped in the middle.\<close>

inductive torn ::
  "('st, 'sk, 'vk) deps \<Rightarrow> (ext \<times> dispatch_result) list \<Rightarrow> 'st chain \<Rightarrow> runtime \<Rightarrow> bool"
  for D :: "('st, 'sk, 'vk) deps" where
  between: "torn D xs ch (fst ch)"
| after_nonce: "admissible (e, v) (fst ch) \<Longrightarrow>
    on_system (inc_nonce (d_kv D) (c_account (d_codecs D)) (c_u32 (d_codecs D)) (ext_signer e)) ch = Some ch1 \<Longrightarrow>
    torn D ((e, v) # xs) ch (fst ch1)"
| after_debit: "admissible (e, v) (fst ch) \<Longrightarrow>
    on_system (inc_nonce (d_kv D) (c_account (d_codecs D)) (c_u32 (d_codecs D)) (ext_signer e)) ch = Some ch1 \<Longrightarrow>
    ext_call e = RC_balances (Call_transfer to amount) \<Longrightarrow>
    unat amount \<le> unat (balance (rt_balances (fst ch1)) (ext_signer e)) \<Longrightarrow>
    unat (balance (rt_balances (fst ch1)) to) + unat amount < 2 ^ 128 \<Longrightarrow>
    torn D ((e, v) # xs) ch
      (fst (on_balances (set_balance (d_kv D) (c_account (d_codecs D)) (c_u128 (d_codecs D)) (ext_signer e)
              (balance (rt_balances (fst ch1)) (ext_signer e) - amount)) ch1))"
| later: "apply_extrinsic D x ch = Some ch' \<Longrightarrow> torn D xs ch' rt \<Longrightarrow> torn D (x # xs) ch rt"

lemma torn_append: "torn D xs ch rt \<Longrightarrow> torn D (xs @ ys) ch rt"
  by (induction rule: torn.induct) (auto intro: torn.intros)

section \<open>A full disk\<close>

lemma dispatch_full:
  assumes "runtime_dispatch (crash_deps D) caller call (rt, (0, s)) = Some (r, (rt', d))"
  shows "d = (0, s)"
  using assms
  by (cases call rule: RuntimeCall_cases)
    (auto simp: pallet_defs Let_def split: option.splits prod.splits if_splits)

lemma apply_extrinsic_full:
  assumes "apply_extrinsic (crash_deps D) (e, v) (rt, (0, s)) = Some (rt', d)"
  shows "d = (0, s)"
proof (cases "admissible (e, v) rt")
  case True
  then show ?thesis
    using assms
    by (auto simp: apply_extrinsic_admissible on_system_def inc_nonce_def Let_def split: option.splits
        dest!: dispatch_full)
qed (use assms in \<open>simp add: apply_extrinsic_skip\<close>)

lemma apply_extrinsics_full:
  "apply_extrinsics (crash_deps D) xs (rt, (0, s)) = Some (rt', d) \<Longrightarrow> d = (0, s)"
proof (induction xs arbitrary: rt)
  case (Cons x xs)
  obtain e v where x: "x = (e, v)" by (cases x)
  obtain rt1 d1 where one: "apply_extrinsic (crash_deps D) (e, v) (rt, (0, s)) = Some (rt1, d1)"
    and rest: "apply_extrinsics (crash_deps D) xs (rt1, d1) = Some (rt', d)"
    using Cons.prems by (auto simp: x split: option.splits)
  then show ?case using Cons.IH apply_extrinsic_full [OF one] by blast
qed simp

section \<open>A disk that fills up\<close>

lemma set_balance_crash [simp]:
  "set_balance (crashing K) ca cb who amount (p, (Suc n, s)) =
   (fst (set_balance K ca cb who amount (p, s)), (n, snd (set_balance K ca cb who amount (p, s))))"
  "set_balance (crashing K) ca cb who amount (p, (0, s)) =
   (fst (set_balance K ca cb who amount (p, s)), (0, s))"
  by (simp_all add: set_balance_def Let_def)

lemma transfer_crash:
  assumes "transfer (crashing K) ca cb caller to amount (p, (Suc n, s)) = (r, (p', (m, s')))"
  shows "transfer K ca cb caller to amount (p, s) = (r, (p', s')) \<or>
    m = 0 \<and> unat amount \<le> unat (balance p caller) \<and> unat (balance p to) + unat amount < 2 ^ 128 \<and>
    s' = snd (set_balance K ca cb caller (balance p caller - amount) (p, s))"
proof (cases rule: transfer_cases [of "crashing K" ca cb caller to amount "(p, (Suc n, s))"])
  case ok
  then have "transfer K ca cb caller to amount (p, s) =
      (Ok_unit, set_balance K ca cb to (balance p to + amount)
                  (set_balance K ca cb caller (balance p caller - amount) (p, s)))"
    by (cases rule: transfer_cases [of K ca cb caller to amount "(p, s)"]) auto
  with ok assms show ?thesis by (cases n) (auto simp: prod_eq_iff)
qed (use assms in \<open>cases rule: transfer_cases [of K ca cb caller to amount "(p, s)"]; auto\<close>)+

lemma dispatch_crash:
  assumes "runtime_dispatch (crash_deps D) caller call (rt, (Suc n, s)) = Some (r, (rt', (m, s')))"
  obtains (whole) "runtime_dispatch D caller call (rt, s) = Some (r, (rt', s'))"
  | (debit) to amount where "m = 0" "call = RC_balances (Call_transfer to amount)"
      "unat amount \<le> unat (balance (rt_balances rt) caller)"
      "unat (balance (rt_balances rt) to) + unat amount < 2 ^ 128"
      "s' = snd (on_balances (set_balance (d_kv D) (c_account (d_codecs D)) (c_u128 (d_codecs D)) caller
                (balance (rt_balances rt) caller - amount)) (rt, s))"
proof (cases call rule: RuntimeCall_cases)
  case (transfer to amount)
  obtain p where tr: "Balances_Pallet.transfer (crashing (d_kv D)) (c_account (d_codecs D)) (c_u128 (d_codecs D))
      caller to amount (rt_balances rt, (Suc n, s)) = (r, (p, (m, s')))" and rt': "rt' = rt\<lparr>rt_balances := p\<rparr>"
    using assms transfer by (auto split: prod.splits)
  from transfer_crash [OF tr] show thesis
    using that rt' transfer by (auto simp: on_balances_alt)
next
  case (create claim)
  with assms have "runtime_dispatch D caller call (rt, s) = Some (r, (rt', s'))"
    by (auto simp: create_claim_def Let_def split: option.splits if_splits)
  then show thesis by (rule whole)
next
  case (revoke claim)
  with assms have "runtime_dispatch D caller call (rt, s) = Some (r, (rt', s'))"
    by (auto simp: revoke_claim_def Let_def split: option.splits if_splits)
  then show thesis by (rule whole)
qed

text \<open>One extrinsic on a disk with room for \<open>n\<close> writes: all of it is on disk, or a part.\<close>

context runtime_host
begin

lemma apply_extrinsic_crash:
  assumes synced: "chain_synced D inv (rt, s)"
    and run: "apply_extrinsic (crash_deps D) (e, v) (rt, (n, s)) = Some (rt', (m, s'))"
  obtains (whole) "apply_extrinsic D (e, v) (rt, s) = Some (rt', s')"
  | (part) mid where "m = 0" "torn D [(e, v)] (rt, s) mid" "chain_synced D inv (mid, s')"
proof (cases n)
  case 0
  then have "m = 0" "s' = s"
    using run apply_extrinsic_full by (metis Pair_inject)+
  then show thesis
    using part [of rt] synced torn.between [of D _ "(rt, s)"] by simp
next
  case (Suc k)
  show thesis
  proof (cases "admissible (e, v) rt")
    case False
    with run whole show thesis by (simp add: apply_extrinsic_skip)
  next
    case True
    let ?inc = "\<lambda>D. on_system (inc_nonce (d_kv D) (c_account (d_codecs D)) (c_u32 (d_codecs D)) (ext_signer e))"
    obtain rt1 s1 where inc: "?inc D (rt, s) = Some (rt1, s1)"
      and dis: "map_option snd (runtime_dispatch (crash_deps D) (ext_signer e) (ext_call e) (rt1, (k, s1))) = Some (rt', (m, s'))"
      using run True Suc
      by (auto simp: apply_extrinsic_admissible on_system_def inc_nonce_def Let_def split: option.splits)
    have synced1: "chain_synced D inv (rt1, s1)"
      using synced inc by (rule synced_inc_nonce)
    have here: "torn D [(e, v)] (rt, s) rt1"
      using torn.after_nonce [of e v "(rt, s)" D "(rt1, s1)"] True inc by simp
    obtain r where dis': "runtime_dispatch (crash_deps D) (ext_signer e) (ext_call e) (rt1, (k, s1)) = Some (r, (rt', (m, s')))"
      using dis by auto
    show thesis
    proof (cases k)
      case 0
      then have "m = 0" "s' = s1"
        using dis' dispatch_full by (metis Pair_inject)+
      then show thesis using part [OF _ here] synced1 by simp
    next
      case (Suc j)
      from dis' [unfolded Suc] show thesis
      proof (cases rule: dispatch_crash)
        case whole
        then show thesis
          using that(1) True inc by (simp add: apply_extrinsic_admissible)
      next
        case (debit to amount)
        let ?ch = "on_balances (set_balance (d_kv D) (c_account (d_codecs D)) (c_u128 (d_codecs D)) (ext_signer e)
                (balance (rt_balances rt1) (ext_signer e) - amount)) (rt1, s1)"
        have "torn D [(e, v)] (rt, s) (fst ?ch)"
          using torn.after_debit [of e v "(rt, s)" D "(rt1, s1)" to amount] True inc debit by simp
        moreover have "chain_synced D inv (fst ?ch, s')"
          using synced_set_balance [OF synced1] debit by simp
        ultimately show thesis using part debit by blast
      qed
    qed
  qed
qed

lemma apply_extrinsics_crash:
  assumes "chain_synced D inv (rt, s)"
    and "apply_extrinsics (crash_deps D) xs (rt, (n, s)) = Some (rt', (m, s'))"
  shows "\<exists>mid. torn D xs (rt, s) mid \<and> chain_synced D inv (mid, s')"
  using assms
proof (induction xs arbitrary: rt s n)
  case Nil
  then show ?case using torn.between [of D "[]" "(rt, s)"] by auto
next
  case (Cons x xs)
  obtain e v where x: "x = (e, v)" by (cases x)
  obtain rt1 k s1 where one: "apply_extrinsic (crash_deps D) (e, v) (rt, (n, s)) = Some (rt1, (k, s1))"
    and rest: "apply_extrinsics (crash_deps D) xs (rt1, (k, s1)) = Some (rt', (m, s'))"
    using Cons.prems(2) by (auto simp: x split: option.splits)
  from Cons.prems(1) one show ?case
  proof (cases rule: apply_extrinsic_crash)
    case whole
    then have "chain_synced D inv (rt1, s1)"
      using Cons.prems(1) by (blast intro: synced_apply_extrinsic)
    with Cons.IH rest whole show ?thesis unfolding x by (blast intro: torn.later)
  next
    case (part mid)
    then have "s' = s1"
      using rest apply_extrinsics_full by (metis Pair_inject)
    with part torn_append [of D "[(e, v)]" "(rt, s)" mid xs] show ?thesis by (auto simp: x)
  qed
qed

text \<open>A block on a disk with room for \<open>n\<close> writes, and the restart after it.\<close>

lemma execute_block_crash:
  assumes synced: "chain_synced D inv (rt, s)"
    and run: "execute_block (crash_deps D) b (rt, (n, s)) = Some (r, (rt', (m, s')))"
  obtains mid where "if n = 0 then mid = rt else torn D (results D b) (bumped D (rt, s)) mid"
    and "chain_synced D inv (mid, s')"
proof (cases n)
  case 0
  have "s' = s"
    using run unfolding 0
  proof (cases rule: execute_block_SomeE)
    case bad_header
    then show ?thesis by (simp add: bumped_def Let_def)
  next
    case run
    then show ?thesis by (auto simp: bumped_def Let_def dest: apply_extrinsics_full)
  qed
  with that synced 0 show thesis by simp
next
  case (Suc k)
  have bump: "bumped (crash_deps D) (rt, (Suc k, s)) = (fst (bumped D (rt, s)), (k, snd (bumped D (rt, s))))"
    by (simp add: bumped_def Let_def)
  have "on_system (inc_block_number (d_kv D) (c_u32 (d_codecs D))) (rt, s) = Some (bumped D (rt, s))"
    using run by (cases rule: inc_block_number_cases [of "d_kv D" "c_u32 (d_codecs D)" "rt_system rt" s])
      (auto simp: execute_block_alt on_system_def bumped_def Let_def split: if_splits)
  then have synced1: "chain_synced D inv (bumped D (rt, s))"
    using synced synced_inc_block_number by blast
  from run [unfolded Suc] show thesis
  proof (cases rule: execute_block_SomeE)
    case bad_header
    then show thesis
      using that [of "fst (bumped D (rt, s))"] synced1 torn.between [of D _ "bumped D (rt, s)"] Suc by (simp add: bump)
  next
    case run
    then obtain mid where "torn D (results D b) (bumped D (rt, s)) mid" and "chain_synced D inv (mid, s')"
      using apply_extrinsics_crash [of "fst (bumped D (rt, s))" "snd (bumped D (rt, s))"] synced1
      by (simp add: bump) blast
    then show thesis using that Suc by simp
  qed
qed

end

section \<open>What the torn states have in common\<close>

lemma inc_nonce_on_system:
  assumes "on_system (inc_nonce K ca cu who) ch = Some ch1"
  shows "rt_balances (fst ch1) = rt_balances (fst ch)" and "rt_poe (fst ch1) = rt_poe (fst ch)"
    and "block_number (rt_system (fst ch1)) = block_number (rt_system (fst ch))"
    and "nonce_of ch1 a = nonce_of ch a + (if a = who then 1 else 0)"
    and "runtime_wf (fst ch) \<Longrightarrow> runtime_wf (fst ch1)"
  using assms
  by (cases rule: inc_nonce_cases [of K ca cu who "rt_system (fst ch)" "snd ch"];
      auto simp: on_system_def runtime_wf_def)+

lemma torn_number: "torn D xs ch rt \<Longrightarrow> block_number (rt_system rt) = block_number (rt_system (fst ch))"
proof (induction rule: torn.induct)
  case (later x ch ch' xs rt)
  then show ?case by (cases x) (auto dest: apply_extrinsic_nonce(2))
qed (auto simp: on_balances_alt dest: inc_nonce_on_system(3))

lemma torn_nonce: "torn D xs ch rt \<Longrightarrow> nonce_of ch a \<le> unat (nonce (rt_system rt) a)"
proof (induction rule: torn.induct)
  case (later x ch ch' xs rt)
  then show ?case by (cases x) (auto dest: apply_extrinsic_nonce(1) [of _ _ _ _ _ a])
qed (auto simp: on_balances_alt dest: inc_nonce_on_system(4) [of _ _ _ _ _ _ a])

lemma torn_issuance_le:
  assumes "torn D xs ch rt" and "runtime_wf (fst ch)"
  shows "total_issuance (rt_balances rt) \<le> issuance ch + sum_list (map (\<lambda>x. self_amount (fst x)) xs)"
  using assms
proof (induction rule: torn.induct)
  case (after_debit e v ch ch1 to amount xs)
  have wf: "balances_wf (fst (rt_balances (fst ch1), snd ch1))"
    using inc_nonce_on_system(5) [OF after_debit(2)] after_debit.prems by (simp add: runtime_wf_def)
  have "unat (balance (rt_balances (fst ch1)) (ext_signer e) - amount) \<le> unat (balance (rt_balances (fst ch1)) (ext_signer e))"
    using after_debit(4) by (simp add: unat_sub word_le_nat_alt)
  then show ?case
    using total_issuance_set_balance [OF wf, of "d_kv D" "c_account (d_codecs D)" "c_u128 (d_codecs D)" "ext_signer e"
        "balance (rt_balances (fst ch1)) (ext_signer e) - amount"] inc_nonce_on_system(1) [OF after_debit(2)]
    by (simp add: on_balances_alt)
next
  case (later x ch ch' xs rt)
  obtain e v where x: "x = (e, v)" by (cases x)
  show ?case
    using later apply_extrinsic_issuance(2) [of D e v ch ch'] apply_extrinsic_wf [of D e v ch ch'] by (auto simp: x)
qed (auto dest: inc_nonce_on_system(1))

text \<open>A torn state lacks at most the amount of one transfer, whose nonce is used up.\<close>

lemma torn_issuance_ge:
  assumes "torn D xs ch rt" and "runtime_wf (fst ch)"
  shows "issuance ch \<le> total_issuance (rt_balances rt) \<or>
    (\<exists>e to amount. (e, Ok_unit) \<in> set xs \<and> ext_call e = RC_balances (Call_transfer to amount) \<and>
       issuance ch \<le> total_issuance (rt_balances rt) + unat amount \<and>
       unat (ext_nonce e) < unat (nonce (rt_system rt) (ext_signer e)))"
  using assms
proof (induction rule: torn.induct)
  case (after_debit e v ch ch1 to amount xs)
  have wf: "balances_wf (fst (rt_balances (fst ch1), snd ch1))"
    using inc_nonce_on_system(5) [OF after_debit(2)] after_debit.prems by (simp add: runtime_wf_def)
  have "unat (balance (rt_balances (fst ch1)) (ext_signer e) - amount) + unat amount = unat (balance (rt_balances (fst ch1)) (ext_signer e))"
    using after_debit(4) by (simp add: unat_sub word_le_nat_alt)
  then have "issuance ch = unat amount +
     total_issuance (fst (set_balance (d_kv D) (c_account (d_codecs D)) (c_u128 (d_codecs D)) (ext_signer e)
       (balance (rt_balances (fst ch1)) (ext_signer e) - amount) (rt_balances (fst ch1), snd ch1)))"
    using total_issuance_set_balance [OF wf, of "d_kv D" "c_account (d_codecs D)" "c_u128 (d_codecs D)" "ext_signer e"
        "balance (rt_balances (fst ch1)) (ext_signer e) - amount"] inc_nonce_on_system(1) [OF after_debit(2)]
    by simp
  moreover have "v = Ok_unit" and "unat (ext_nonce e) < nonce_of ch1 (ext_signer e)"
    using after_debit(1) inc_nonce_on_system(4) [OF after_debit(2), of "ext_signer e"] by (auto simp: admissible_def)
  ultimately show ?case
    using after_debit(3) by (intro disjI2 exI [of _ e] exI [of _ to] exI [of _ amount]) (simp add: on_balances_alt)
next
  case (later x ch ch' xs rt)
  obtain e v where x: "x = (e, v)" by (cases x)
  have "issuance ch \<le> issuance ch'" and "runtime_wf (fst ch')"
    using later apply_extrinsic_issuance(1) [of D e v ch ch'] apply_extrinsic_wf [of D e v ch ch'] by (auto simp: x)
  with later.IH show ?case by (meson le_trans list.set_intros(2))
qed (auto dest: inc_nonce_on_system(1))

section \<open>Genesis on a disk that fills up\<close>

lemma fund_crash [simp]:
  "fund (crash_deps D) a (rt, (Suc n, s)) = (fst (fund D a (rt, s)), (n, snd (fund D a (rt, s))))"
  "fund (crash_deps D) a (rt, (0, s)) = (fst (fund D a (rt, s)), (0, s))"
  by (simp_all add: fund_def on_balances_alt)

lemma bumped_crash [simp]:
  "bumped (crash_deps D) (rt, (Suc n, s)) = (fst (bumped D (rt, s)), (n, snd (bumped D (rt, s))))"
  "bumped (crash_deps D) (rt, (0, s)) = (fst (bumped D (rt, s)), (0, s))"
  by (simp_all add: bumped_def Let_def)

text \<open>The dev accounts that the first \<open>k\<close> writes of the genesis fund.\<close>

definition funded :: "('st, 'sk, 'vk) deps \<Rightarrow> nat \<Rightarrow> 'st chain \<Rightarrow> 'st chain" where
  "funded D k ch = fold (fund D) (take k [Alice, Bob, Charlie]) ch"

lemma genesis_crash_disk:
  assumes "block_number (rt_system rt) = 0" and "maybe_apply_genesis (crash_deps D) (rt, (n, s)) = Some (rt', (m, s'))"
  shows "(\<exists>k. s' = snd (funded D k (rt, s))) \<or> s' = snd (bumped D (funded D 3 (rt, s)))"
proof -
  have gen: "bumped (crash_deps D) (fund (crash_deps D) Charlie (fund (crash_deps D) Bob (fund (crash_deps D) Alice (rt, (n, s))))) =
      (rt', (m, s'))"
    using assms genesis_fresh [of "(rt, (n, s))" "crash_deps D"] by simp
  consider "n = 0" | "n = 1" | "n = 2" | "n = 3" | k where "n = Suc (Suc (Suc (Suc k)))"
    by (metis One_nat_def Suc_1 numeral_3_eq_3 old.nat.exhaust)
  then show ?thesis
  proof cases
    case 1 then show ?thesis using gen by (intro disjI1 exI [of _ 0]) (simp add: funded_def)
  next
    case 2 then show ?thesis using gen by (intro disjI1 exI [of _ 1]) (simp add: funded_def)
  next
    case 3 then show ?thesis using gen by (intro disjI1 exI [of _ 2]) (simp add: funded_def numeral_2_eq_2)
  next
    case 4 then show ?thesis using gen by (intro disjI1 exI [of _ 3]) (simp add: funded_def numeral_3_eq_3)
  next
    case 5 then show ?thesis using gen by (intro disjI2) (simp add: funded_def numeral_3_eq_3)
  qed
qed

lemma funded_simps [simp]:
  "rt_system (fst (funded D k ch)) = rt_system (fst ch)"
  "balance (rt_balances (fst (funded D k ch))) a =
   (if a \<in> public (d_ed25519 D) ` set (take k [Alice, Bob, Charlie]) then 1000000 else balance (rt_balances (fst ch)) a)"
proof -
  have "rt_system (fst (fold (fund D) xs ch)) = rt_system (fst ch) \<and>
    balance (rt_balances (fst (fold (fund D) xs ch))) a =
    (if a \<in> public (d_ed25519 D) ` set xs then 1000000 else balance (rt_balances (fst ch)) a)" for xs a
    by (induction xs arbitrary: ch) auto
  then show "rt_system (fst (funded D k ch)) = rt_system (fst ch)"
    "balance (rt_balances (fst (funded D k ch))) a =
     (if a \<in> public (d_ed25519 D) ` set (take k [Alice, Bob, Charlie]) then 1000000 else balance (rt_balances (fst ch)) a)"
    by (simp_all add: funded_def)
qed

lemma genesis_funded:
  "block_number (rt_system (fst ch)) = 0 \<Longrightarrow> maybe_apply_genesis D ch = Some (bumped D (funded D 3 ch))"
  by (simp add: genesis_fresh funded_def numeral_3_eq_3)

context runtime_host
begin

lemma synced_funded: "chain_synced D inv ch \<Longrightarrow> chain_synced D inv (funded D k ch)"
proof -
  have "chain_synced D inv ch \<Longrightarrow> chain_synced D inv (fold (fund D) xs ch)" for xs
    by (induction xs arbitrary: ch) (simp_all add: fund_def synced_set_balance del: split_paired_All)
  then show "chain_synced D inv ch \<Longrightarrow> chain_synced D inv (funded D k ch)"
    by (simp add: funded_def)
qed

lemma genesis_crash_safe_aux:
  assumes synced: "chain_synced D inv (rt, s)"
    and run: "maybe_apply_genesis (crash_deps D) (rt, (n, s)) = Some (rt1, (m, s1))"
    and whole: "maybe_apply_genesis D (rt, s) = Some (rt2, s2)"
  shows "\<exists>rt3 s3. maybe_apply_genesis D (runtime_new D s1, s1) = Some (rt3, s3) \<and>
    rt_system rt3 = rt_system rt2 \<and> balance (rt_balances rt3) = balance (rt_balances rt2)"
proof (cases "block_number (rt_system rt) = 0")
  case False
  then have "s1 = s" and "rt2 = rt"
    using run whole by (simp_all add: maybe_apply_genesis_def)
  then show ?thesis
    using restart_exact [OF synced] False by (intro exI [of _ "runtime_new D s1"] exI [of _ s1]) (simp add: maybe_apply_genesis_def)
next
  case True
  then have rt2: "rt2 = fst (bumped D (funded D 3 (rt, s)))"
    using whole genesis_funded [of "(rt, s)" D] by (metis fst_conv option.inject)
  from genesis_crash_disk [OF True run] show ?thesis
  proof
    assume "\<exists>k. s1 = snd (funded D k (rt, s))"
    then obtain k where s1: "s1 = snd (funded D k (rt, s))" by blast
    let ?ch = "(runtime_new D s1, s1)"
    have core: "rt_system (fst ?ch) = rt_system rt" "rt_balances (fst ?ch) = rt_balances (fst (funded D k (rt, s)))"
      using restart_exact(1,2) [of "fst (funded D k (rt, s))" s1] synced_funded [OF synced, of k] by (simp_all add: s1)
    then have "maybe_apply_genesis D ?ch = Some (bumped D (funded D 3 ?ch))"
      using True by (intro genesis_funded) simp
    moreover have "rt_system (fst (bumped D (funded D 3 ?ch))) = rt_system rt2"
      by (simp add: rt2 bumped_def Let_def core [simplified])
    moreover have "balance (rt_balances (fst (bumped D (funded D 3 ?ch)))) a = balance (rt_balances rt2) a" for a
      by (auto simp: rt2 core [simplified] numeral_3_eq_3 dest!: in_set_takeD)
    ultimately show ?thesis
      by (intro exI [of _ "fst (bumped D (funded D 3 ?ch))"] exI [of _ "snd (bumped D (funded D 3 ?ch))"]) (simp add: fun_eq_iff)
  next
    assume s1: "s1 = snd (bumped D (funded D 3 (rt, s)))"
    have "chain_synced D inv (rt2, s1)"
      using synced_genesis [OF synced genesis_funded] True by (simp add: rt2 s1)
    from restart_exact [OF this] show ?thesis
      using True by (intro exI [of _ "runtime_new D s1"] exI [of _ s1]) (simp add: maybe_apply_genesis_def rt2)
  qed
qed

end

end
