(* ===== verification/Deployment.thy ===== *)
theory Deployment
  imports Reference_Node Crash
begin

text \<open>
  Properties of a deployed node, across the components: what a restart finds after the
  process died while writing, the way of a submission from the command line through the
  server into the node, and the commands that work on the database.
\<close>

section \<open>Crashes\<close>

text \<open>C12: Crash recovery. The process dies, or the disk fills up, after any number \<open>n\<close> of writes
  of a block. A restart then finds the state before the block (\<open>n = 0\<close>), or a state of the
  block with its header written: exactly between two extrinsics, after the nonce of an
  admissible extrinsic, or between the two writes of one of its transfers. Claims may be
  missing, as after every restart.\<close>

theorem crash_recovery:
  assumes "runtime_host D I" and "chain_reach D I (rt, s)"
    and "execute_block (crash_deps D) b (rt, (n, s)) = Some (r, (rt', (m, s')))"
  shows "\<exists>mid. (if n = 0 then mid = rt else torn D (results D b) (bumped D (rt, s)) mid) \<and>
    rt_system (runtime_new D s') = rt_system mid \<and> rt_balances (runtime_new D s') = rt_balances mid \<and>
    get_claim (rt_poe (runtime_new D s')) \<subseteq>\<^sub>m get_claim (rt_poe mid)"
  using runtime_host.execute_block_crash [OF assms(1) runtime_host.reach_synced [OF assms(1,2)] assms(3)]
    runtime_host.restart_exact [OF assms(1)] by metis

lemma ref_crash_run:
  obtains r rt' m s' where "execute_block (crash_deps ref_deps) (ref_block 2 [ref_ext Alice 0 call])
    (fst ref_start, (n, snd ref_start)) = Some (r, (rt', (m, s')))"
proof -
  have "nonce_of (fst ref_start, (n, snd ref_start)) a + length (by_signer a (blk_extrinsics (ref_block 2 [ref_ext Alice 0 call]))) < 2 ^ 32" for a
    using ref_nonce_room [of "[ref_ext Alice 0 call]" a] by simp
  then show thesis
    using that execute_block_total [of "(fst ref_start, (n, snd ref_start))" "ref_block 2 [ref_ext Alice 0 call]" "crash_deps ref_deps"]
    by auto
qed

theorem crash_recovery_witness:
  "\<exists>r rt' m s'. execute_block (crash_deps ref_deps)
       (ref_block 2 [ref_ext Alice 0 (RC_balances (Call_transfer (public ref_ed25519 Bob) 5))])
       (fst ref_start, (1, snd ref_start)) = Some (r, (rt', (m, s'))) \<and>
     block_number (rt_system (runtime_new ref_deps s')) = 2"
proof -
  obtain r rt' m s' where run: "execute_block (crash_deps ref_deps)
       (ref_block 2 [ref_ext Alice 0 (RC_balances (Call_transfer (public ref_ed25519 Bob) 5))])
       (fst ref_start, (1, snd ref_start)) = Some (r, (rt', (m, s')))"
    by (rule ref_crash_run)
  have "chain_reach ref_deps bt_wf (fst ref_start, snd ref_start)"
    using ref_start_reach by simp
  from crash_recovery [OF ref_runtime_host this run] obtain mid where
    "torn ref_deps (results ref_deps (ref_block 2 [ref_ext Alice 0 (RC_balances (Call_transfer (public ref_ed25519 Bob) 5))]))
       (bumped ref_deps ref_start) mid" and "rt_system (runtime_new ref_deps s') = rt_system mid"
    by auto
  with torn_number [OF this(1)] run show ?thesis by auto
qed

lemma crash_restart:
  assumes host: "runtime_host D I" and reach: "chain_reach D I (rt, s)"
    and run: "execute_block (crash_deps D) b (rt, (n, s)) = Some (r, (rt', (m, s')))"
  obtains "rt_system (runtime_new D s') = rt_system rt" "rt_balances (runtime_new D s') = rt_balances rt" "n = 0"
  | mid where "torn D (results D b) (bumped D (rt, s)) mid" "rt_system (runtime_new D s') = rt_system mid"
      "rt_balances (runtime_new D s') = rt_balances mid" "n \<noteq> 0"
  using runtime_host.execute_block_crash [OF host runtime_host.reach_synced [OF host reach] run]
    runtime_host.restart_exact(1,2) [OF host] by (metis (full_types))

text \<open>C15: What a crash can cost. Whenever the process dies within a block, after the restart the
  supply is above the old one by at most the transfers to oneself; it is below it by at most
  the amount of one verified transfer of the block, whose nonce is used up; no nonce went
  back; and if anything of an accepted block was written, that block is rejected when it
  comes again.\<close>

theorem crash_consequences:
  assumes "runtime_host D I" and "chain_reach D I (rt, s)"
    and "execute_block (crash_deps D) b (rt, (n, s)) = Some (r, (rt', (m, s')))"
  shows "issuance (runtime_new D s', s') \<le> issuance (rt, s) + sum_list (map self_amount (blk_extrinsics b)) \<and>
    (issuance (rt, s) \<le> issuance (runtime_new D s', s') \<or>
     (\<exists>e to amount. e \<in> set (blk_extrinsics b) \<and> verify (d_ed25519 D) (d_payload D) e = Ok_unit \<and>
        ext_call e = RC_balances (Call_transfer to amount) \<and>
        issuance (rt, s) \<le> issuance (runtime_new D s', s') + unat amount \<and>
        unat (ext_nonce e) < nonce_of (runtime_new D s', s') (ext_signer e))) \<and>
    nonce_of (rt, s) a \<le> nonce_of (runtime_new D s', s') a \<and>
    (0 < n \<and> r = Ok_unit \<longrightarrow> (\<forall>ch'. execute_block D b (runtime_new D s', s') \<noteq> Some (Ok_unit, ch')))"
  using assms
proof (cases rule: crash_restart)
  case 1
  then show ?thesis by simp
next
  case (2 mid)
  have wf: "runtime_wf (fst (bumped D (rt, s)))"
    using runtime_host.reach_synced [OF assms(1,2)] by (auto dest: chain_synced_wf)
  have up: "issuance (runtime_new D s', s') \<le> issuance (rt, s) + sum_list (map self_amount (blk_extrinsics b))"
    using torn_issuance_le [OF 2(1) wf] by (simp add: 2 results_alt comp_def)
  have down: "issuance (rt, s) \<le> issuance (runtime_new D s', s') \<or>
     (\<exists>e to amount. e \<in> set (blk_extrinsics b) \<and> verify (d_ed25519 D) (d_payload D) e = Ok_unit \<and>
        ext_call e = RC_balances (Call_transfer to amount) \<and>
        issuance (rt, s) \<le> issuance (runtime_new D s', s') + unat amount \<and>
        unat (ext_nonce e) < nonce_of (runtime_new D s', s') (ext_signer e))"
    using torn_issuance_ge [OF 2(1) wf] by (auto simp: 2 results_alt)
  have up_nonce: "nonce_of (rt, s) a \<le> nonce_of (runtime_new D s', s') a"
    using torn_nonce [OF 2(1), of a] by (simp add: 2)
  have number: "block_number (rt_system (runtime_new D s')) = block_number (rt_system rt) + 1"
    using torn_number [OF 2(1)] by (simp add: 2)
  have "execute_block D b (runtime_new D s', s') \<noteq> Some (Ok_unit, ch')" if "r = Ok_unit" for ch'
  proof -
    have "hd_block_number (blk_header b) = block_number (rt_system rt) + 1"
      using assms(3) that by (cases rule: execute_block_SomeE) auto
    then show ?thesis by (simp add: execute_block_alt number)
  qed
  with up down up_nonce show ?thesis by blast
qed

theorem crash_consequences_witness:
  "\<exists>r rt' m s'. execute_block (crash_deps ref_deps)
       (ref_block 2 [ref_ext Alice 0 (RC_balances (Call_transfer (public ref_ed25519 Bob) 5))])
       (fst ref_start, (3, snd ref_start)) = Some (r, (rt', (m, s'))) \<and>
     issuance (runtime_new ref_deps s', s') \<le> issuance ref_start \<and>
     issuance ref_start \<le> issuance (runtime_new ref_deps s', s') + 5"
  (is "\<exists>r rt' m s'. execute_block _ ?b _ = _ \<and> _")
proof -
  obtain r rt' m s' where run: "execute_block (crash_deps ref_deps) ?b (fst ref_start, (3, snd ref_start)) = Some (r, (rt', (m, s')))"
    by (rule ref_crash_run)
  have reach: "chain_reach ref_deps bt_wf (fst ref_start, snd ref_start)"
    using ref_start_reach by simp
  have "issuance (runtime_new ref_deps s', s') \<le> issuance ref_start"
    "issuance ref_start \<le> issuance (runtime_new ref_deps s', s') + 5"
    using crash_consequences [OF ref_runtime_host reach run] by (auto simp: self_amount_def)
  with run show ?thesis by blast
qed


text \<open>The two writes of a transfer are not one: a process that dies between them has taken the
  amount from the sender and given it to nobody.\<close>

lemma crash_burns_amount:
  assumes host: "runtime_host D I" and reach: "chain_reach D I (rt, s)"
    and adm: "verify (d_ed25519 D) (d_payload D) e = Ok_unit" "nonce (rt_system rt) (ext_signer e) = ext_nonce e"
    and call: "ext_call e = RC_balances (Call_transfer to amount)" and other: "ext_signer e \<noteq> to"
    and range: "unat (block_number (rt_system rt)) < 2 ^ 32 - 1" "unat (ext_nonce e) < 2 ^ 32 - 1"
    and enough: "unat amount \<le> unat (balance (rt_balances rt) (ext_signer e))"
      "unat (balance (rt_balances rt) to) + unat amount < 2 ^ 128"
  shows "\<exists>rt' m s'. execute_block (crash_deps D)
      \<lparr>blk_header = \<lparr>hd_block_number = block_number (rt_system rt) + 1\<rparr>, blk_extrinsics = [e]\<rparr> (rt, (3, s)) =
      Some (Ok_unit, (rt', (m, s'))) \<and>
    balance (rt_balances (runtime_new D s')) (ext_signer e) = balance (rt_balances rt) (ext_signer e) - amount \<and>
    balance (rt_balances (runtime_new D s')) to = balance (rt_balances rt) to"
proof -
  let ?a = "ext_signer e"
  let ?inc = "\<lambda>K. on_system (inc_nonce K (c_account (d_codecs D)) (c_u32 (d_codecs D)) ?a)"
  let ?pay = "set_balance (d_kv D) (c_account (d_codecs D)) (c_u128 (d_codecs D)) ?a (balance (rt_balances rt) ?a - amount)"
  obtain rt0 s0 where bump: "bumped D (rt, s) = (rt0, s0)" by fastforce
  have rt0: "rt_balances rt0 = rt_balances rt" "nonce (rt_system rt0) = nonce (rt_system rt)"
    using bumped_simps(1,3) [of D "(rt, s)"] by (simp_all add: bump)
  obtain n' where n': "checked_add (nonce (rt_system rt0) ?a) 1 = Some n'"
    using range(2) checked_add_one_cases [of "nonce (rt_system rt0) ?a"] adm(2) rt0 by force
  obtain rt1 s1 where inc: "?inc (d_kv D) (rt0, s0) = Some (rt1, s1)"
    and inc_crash: "?inc (crashing (d_kv D)) (rt0, (2, s0)) = Some (rt1, (1, s1))"
    using n' by (simp add: on_system_def inc_nonce_def Let_def nonce_def numeral_2_eq_2)
  have rt1: "rt_balances rt1 = rt_balances rt"
    using inc_nonce_on_system(1) [OF inc] rt0 by simp
  have "transfer (crashing (d_kv D)) (c_account (d_codecs D)) (c_u128 (d_codecs D)) ?a to amount (rt_balances rt1, (1, s1)) =
      (Ok_unit, set_balance (crashing (d_kv D)) (c_account (d_codecs D)) (c_u128 (d_codecs D)) to (balance (rt_balances rt) to + amount)
         (fst (?pay (rt_balances rt1, s1)), (0, snd (?pay (rt_balances rt1, s1)))))"
    using enough
    by (cases rule: transfer_cases [of "crashing (d_kv D)" "c_account (d_codecs D)" "c_u128 (d_codecs D)" ?a to amount "(rt_balances rt1, (1, s1))"])
      (simp_all add: rt1)
  then obtain rt' where
    "map_option snd (runtime_dispatch (crash_deps D) ?a (ext_call e) (rt1, (1, s1))) = Some (rt', (0, snd (?pay (rt_balances rt1, s1))))"
    by (simp add: call)
  moreover have "admissible (e, Ok_unit) rt0"
    using adm by (simp add: admissible_def rt0)
  ultimately have "apply_extrinsic (crash_deps D) (e, Ok_unit) (rt0, (2, s0)) = Some (rt', (0, snd (?pay (rt_balances rt1, s1))))"
    using inc_crash by (simp add: apply_extrinsic_admissible)
  moreover have "bumped (crash_deps D) (rt, (3, s)) = (rt0, (2, s0))"
    by (simp add: numeral_3_eq_3 bump numeral_2_eq_2)
  ultimately have run: "execute_block (crash_deps D)
      \<lparr>blk_header = \<lparr>hd_block_number = block_number (rt_system rt) + 1\<rparr>, blk_extrinsics = [e]\<rparr> (rt, (3, s)) =
      Some (Ok_unit, (rt', (0, snd (?pay (rt_balances rt1, s1)))))"
    using range(1) adm(1) by (simp add: execute_block_alt results_alt)
  have "chain_synced D I (rt0, s0)"
    using runtime_host.synced_inc_block_number [OF host runtime_host.reach_synced [OF host reach]] range(1)
    by (cases rule: inc_block_number_cases [of "d_kv D" "c_u32 (d_codecs D)" "rt_system rt" s])
      (auto simp: on_system_def bump [symmetric] bumped_def Let_def)
  then have "chain_synced D I (on_balances ?pay (rt1, s1))"
    using runtime_host.synced_inc_nonce [OF host _ inc] runtime_host.synced_set_balance [OF host] by blast
  then have "chain_synced D I (fst (on_balances ?pay (rt1, s1)), snd (?pay (rt_balances rt1, s1)))"
    by (simp add: on_balances_alt)
  from runtime_host.restart_exact(2) [OF host this] show ?thesis
    using run other by (intro exI [of _ rt'] exI [of _ 0] exI [of _ "snd (?pay (rt_balances rt1, s1))"]) (simp add: rt1)
qed


text \<open>C32: Genesis survives a crash. If the process dies after any number of writes of the genesis,
  the next start applies the genesis again or finds it done, and ends with exactly the
  height, nonces and balances of an undisturbed genesis.\<close>

theorem genesis_crash_safe:
  assumes "runtime_host D I" and "chain_reach D I (rt, s)"
    and "maybe_apply_genesis (crash_deps D) (rt, (n, s)) = Some (rt1, (m, s1))"
    and "maybe_apply_genesis D (rt, s) = Some (rt2, s2)"
  shows "\<exists>rt3 s3. maybe_apply_genesis D (runtime_new D s1, s1) = Some (rt3, s3) \<and>
    rt_system rt3 = rt_system rt2 \<and> balance (rt_balances rt3) = balance (rt_balances rt2)"
  using assms(1) runtime_host.reach_synced [OF assms(1,2)] assms(3,4) by (rule runtime_host.genesis_crash_safe_aux)

theorem genesis_crash_safe_witness:
  "\<exists>rt1 m s1 rt3 s3. maybe_apply_genesis (crash_deps ref_deps) (fst ref_boot, (2, snd ref_boot)) = Some (rt1, (m, s1)) \<and>
     maybe_apply_genesis ref_deps (runtime_new ref_deps s1, s1) = Some (rt3, s3) \<and>
     balance (rt_balances rt3) (public ref_ed25519 Charlie) = 1000000"
proof -
  obtain rt1 m s1 where run: "maybe_apply_genesis (crash_deps ref_deps) (fst ref_boot, (2, snd ref_boot)) = Some (rt1, (m, s1))"
    using genesis_fresh [of "(fst ref_boot, (2, snd ref_boot))" "crash_deps ref_deps"]
    by (metis fst_conv prod.exhaust ref_boot_simps(1))
  have "chain_reach ref_deps bt_wf (fst ref_boot, snd ref_boot)"
    using ref_boot_reach by simp
  from genesis_crash_safe [OF ref_runtime_host this run, of "fst ref_start" "snd ref_start"] run ref_genesis show ?thesis
    by (auto simp: fun_eq_iff)
qed

section \<open>From the command line to the mempool\<close>

text \<open>
  What the command line relies on: a service that answers every dev account with its next
  nonce. The commands that submit to a node are proved against this contract.
\<close>

definition signed_by :: "('st, 'sk, 'vk) node_deps \<Rightarrow> (AccountId32 \<Rightarrow> u32) \<Rightarrow> AccountKeyring \<Rightarrow> RuntimeCall \<Rightarrow> ext" where
  "signed_by N next_nonce k call =
     new_signed (d_ed25519 N) (d_payload N) (signing_key (d_ed25519 N) k) (next_nonce (public (d_ed25519 N) k)) call"

locale nonce_service =
  fixes N :: "('st, 'sk, 'vk) node_deps" and get :: "string \<Rightarrow> string + string" and url :: string
    and next_nonce :: "AccountId32 \<Rightarrow> u32"
  assumes get_nonce: "get (url @ ''/nonce/'' @ hex_of (arr32_list (as_bytes (public (d_ed25519 N) k)))) =
    Inr (u32_to_string (next_nonce (public (d_ed25519 N) k)))"
begin

lemma remote_submit_posts:
  "remote_submit N get url k call = Some (Posted (url @ ''/submit'') (encode (n_ext N) (signed_by N next_nonce k call)))"
  using get_nonce [of k] by (simp add: remote_submit_def Let_def parse_to_string signed_by_def)

lemma submit_transfer_posts:
  "from_name from = Some a \<Longrightarrow> from_name to = Some b \<Longrightarrow>
   submit_transfer N get from to amount (Some url) db =
   Some (Posted (url @ ''/submit'')
     (encode (n_ext N) (signed_by N next_nonce a (RC_balances (Call_transfer (public (d_ed25519 N) b) amount)))))"
  by (simp add: submit_transfer_def Let_def remote_submit_posts)

lemma submit_claim_posts:
  "from_name account = Some a \<Longrightarrow>
   submit_claim N get account claim (Some url) db =
   Some (Posted (url @ ''/submit'') (encode (n_ext N) (signed_by N next_nonce a (RC_proof_of_existence (Call_create_claim claim)))))"
  by (simp add: submit_claim_def Let_def remote_submit_posts)

end

text \<open>The server of a node provides it: the next nonce is the account's plus its pending ones.\<close>

definition usable_nonce :: "('st, 'p) node_state \<Rightarrow> AccountId32 \<Rightarrow> u32" where
  "usable_nonce n a = nonce (rt_system (fst (ns_chain n))) a + word_of_nat (length (by_signer a (mp_pending (ns_pool n))))"

locale served_node =
  fixes S :: "('st, 'sk, 'vk) server_deps" and n :: "('st, 'p) node_state" and url :: string
  assumes routes: "routes_ok (s_match S)" and hex: "n_hex_decode S (hex_of bs) = Inr bs"
    and room: "nonce_of (ns_chain n) (public (d_ed25519 S) k) +
      length (by_signer (public (d_ed25519 S) k) (mp_pending (ns_pool n))) < 2 ^ 32"
begin

lemma served_nonce:
  "served_get S n url (url @ ''/nonce/'' @ hex_of (arr32_list (as_bytes (public (d_ed25519 S) k)))) =
   Inr (u32_to_string (usable_nonce n (public (d_ed25519 S) k)))"
proof -
  let ?bs = "arr32_list (as_bytes (public (d_ed25519 S) k))"
  have acc: "account_of ?bs = public (d_ed25519 S) k" by simp
  have "nonce_handler (node_of S) (fst (ns_chain n)) (ns_pool n) (hex_of ?bs) =
      Some (Inr (u32_to_string (usable_nonce n (public (d_ed25519 S) k))))"
    using nonce_handler_value [of "node_of S" "hex_of ?bs" ?bs "fst (ns_chain n)" "ns_pool n"] hex room
    unfolding acc by (simp add: usable_nonce_def)
  moreover have "length ?bs \<noteq> 0" by simp
  then have "?bs \<noteq> []" by force
  from hex_of_segment [OF this] have "hex_of ?bs \<noteq> []" "CHR ''/'' \<notin> set (hex_of ?bs)" by blast+
  ultimately show ?thesis
    using serve_nonce [OF routes, of "hex_of ?bs" "[]" n] by (simp add: served_get_def)
qed

lemma unat_usable_nonce:
  "unat (usable_nonce n (public (d_ed25519 S) k)) =
   nonce_of (ns_chain n) (public (d_ed25519 S) k) + length (by_signer (public (d_ed25519 S) k) (mp_pending (ns_pool n)))"
  using room [of k] by (simp add: usable_nonce_def unat_word_ariths unat_of_nat)

end

sublocale served_node \<subseteq> nonce_service "node_of S" "served_get S n url" url "usable_nonce n"
  by unfold_locales (simp only: node_of_simps served_nonce)

context served_node
begin

lemmas served_posts = submit_transfer_posts submit_claim_posts

end

interpretation ref_served: served_node ref_server ref_state url for url
proof
  show "nonce_of (ns_chain ref_state) (public (d_ed25519 ref_server) k) +
      length (by_signer (public (d_ed25519 ref_server) k) (mp_pending (ns_pool ref_state))) < 2 ^ 32" for k
    by (simp add: ref_state_def with_block_limit_def)
qed simp_all

lemma posted_reaches_queue:
  assumes "routes_ok (s_match S)" and "codec_ok (n_ext S)"
  shows "\<exists>m'. serve_rpc S \<lparr>rq_method = POST, rq_path = ''/submit'', rq_body = encode (n_ext S) e\<rparr> m = Some (Reply 202 [], m') \<and>
    ns_rx_ext m' = ns_rx_ext m @ [e]"
  using assms(2) serve_submit [OF assms(1), of "encode (n_ext S) e" m] by (simp add: on_rpc_submit_def submit_handler_def)

text \<open>C19: From the command line into the node. \<open>submit-transfer\<close> and \<open>submit-claim\<close>, connected to
  the server of a node, get the nonce the node computed, sign the call with it and post it;
  the server then answers 202 in any later state and queues an extrinsic for the mempool that
  is that call of the sender, verifies, and carries the account's nonce plus the number of
  its extrinsics that were pending.\<close>

theorem cli_reaches_node:
  fixes S :: "('st, 'sk, 'vk) server_deps"
  defines "A \<equiv> \<lambda>k. public (d_ed25519 S) k"
  assumes "ed25519_ok (d_ed25519 S)" and "codec_ok (n_ext S)" and "routes_ok (s_match S)"
    and "\<And>bs. n_hex_decode S (hex_of bs) = Inr bs"
    and "\<And>k. nonce_of (ns_chain n) (A k) + length (by_signer (A k) (mp_pending (ns_pool n))) < 2 ^ 32"
    and "from_name from = Some a" and "from_name to = Some b"
    and "(cmd, call) \<in>
      {(submit_transfer (node_of S) (served_get S n url) from to amount (Some url) db, RC_balances (Call_transfer (A b) amount)),
       (submit_claim (node_of S) (served_get S n url) from claim (Some url) db, RC_proof_of_existence (Call_create_claim claim))}"
  shows "\<exists>bytes e m'. cmd = Some (Posted (url @ ''/submit'') bytes) \<and>
    serve_rpc S \<lparr>rq_method = POST, rq_path = ''/submit'', rq_body = bytes\<rparr> m = Some (Reply 202 [], m') \<and>
    ns_rx_ext m' = ns_rx_ext m @ [e] \<and> ext_signer e = A a \<and> ext_call e = call \<and>
    verify (d_ed25519 S) (d_payload S) e = Ok_unit \<and>
    unat (ext_nonce e) = nonce_of (ns_chain n) (A a) + length (by_signer (A a) (mp_pending (ns_pool n)))"
proof -
  have served: "served_node S n"
    using assms(4-6) by (simp add: served_node_def A_def)
  note posts = served_node.served_posts(1) [OF served assms(7,8)] served_node.served_posts(2) [OF served assms(7)]
    signed_by_def
  let ?e = "new_signed (d_ed25519 S) (d_payload S) (signing_key (d_ed25519 S) a) (usable_nonce n (A a)) call"
  have "cmd = Some (Posted (url @ ''/submit'') (encode (n_ext S) ?e))"
    using assms(9) by (auto simp: posts A_def)
  moreover have "unat (usable_nonce n (A a)) = nonce_of (ns_chain n) (A a) + length (by_signer (A a) (mp_pending (ns_pool n)))"
    unfolding A_def by (rule served_node.unat_usable_nonce [OF served])
  moreover have "verify (d_ed25519 S) (d_payload S) ?e = Ok_unit"
    using assms(2) by (simp add: verify_new_signed)
  moreover obtain m' where "serve_rpc S \<lparr>rq_method = POST, rq_path = ''/submit'', rq_body = encode (n_ext S) ?e\<rparr> m = Some (Reply 202 [], m')"
    and "ns_rx_ext m' = ns_rx_ext m @ [?e]"
    using posted_reaches_queue [OF assms(4,3)] by blast
  ultimately show ?thesis
    by (intro exI [of _ "encode (n_ext S) ?e"] exI [of _ ?e] exI [of _ m']) (simp add: A_def)
qed

theorem cli_reaches_node_witness:
  "\<exists>bytes e m'. submit_claim ref_node (served_get ref_server ref_state ''http://n'') ''alice'' ''doc'' (Some ''http://n'') None =
      Some (Posted ''http://n/submit'' bytes) \<and>
    serve_rpc ref_server \<lparr>rq_method = POST, rq_path = ''/submit'', rq_body = bytes\<rparr> ref_state = Some (Reply 202 [], m') \<and>
    ns_rx_ext m' = [e] \<and> ext_nonce e = 0"
proof -
  have names: "from_name ''alice'' = Some Alice" "from_name ''bob'' = Some Bob"
    by (simp_all add: from_name_def ascii_lower_def Let_def)
  have ns: "ns_chain ref_state = ref_start" "mp_pending (ns_pool ref_state) = []" "ns_rx_ext ref_state = []"
    by (simp_all add: ref_state_def with_block_limit_def)
  show ?thesis
    using cli_reaches_node [of ref_server ref_state, OF _ _ _ _ _ names,
        of "submit_claim ref_node (served_get ref_server ref_state ''http://n'') ''alice'' ''doc'' (Some ''http://n'') None"
          "RC_proof_of_existence (Call_create_claim ''doc'')" "''http://n''" 500 None "''doc''" ref_state]
    by (auto simp: ns unat_eq_zero)
qed

text \<open>The nonce the server answers counts the pool, not the queue before it: right after a
  submission was accepted a client still gets the nonce it got before, so two submissions in
  quick succession can carry the same nonce.\<close>

lemma nonce_ignores_queue:
  assumes "serve_rpc S \<lparr>rq_method = POST, rq_path = ''/submit'', rq_body = bytes\<rparr> n = Some (Reply 202 body, n')"
    and "routes_ok (s_match S)"
  shows "served_get S n' url u = served_get S n url u"
proof -
  have "n' = on_rpc_submit (node_of S) bytes n"
    using assms(1) serve_submit [OF assms(2), of bytes n] by (simp split: if_splits)
  then have "ns_chain n' = ns_chain n" and "ns_pool n' = ns_pool n"
    by (simp_all add: on_rpc_submit_def submit_handler_def split: option.splits)
  then show ?thesis
    by (auto simp: served_get_def serve_rpc_def split: option.splits sum.splits)
qed

section \<open>The state dump and the ticks\<close>

text \<open>C33: \<open>GET /state\<close> returns the dump of the runtime and changes nothing. Two dumps are equal
  exactly when the runtimes agree in height, in the claimed contents and, entry by entry, in
  nonces, balances and owners, where an account counts by the four bytes at each end that
  the dump shows. Contents are valid UTF-8, as in every Rust string.\<close>

theorem state_dump_faithful:
  assumes "routes_ok (s_match S)"
    and "\<forall>c \<in> fst ` set (poe_claims (rt_poe (fst (ns_chain n)))) \<union> fst ` set (poe_claims (rt_poe (fst (ns_chain m)))). valid_utf8 c"
  shows "\<exists>d d'. serve_rpc S \<lparr>rq_method = GET, rq_path = ''/state'', rq_body = bs\<rparr> n = Some (Reply 200 d, n) \<and>
    serve_rpc S \<lparr>rq_method = GET, rq_path = ''/state'', rq_body = bs\<rparr> m = Some (Reply 200 d', m) \<and>
    (d = d' \<longleftrightarrow>
       system_view (rt_system (fst (ns_chain n))) = system_view (rt_system (fst (ns_chain m))) \<and>
       balances_view (rt_balances (fst (ns_chain n))) = balances_view (rt_balances (fst (ns_chain m))) \<and>
       claims_view (rt_poe (fst (ns_chain n))) = claims_view (rt_poe (fst (ns_chain m))))"
  using serve_state [OF assms(1), of bs n] serve_state [OF assms(1), of bs m]
    runtime_debug_iff [OF assms(2), of "s_printable S"]
  unfolding state_handler_def by blast

lemma ref_no_claims [simp]: "poe_claims (rt_poe (fst ref_boot)) = []" "poe_claims (rt_poe (fst ref_start)) = []"
  using ref.runtime_new_empty(4) [of "[]"] by (simp_all add: ref_start_def ref_boot_def mem_store_defs fund_def on_balances_alt)

theorem state_dump_faithful_witness:
  "\<exists>d d'. serve_rpc ref_server \<lparr>rq_method = GET, rq_path = ''/state'', rq_body = []\<rparr> ref_state = Some (Reply 200 d, ref_state) \<and>
    serve_rpc ref_server \<lparr>rq_method = GET, rq_path = ''/state'', rq_body = []\<rparr> (ref_state\<lparr>ns_chain := ref_boot\<rparr>) =
      Some (Reply 200 d', ref_state\<lparr>ns_chain := ref_boot\<rparr>) \<and> d \<noteq> d'"
proof -
  have ns: "ns_chain ref_state = ref_start" by (simp add: ref_state_def)
  have "system_view (rt_system (fst ref_start)) \<noteq> system_view (rt_system (fst ref_boot))"
    using ref_start_simps(1) ref_boot_simps(1) by (simp add: system_view_def block_number_def)
  with state_dump_faithful [of ref_server ref_state "ref_state\<lparr>ns_chain := ref_boot\<rparr>" "[]"] show ?thesis
    by (auto simp: ns)
qed

text \<open>C31: Round robin is fair in real time. A node aligns its ticks with the slots: the \<open>k\<close>-th tick
  falls into the \<open>k + 1\<close>-st slot after the start, at its first second. While the peer list
  stays as it is, every peer on it is the author at one of the next ticks, as many as the
  list has entries.\<close>

theorem round_robin_fair:
  assumes "p \<in> set peers" and "unat started + 20 * (length peers + 1) < 2 ^ 64"
  shows "\<exists>k < length peers. is_my_slot (tick_at started k) p peers = Some True \<and>
    unat (tick_at started k) mod 20 = 0 \<and> unat (current_slot (tick_at started k)) = unat (current_slot started) + Suc k"
proof -
  obtain i where i: "i < length peers" "peers ! i = p"
    using assms(1) by (auto simp: in_set_conv_nth)
  obtain k where k: "k < length peers" "(Suc (unat (current_slot started)) + k) mod length peers = i"
    using mod_hits [OF i(1)] by blast
  have "unat started + 20 * (k + 1) < 2 ^ 64"
    using assms(2) k(1) by simp
  note tick = tick_slot [OF this]
  have "unat (current_slot (tick_at started k)) mod length peers = i"
    unfolding tick(1) using k(2) by simp
  moreover have "peers \<noteq> []"
    using i(1) by auto
  ultimately have "is_my_slot (tick_at started k) p peers = Some True"
    using i by (simp add: is_my_slot_nth)
  with k(1) tick show ?thesis by (intro exI [of _ k] conjI)
qed

theorem round_robin_fair_witness:
  "\<exists>k < 3. is_my_slot (tick_at 1000007 k) 5 [1, 2, 5 :: nat] = Some True"
  using round_robin_fair [of 5 "[1, 2, 5 :: nat]" 1000007] by (auto simp: numeral_3_eq_3)

section \<open>The commands on the database\<close>

text \<open>A start that failed can be repeated. \<open>start\<close> opens the database and applies the genesis
  before it sets up the network, so when the network fails the genesis is on disk; a later
  \<open>start\<close> that succeeds does not apply it again and runs the node on the height, nonces and
  balances that the first start would have had.\<close>

lemma start_retry:
  fixes S :: "('st, 'sk, 'vk) server_deps"
  defines "D \<equiv> deps.truncate S"
  assumes "runtime_host D I" and "chain_reach D I (rt, s)"
    and "h_open H (db_file path) (fs (db_file path)) = Inr s"
    and "cli_main S H (Start port peer rpc path) fs = Some (Failed e, fs')"
    and "\<And>p t. h_open H' p (Some t) = Inr t"
    and "cli_main S H' (Start port' peer' rpc' path) fs' = Some (Running sw n addr, fs2)"
  shows "\<exists>ch. maybe_apply_genesis D (runtime_new D s, s) = Some ch \<and>
    rt_system (fst (ns_chain n)) = rt_system (fst ch) \<and> rt_balances (fst (ns_chain n)) = rt_balances (fst ch) \<and>
    fs' (db_file path) = Some (snd ch) \<and> fs2 = fs'"
proof -
  obtain dial r s' where first: "run_setup (node_of S) (h_libp2p H) port dial rpc s = Some (r, s')"
    and fs': "fs' = fs(db_file path \<mapsto> s')"
    using assms(5) cli_main_start [where H = H and path = path and fs = fs and s = s, OF assms(4)] by blast
  obtain rt' where gen: "maybe_apply_genesis D (runtime_new D s, s) = Some (rt', s')"
    using run_setup_store [OF first] by (auto simp: D_def)
  have here: "h_open H' (db_file path) (fs' (db_file path)) = Inr s'"
    by (simp add: assms(6) fs')
  obtain dial' r' s2 where again': "run_setup (node_of S) (h_libp2p H') port' dial' rpc' s' = Some (r', s2)"
    and fs2: "fs2 = fs'(db_file path \<mapsto> s2)"
    and r': "Running sw n addr = (case r' of Inl e \<Rightarrow> Failed e | Inr (sw, n, addr) \<Rightarrow> Running sw n addr)"
    using assms(7) cli_main_start [where H = H' and path = path and fs = fs' and s = s' and S = S, OF here]
    by blast
  have "r' = Inr (sw, n, addr)"
    using r' by (cases r') (auto split: prod.splits)
  with again' have again: "run_setup (node_of S) (h_libp2p H') port' dial' rpc' s' = Some (Inr (sw, n, addr), s2)" by simp
  have synced: "chain_synced D I (rt', s')"
    using assms(2) runtime_host.synced_genesis [OF assms(2) runtime_host.synced_restart [OF assms(2) runtime_host.reach_synced [OF assms(2,3)]] gen] by blast
  note exact = runtime_host.restart_exact [OF assms(2) synced]
  have "maybe_apply_genesis D (runtime_new D s', s') = Some (runtime_new D s', s')"
    using exact(1) genesis_block_number [OF gen] by (simp add: maybe_apply_genesis_def)
  then have "ns_chain n = (runtime_new D s', s')" and "s2 = snd (ns_chain n)"
    using run_setup_node [OF again] node_start_chain [of "node_of S" "ns_my_id n" s' n] by (simp_all add: D_def)
  then show ?thesis
    using gen exact fs' fs2 by (intro exI [of _ "(rt', s')"]) auto
qed

lemma start_retry_witness:
  "\<exists>fs' n fs2. cli_main ref_server (ref_host False) (Start 0 None None None) Map.empty = Some (Failed ''address in use'', fs') \<and>
     cli_main ref_server (ref_host True) (Start 0 None None None) fs' = Some (Running () n None, fs2) \<and>
     balance (rt_balances (fst (ns_chain n))) (public ref_ed25519 Alice) = 1000000"
proof -
  let ?fs = "Map.empty(''state.db'' \<mapsto> snd ref_start)"
  have gen: "maybe_apply_genesis ref_deps (runtime_new ref_deps [], []) = Some ref_start"
    using ref_genesis by (simp add: ref_boot_def)
  have first: "cli_main ref_server (ref_host False) (Start 0 None None None) Map.empty = Some (Failed ''address in use'', ?fs)"
    using ref_run_setup [OF gen, of False 0] cli_main_start [of "ref_host False" None Map.empty "[]" ref_server 0 None None] by auto
  have "maybe_apply_genesis ref_deps (runtime_new ref_deps (snd ref_start), snd ref_start) =
      Some (runtime_new ref_deps (snd ref_start), snd ref_start)"
    using ref.restart_exact(1) [of "fst ref_start" "snd ref_start"] ref.reach_synced [OF ref_start_reach]
    by (simp add: maybe_apply_genesis_def)
  from ref_run_setup [OF this, of True 0] obtain n fs2 where
    again: "cli_main ref_server (ref_host True) (Start 0 None None None) ?fs = Some (Running () n None, fs2)"
    using cli_main_start [of "ref_host True" None ?fs "snd ref_start" ref_server 0 None None] by auto
  have reach: "chain_reach ref_deps bt_wf (runtime_new ref_deps [], [])"
    using ref_boot_reach by (simp add: ref_boot_def)
  have "h_open (ref_host False) (db_file None) (Map.empty (db_file None)) = Inr []" by simp
  from start_retry [of ref_server, unfolded ref_server_simps, OF ref_runtime_host reach this first ref_host_simps(2) again]
  obtain ch where "maybe_apply_genesis ref_deps (runtime_new ref_deps [], []) = Some ch"
    and "rt_balances (fst (ns_chain n)) = rt_balances (fst ch)" by blast
  then have "rt_balances (fst (ns_chain n)) = rt_balances (fst ref_start)" using gen by simp
  with first again show ?thesis by (auto intro!: exI [of _ n])
qed

text \<open>\<open>reset\<close> and \<open>state\<close>: where deleting works, \<open>reset\<close> removes exactly the database at
  the path, a second \<open>reset\<close> finds nothing, and \<open>state\<close> creates an empty database and prints
  exactly the dump of a runtime at height 0 without nonces, balances and claims.\<close>

lemma reset_then_state:
  fixes S :: "('st, 'sk, 'vk) server_deps"
  defines "D \<equiv> deps.truncate S"
  assumes "runtime_host D I" and "I new" and "\<And>k. kv_get (d_kv D) new k = None"
    and "\<And>p. h_open H p None = Inr new" and "\<And>p t. h_remove H p t = (Inr (), None)"
    and "fs (db_file path) = Some old"
  shows "\<exists>fs'. cli_main S H (Reset path) fs =
      Some (Finished [Stdout (''Reset: deleted '' @ quoted (db_file path))], fs') \<and>
    fs' = fs(db_file path := None) \<and>
    cli_main S H (State path) fs' = Some (Finished [Stdout empty_dump], fs(db_file path \<mapsto> new)) \<and>
    cli_main S H (Reset path) fs' = Some (Finished [Stdout (''Nothing to reset '' @ utf8_encode 0x2014 @ '' '' @
      quoted (db_file path) @ '' does not exist'')], fs')"
proof -
  let ?p = "db_file path" and ?fs = "fs(db_file path := None)"
  obtain cells where cells: "set_db_path path = Some cells" and db: "open_db H cells ?fs = Some (?p, new)"
    using open_set_db_path [of path H ?fs] assms(5) by auto
  have dump: "runtime_debug (s_printable S) True (runtime_new (deps.truncate S) new) = empty_dump"
    using runtime_host.runtime_new_empty [OF assms(2-4)] by (intro runtime_debug_empty) (simp_all add: D_def)
  have "cli_main S H (State path) ?fs = Some (Finished [Stdout empty_dump], fs(?p \<mapsto> new))"
    by (simp add: cli_main_def cells db dump)
  then show ?thesis
    using assms(6,7) by (simp add: cli_main_def reset_at_def)
qed

end
