(* ===== verification/Network.thy ===== *)
theory Network
  imports Reference_Node
begin

text \<open>
  Several nodes and the gossip between them. What a node publishes may reach any node, any
  number of times, late, out of order or never: the wire is the set of all published
  messages. The nodes share the wire codecs and the topics; stores and hash orders are their
  own. \<open>net_submitted\<close> is a history variable: the extrinsics that clients handed to some RPC
  server.
\<close>

section \<open>The network\<close>

record ('st, 'p) network =
  net_node :: "'p \<Rightarrow> ('st, 'p) node_state"
  net_wire :: "publish_req set"
  net_submitted :: "ext set"

inductive net_step ::
  "('p \<Rightarrow> ('st, 'sk, 'vk) node_deps) \<Rightarrow> ('st, 'p::linorder) network \<Rightarrow> ('st, 'p) network \<Rightarrow> bool"
  for N :: "'p \<Rightarrow> ('st, 'sk, 'vk) node_deps" where
  local: "task_step (N i) (net_node w i) n \<Longrightarrow> net_step N w (w\<lparr>net_node := (net_node w)(i := n)\<rparr>)"
| publish: "on_publish (net_node w i) = Some (r, n) \<Longrightarrow>
    net_step N w (w\<lparr>net_node := (net_node w)(i := n), net_wire := insert r (net_wire w)\<rparr>)"
| deliver: "r \<in> net_wire w \<Longrightarrow>
    net_step N w (w\<lparr>net_node := (net_node w)(i := on_message (N i) (pr_topic r) (pr_data r) (net_node w i))\<rparr>)"
| submit: "net_step N w (w\<lparr>net_node := (net_node w)(i := on_rpc_submit (N i) raw (net_node w i)),
      net_submitted := net_submitted w \<union> set_option (decode (n_ext (N i)) raw)\<rparr>)"

text \<open>Every node boots on its own store.\<close>

inductive net_reach ::
  "('p \<Rightarrow> ('st, 'sk, 'vk) node_deps) \<Rightarrow> ('p \<Rightarrow> 'st) \<Rightarrow> ('st, 'p::linorder) network \<Rightarrow> bool"
  for N :: "'p \<Rightarrow> ('st, 'sk, 'vk) node_deps" and s0 :: "'p \<Rightarrow> 'st" where
  start: "(\<And>i. node_start (N i) i (s0 i) = Some (n i)) \<Longrightarrow>
    net_reach N s0 \<lparr>net_node = n, net_wire = {}, net_submitted = {}\<rparr>"
| step: "net_reach N s0 w \<Longrightarrow> net_step N w w' \<Longrightarrow> net_reach N s0 w'"

definition same_wire :: "('p \<Rightarrow> ('st, 'sk, 'vk) node_deps) \<Rightarrow> bool" where
  "same_wire N \<longleftrightarrow>
     (\<forall>i j. n_ext (N i) = n_ext (N j) \<and> n_block (N i) = n_block (N j) \<and> n_topic_hash (N i) = n_topic_hash (N j)) \<and>
     (\<forall>i. codec_ok (n_block (N i)) \<and> hash_order_ok (n_hash_order (N i)) \<and>
          n_topic_hash (N i) extrinsic_topic \<noteq> n_topic_hash (N i) block_topic)"

text \<open>Each step of the network is a step of one of its nodes.\<close>

lemma net_reach_node:
  assumes "net_reach N s0 w" and "\<And>i. chain_reach (rt_deps (N i)) I (rt i, s0 i)"
  shows "node_reach (N i) I (net_node w i)"
  using assms(1)
proof (induction arbitrary: i rule: net_reach.induct)
  case (start n)
  then show ?case using node_reach.start [OF assms(2) [of i], of i "n i"] by simp
next
  case (step w w')
  have "net_node w' i = net_node w i \<or> node_step (N i) (net_node w i) (net_node w' i)" for i
    using step.hyps(2) by (cases rule: net_step.cases) (auto intro: node_step.intros)
  then show ?case using step.IH by (metis node_reach.step)
qed

section \<open>Where extrinsics come from\<close>

definition traced_req :: "('st, 'sk, 'vk) node_deps \<Rightarrow> ext set \<Rightarrow> publish_req \<Rightarrow> bool" where
  "traced_req N X r \<longleftrightarrow>
     (pr_topic r = n_topic_hash N extrinsic_topic \<longrightarrow> set_option (decode (n_ext N) (pr_data r)) \<subseteq> X) \<and>
     (pr_topic r = n_topic_hash N block_topic \<longrightarrow>
        (\<forall>b. decode (n_block N) (pr_data r) = Some b \<longrightarrow> set (blk_extrinsics b) \<subseteq> X))"

text \<open>Everything a node holds or queues comes from \<open>X\<close>.\<close>

definition held :: "('st, 'sk, 'vk) node_deps \<Rightarrow> ext set \<Rightarrow> ('st, 'p) node_state \<Rightarrow> bool" where
  "held N X n \<longleftrightarrow>
     set (mp_pending (ns_pool n)) \<subseteq> X \<and> set (ns_rx_ext n) \<subseteq> X \<and>
     (\<forall>b \<in> set (ns_rx_blk n). set (blk_extrinsics b) \<subseteq> X) \<and> (\<forall>r \<in> set (ns_rx_pub n). traced_req N X r)"

definition net_traced ::
  "('p \<Rightarrow> ('st, 'sk, 'vk) node_deps) \<Rightarrow> ('p \<Rightarrow> ext set \<Rightarrow> 'st chain \<Rightarrow> bool) \<Rightarrow> ('st, 'p) network \<Rightarrow> bool" where
  "net_traced N R w \<longleftrightarrow>
     (\<forall>i. held (N i) (net_submitted w) (net_node w i) \<and> R i (net_submitted w) (ns_chain (net_node w i))) \<and>
     (\<forall>r \<in> net_wire w. \<forall>i. traced_req (N i) (net_submitted w) r)"

lemma traced_req_mono: "traced_req N X r \<Longrightarrow> X \<subseteq> Y \<Longrightarrow> traced_req N Y r"
  unfolding traced_req_def by (meson subset_trans)

lemma held_mono: "held N X n \<Longrightarrow> X \<subseteq> Y \<Longrightarrow> held N Y n"
  unfolding held_def by (meson subset_trans traced_req_mono)

lemma node_start_held: "node_start N i s = Some n \<Longrightarrow> held N X n"
  by (auto simp: node_start_def held_def with_block_limit_def split: option.splits)

lemma held_on_publish:
  "held N X n \<Longrightarrow> on_publish n = Some (r, n') \<Longrightarrow> held N X n' \<and> traced_req N X r \<and> ns_chain n' = ns_chain n"
  by (auto simp: held_def on_publish_def split: list.splits)

lemma held_on_message:
  "held N X n \<Longrightarrow> traced_req N X r \<Longrightarrow> held N X (on_message N (pr_topic r) (pr_data r) n)"
  by (auto simp: held_def on_message_def traced_req_def split: option.splits)

lemma held_on_rpc_submit:
  assumes "held N X n" and "n_topic_hash N extrinsic_topic \<noteq> n_topic_hash N block_topic"
  shows "held N (X \<union> set_option (decode (n_ext N) raw)) (on_rpc_submit N raw n)"
proof -
  have n: "held N (X \<union> set_option (decode (n_ext N) raw)) n"
    using assms(1) by (rule held_mono) simp
  show ?thesis
  proof (cases "decode (n_ext N) raw")
    case None
    then show ?thesis using n by (simp add: on_rpc_submit_def submit_handler_def)
  next
    case (Some e)
    have "traced_req N (X \<union> {e}) \<lparr>pr_topic = n_topic_hash N extrinsic_topic, pr_data = raw\<rparr>"
      using Some assms(2) by (simp add: traced_req_def)
    with n Some show ?thesis by (auto simp: held_def on_rpc_submit_def submit_handler_def)
  qed
qed

lemma on_message_chain [simp]: "ns_chain (on_message N topic data n) = ns_chain n"
  by (auto simp: on_message_def split: option.splits)

lemma on_rpc_submit_chain [simp]: "ns_chain (on_rpc_submit N raw n) = ns_chain n"
  by (simp add: on_rpc_submit_def case_prod_beta)

text \<open>
  The chain of a node changes only by executing blocks, and their extrinsics come from \<open>X\<close>.
  Whatever property of the chain and \<open>X\<close> survives that holds in the whole network.
\<close>

locale net_history =
  fixes N :: "'p::linorder \<Rightarrow> ('st, 'sk, 'vk) node_deps" and R :: "'p \<Rightarrow> ext set \<Rightarrow> 'st chain \<Rightarrow> bool"
  assumes wire: "same_wire N"
    and mono: "R i X ch \<Longrightarrow> X \<subseteq> Y \<Longrightarrow> R i Y ch"
    and execute: "R i X ch \<Longrightarrow> execute_block (rt_deps (N i)) b ch = Some (r, ch') \<Longrightarrow> set (blk_extrinsics b) \<subseteq> X \<Longrightarrow>
      R i X ch'"
begin

lemma same_wire_facts:
  "codec_ok (n_block (N i))" "hash_order_ok (n_hash_order (N i))"
  "n_topic_hash (N i) extrinsic_topic \<noteq> n_topic_hash (N i) block_topic"
  using wire by (auto simp: same_wire_def)

lemma traced_on_peer_block:
  assumes "held (N i) X n" and "R i X (ns_chain n)" and "on_peer_block (N i) b n = Some n'"
    and "set (blk_extrinsics b) \<subseteq> X"
  shows "held (N i) X n' \<and> R i X (ns_chain n')"
proof -
  obtain r ch where ex: "execute_block (rt_deps (N i)) b (ns_chain n) = Some (r, ch)"
    using assms(3) by (auto simp: on_peer_block_def Let_def split: option.splits)
  with execute [OF assms(2) ex assms(4)] assms(1,3) show ?thesis
    by (auto simp: on_peer_block_def Let_def held_def retain_def split: sum.splits)
qed

lemma own_block_subset:
  assumes "select_batch oc (n_hash_order (N i)) rt (drained (ns_pool n)) = Some batch" and "held (N i) X n"
  shows "set batch \<subseteq> X"
  using select_batch_subset [OF same_wire_facts(2) assms(1)] assms(2)
  by (auto simp: drained_def held_def dest!: in_set_takeD)

lemma traced_on_slot:
  assumes "held (N i) X n" and "R i X (ns_chain n)" and "on_slot (N i) now n = Some n'"
  shows "held (N i) X n' \<and> R i X (ns_chain n')"
proof (cases "is_my_slot now (ns_my_id n) (ns_peers n) = Some True")
  case True
  then obtain ch pool reqs where pb: "produce_block (N i) (ns_chain n, ns_pool n) = Some (ch, pool, reqs)"
    and n': "n' = n\<lparr>ns_ticked := False, ns_chain := ch, ns_pool := pool, ns_rx_pub := ns_rx_pub n @ reqs\<rparr>"
    using assms(3) by (auto simp: on_slot_def split: option.splits)
  from pb obtain batch where
    sel: "select_batch (n_overflow_checks (N i)) (n_hash_order (N i)) (fst (ns_chain n)) (drained (ns_pool n)) = Some batch"
    and ex: "execute_block (rt_deps (N i)) (next_block (ns_chain n) batch) (ns_chain n) = Some (Ok_unit, ch)"
    and pool: "pool = rest_pool (ns_pool n)"
    and reqs: "reqs = [\<lparr>pr_topic = n_topic_hash (N i) block_topic,
      pr_data = encode (n_block (N i)) (next_block (ns_chain n) batch)\<rparr>]"
    by (rule produce_block_SomeE)
  have batch: "set (blk_extrinsics (next_block (ns_chain n) batch)) \<subseteq> X"
    using own_block_subset [OF sel assms(1)] by (simp add: next_block_def)
  from execute [OF assms(2) ex this] batch assms(1) show ?thesis
    using same_wire_facts [of i]
    by (auto simp: held_def n' pool reqs rest_pool_def traced_req_def dest!: in_set_dropD)
next
  case False
  then have "n' = n\<lparr>ns_ticked := False\<rparr>"
    using assms(3) by (auto simp: on_slot_def split: option.splits bool.splits)
  then show ?thesis using assms(1,2) by (simp add: held_def)
qed

lemma traced_task:
  assumes "task_step (N i) n n'" and "held (N i) X n" and "R i X (ns_chain n)"
  shows "held (N i) X n' \<and> R i X (ns_chain n')"
  using assms(1)
proof (cases rule: task_step.cases)
  case (recv_blk b bs)
  have "held (N i) X (n\<lparr>ns_rx_blk := bs\<rparr>)" and "R i X (ns_chain (n\<lparr>ns_rx_blk := bs\<rparr>))" and "set (blk_extrinsics b) \<subseteq> X"
    using assms(2,3) recv_blk by (auto simp: held_def)
  then show ?thesis using traced_on_peer_block recv_blk(3) by blast
next
  case (slot now)
  then show ?thesis using traced_on_slot assms by blast
qed (use assms(2,3) in \<open>auto simp: held_def on_extrinsic_def submit_def on_tick_def on_connected_def on_disconnected_def split: option.splits\<close>)

lemma same_wire_req: "traced_req (N i) X r = traced_req (N j) X r"
proof -
  have "n_ext (N i) = n_ext (N j)" "n_block (N i) = n_block (N j)" "n_topic_hash (N i) = n_topic_hash (N j)"
    using wire by (auto simp: same_wire_def)
  then show ?thesis by (simp add: traced_req_def)
qed

lemma traced_update:
  assumes "net_traced N R w" and "held (N i) (net_submitted w) n \<and> R i (net_submitted w) (ns_chain n)"
  shows "net_traced N R (w\<lparr>net_node := (net_node w)(i := n)\<rparr>)"
  using assms by (simp add: net_traced_def)

text \<open>The invariant of the network.\<close>

lemma traced_step:
  assumes "net_step N w w'" and "net_traced N R w"
  shows "net_traced N R w'"
  using assms(1)
proof (cases rule: net_step.cases)
  case (local i n)
  then show ?thesis
    using traced_update [OF assms(2)] traced_task [OF local(2)] assms(2) by (simp add: net_traced_def)
next
  case (publish i r n)
  have old: "held (N i) (net_submitted w) (net_node w i)" "R i (net_submitted w) (ns_chain (net_node w i))"
    using assms(2) by (simp_all add: net_traced_def)
  then have n: "held (N i) (net_submitted w) n \<and> R i (net_submitted w) (ns_chain n)" and "traced_req (N i) (net_submitted w) r"
    using held_on_publish [OF old(1) publish(2)] by simp_all
  then have "\<forall>j. traced_req (N j) (net_submitted w) r" using same_wire_req by blast
  with n publish(1) assms(2) show ?thesis by (simp add: net_traced_def)
next
  case (deliver r i)
  then have "held (N i) (net_submitted w) (on_message (N i) (pr_topic r) (pr_data r) (net_node w i))"
    using assms(2) by (intro held_on_message) (auto simp: net_traced_def)
  then show ?thesis
    unfolding deliver(1) using assms(2) by (intro traced_update) (simp_all add: net_traced_def)
next
  case (submit i raw)
  let ?X = "net_submitted w \<union> set_option (decode (n_ext (N i)) raw)"
  have "held (N j) ?X (net_node w j) \<and> R j ?X (ns_chain (net_node w j))" for j
    using assms(2) held_mono mono unfolding net_traced_def by (meson sup_ge1)
  moreover have "\<forall>r \<in> net_wire w. \<forall>j. traced_req (N j) ?X r"
    using assms(2) traced_req_mono unfolding net_traced_def by (meson sup_ge1)
  moreover have "held (N i) ?X (on_rpc_submit (N i) raw (net_node w i))"
    using assms(2) by (intro held_on_rpc_submit same_wire_facts) (simp add: net_traced_def)
  ultimately show ?thesis by (simp add: submit net_traced_def)
qed

lemma traced_reach:
  assumes "net_reach N s0 w"
    and "\<And>i ch. maybe_apply_genesis (rt_deps (N i)) (runtime_new (rt_deps (N i)) (s0 i), s0 i) = Some ch \<Longrightarrow> R i {} ch"
  shows "net_traced N R w"
  using assms(1)
proof (induction rule: net_reach.induct)
  case (start n)
  then show ?case
    using node_start_held [OF start] node_start_chain [OF start] assms(2) by (simp add: net_traced_def)
next
  case (step w w')
  then show ?case by (blast intro: traced_step)
qed

end

text \<open>The first property: the chain is the result of blocks with extrinsics from \<open>X\<close>.\<close>

definition ran :: "('st, 'sk, 'vk) node_deps \<Rightarrow> 'st \<Rightarrow> ext set \<Rightarrow> 'st chain \<Rightarrow> bool" where
  "ran N s X ch \<longleftrightarrow>
     (\<exists>ch0 bs. maybe_apply_genesis (rt_deps N) (runtime_new (rt_deps N) s, s) = Some ch0 \<and>
        run_blocks (rt_deps N) bs ch0 = Some ch \<and> set (concat (map blk_extrinsics bs)) \<subseteq> X)"

lemma ran_history: "same_wire N \<Longrightarrow> net_history N (\<lambda>i. ran (N i) (s0 i))"
proof (unfold_locales, assumption)
  show "ran (N i) (s0 i) X ch \<Longrightarrow> X \<subseteq> Y \<Longrightarrow> ran (N i) (s0 i) Y ch" for i X Y ch
    unfolding ran_def by (meson subset_trans)
next
  fix i X ch b r ch'
  assume "ran (N i) (s0 i) X ch" and ex: "execute_block (rt_deps (N i)) b ch = Some (r, ch')"
    and b: "set (blk_extrinsics b) \<subseteq> X"
  then obtain ch0 bs where gen: "maybe_apply_genesis (rt_deps (N i)) (runtime_new (rt_deps (N i)) (s0 i), s0 i) = Some ch0"
    and run: "run_blocks (rt_deps (N i)) bs ch0 = Some ch" and bs: "set (concat (map blk_extrinsics bs)) \<subseteq> X"
    unfolding ran_def by blast
  have "set (concat (map blk_extrinsics (bs @ [b]))) \<subseteq> X"
    using bs b by simp
  with gen run_blocks_snoc [OF run ex] show "ran (N i) (s0 i) X ch'" unfolding ran_def by blast
qed

lemma net_ran:
  assumes "same_wire N" and "net_reach N s0 w"
  shows "ran (N i) (s0 i) (net_submitted w) (ns_chain (net_node w i))"
proof -
  have "ran (N i) (s0 i) {} ch" if "maybe_apply_genesis (rt_deps (N i)) (runtime_new (rt_deps (N i)) (s0 i), s0 i) = Some ch" for i ch
    unfolding ran_def by (rule exI [of _ ch], rule exI [of _ "[]"]) (simp add: that)
  then show ?thesis
    using net_history.traced_reach [OF ran_history [OF assms(1)] assms(2)] by (simp add: net_traced_def)
qed


section \<open>Nothing happens that nobody asked for\<close>

lemma genesis_wf: "maybe_apply_genesis D ch = Some ch' \<Longrightarrow> runtime_wf (fst ch) \<Longrightarrow> runtime_wf (fst ch')"
proof (cases "block_number (rt_system (fst ch)) = 0")
  case True
  then show "maybe_apply_genesis D ch = Some ch' \<Longrightarrow> runtime_wf (fst ch) \<Longrightarrow> ?thesis"
    by (auto simp: genesis_fresh fund_def)
qed (simp add: maybe_apply_genesis_def)

text \<open>C6: Nothing happens on any node that its owner did not ask for. In a network of any number of
  nodes, whatever they gossip, in whatever order messages arrive, and whoever authors: an
  account that lost tokens since genesis has signed a transfer, the owner of a new claim has
  signed its creation, and the owner of a claim that is gone has signed its revocation; and
  these very extrinsics, which verify, were handed to the RPC server of some node.\<close>

theorem network_authorization:
  assumes "same_wire N" and "net_reach N s0 w"
    and "maybe_apply_genesis (rt_deps (N i)) (runtime_new (rt_deps (N i)) (s0 i), s0 i) = Some start"
  defines "now \<equiv> fst (ns_chain (net_node w i))"
    and "asked \<equiv> \<lambda>a. {ext_call e | e. e \<in> net_submitted w \<and> ext_signer e = a \<and> verify (d_ed25519 (N i)) (d_payload (N i)) e = Ok_unit}"
  shows "(unat (balance (rt_balances now) a) < unat (balance (rt_balances (fst start)) a) \<longrightarrow>
      (\<exists>to amount. RC_balances (Call_transfer to amount) \<in> asked a)) \<and>
    (get_claim (rt_poe now) c = Some a \<and> get_claim (rt_poe (fst start)) c \<noteq> Some a \<longrightarrow>
      RC_proof_of_existence (Call_create_claim c) \<in> asked a) \<and>
    (get_claim (rt_poe (fst start)) c = Some a \<and> get_claim (rt_poe now) c \<noteq> Some a \<longrightarrow>
      RC_proof_of_existence (Call_revoke_claim c) \<in> asked a)"
proof -
  let ?D = "rt_deps (N i)"
  obtain bs where run: "run_blocks ?D bs start = Some (ns_chain (net_node w i))"
    and sub: "set (concat (map blk_extrinsics bs)) \<subseteq> net_submitted w"
    using net_ran [OF assms(1,2), of i] assms(3) by (auto simp: ran_def)
  have wf: "runtime_wf (fst start)"
    using genesis_wf [OF assms(3)] by simp
  have spared: "spared ?D (\<lambda>e. ext_signer e = a \<and> C (ext_call e)) (concat (map blk_extrinsics bs))"
    if "\<And>call. C call \<Longrightarrow> call \<notin> asked a" for C
    using that sub by (fastforce simp: spared_def asked_def)
  note lift = run_blocks_lift [OF run wf, folded now_def]
  have "unat (balance (rt_balances (fst start)) a) \<le> unat (balance (rt_balances now) a)"
    if "\<not> (\<exists>to amount. RC_balances (Call_transfer to amount) \<in> asked a)"
    using that by (intro lift [OF spared [where C = "\<lambda>call. \<exists>to amount. call = RC_balances (Call_transfer to amount)"],
          where R = "\<lambda>rt rt'. unat (balance (rt_balances rt) a) \<le> unat (balance (rt_balances rt') a)"])
      (auto dest: dispatch_spends)
  moreover have "get_claim (rt_poe now) c = Some a \<longrightarrow> get_claim (rt_poe (fst start)) c = Some a"
    if "RC_proof_of_existence (Call_create_claim c) \<notin> asked a"
    using that by (intro lift [OF spared [where C = "\<lambda>call. call = RC_proof_of_existence (Call_create_claim c)"],
          where R = "\<lambda>rt rt'. get_claim (rt_poe rt') c = Some a \<longrightarrow> get_claim (rt_poe rt) c = Some a"])
      (auto simp: runtime_wf_def dest: dispatch_claim_origin)
  moreover have "get_claim (rt_poe (fst start)) c = Some a \<longrightarrow> get_claim (rt_poe now) c = Some a"
    if "RC_proof_of_existence (Call_revoke_claim c) \<notin> asked a"
    using that by (intro lift [OF spared [where C = "\<lambda>call. call = RC_proof_of_existence (Call_revoke_claim c)"],
          where R = "\<lambda>rt rt'. get_claim (rt_poe rt) c = Some a \<longrightarrow> get_claim (rt_poe rt') c = Some a"])
      (auto simp: runtime_wf_def intro: dispatch_claim_kept)
  ultimately show ?thesis by (metis not_less)
qed


text \<open>A network of reference nodes, and the life of one transfer in it.\<close>

definition ref_net :: "(mem, nat) network" where
  "ref_net = \<lparr>net_node = (\<lambda>i. ref_state\<lparr>ns_my_id := i, ns_peers := [i]\<rparr>), net_wire = {}, net_submitted = {}\<rparr>"

lemma ref_net_reach: "net_reach (\<lambda>_. ref_node) (\<lambda>_. []) ref_net"
  unfolding ref_net_def
  by (rule net_reach.start)
    (simp add: node_start_def ref_genesis [unfolded ref_boot_def] ref_state_def)

lemma ref_same_wire: "same_wire (\<lambda>_. ref_node)"
  by (simp add: same_wire_def extrinsic_topic_def block_topic_def)

interpretation ref_ran: net_history "\<lambda>_ :: nat. ref_node" "\<lambda>_. ran ref_node []"
  using ran_history [OF ref_same_wire] .

lemma ref_batch:
  "select_batch True rev (fst ref_start) (drained ref_pool) =
   Some [ref_ext Alice 0 (RC_balances (Call_transfer (public ref_ed25519 Bob) 5))]"
  by (simp add: select_batch_def group_by_signer_def plain_add_def)

lemma ref_produce_transfer:
  obtains ch' reqs where "produce_block ref_node (ref_start, ref_pool) = Some (ch', rest_pool ref_pool, reqs)"
    and "balance (rt_balances (fst ch')) (public ref_ed25519 Alice) = 999995"
proof -
  let ?e = "ref_ext Alice 0 (RC_balances (Call_transfer (public ref_ed25519 Bob) 5))"
  obtain ch' pool' reqs where pb: "produce_block ref_node (ref_start, ref_pool) = Some (ch', pool', reqs)"
    by (rule ref_produce)
  then obtain batch where sel: "select_batch True rev (fst ref_start) [?e] = Some batch"
    and ex: "execute_block ref_deps (next_block ref_start batch) ref_start = Some (Ok_unit, ch')"
    and pool: "pool' = rest_pool ref_pool"
    by (rule produce_block_SomeE) simp
  have "batch = [?e]"
    using sel ref_batch by simp
  then have "next_block ref_start batch = ref_block 2 [?e]"
    by (simp add: next_block_def ref_block_def)
  moreover obtain ch1 where "execute_block ref_deps (ref_block 2 [?e]) ref_start = Some (Ok_unit, ch1)"
    and "balance (rt_balances (fst ch1)) (public ref_ed25519 Alice) = 999995"
    by (rule ref_transfer)
  ultimately show thesis using ex pb pool that by simp
qed

lemma net_local_steps:
  assumes "(task_step (N i))\<^sup>*\<^sup>* n n'" and "net_reach N s0 (w\<lparr>net_node := (net_node w)(i := n)\<rparr>)"
  shows "net_reach N s0 (w\<lparr>net_node := (net_node w)(i := n')\<rparr>)"
  using assms
proof (induction rule: rtranclp_induct)
  case (step n1 n2)
  have "net_step N (w\<lparr>net_node := (net_node w)(i := n1)\<rparr>) (w\<lparr>net_node := (net_node w)(i := n2)\<rparr>)"
    using net_step.local [of N i "w\<lparr>net_node := (net_node w)(i := n1)\<rparr>" n2] step.hyps(2) by simp
  with step.IH step.prems show ?case by (blast intro: net_reach.step)
qed simp

text \<open>A node with one queued transfer takes it into its pool, meets a peer, and authors a block.\<close>

definition ref_queued :: "(mem, nat) node_state" where
  "ref_queued = on_rpc_submit ref_node
     (encode ext_codec (ref_ext Alice 0 (RC_balances (Call_transfer (public ref_ed25519 Bob) 5)))) ref_state"

lemma ref_queued_simps:
  "ns_rx_ext ref_queued = [ref_ext Alice 0 (RC_balances (Call_transfer (public ref_ed25519 Bob) 5))]"
  "\<not> ns_ticked ref_queued" "ns_pool ref_queued = with_block_limit 3"
  "ns_my_id ref_queued = 1" "ns_peers ref_queued = [1]" "ns_chain ref_queued = ref_start"
  by (simp_all add: ref_queued_def ref_state_def on_rpc_submit_def submit_handler_def)

lemma ref_takes: "(task_step ref_node)\<^sup>*\<^sup>* ref_queued (ref_queued\<lparr>ns_rx_ext := [], ns_pool := ref_pool\<rparr>)"
  using task_step.recv_ext [OF ref_queued_simps(2,1), of ref_node]
  by (simp add: ref_queued_simps on_extrinsic_def submit_def with_block_limit_def ref_pool_def r_into_rtranclp)

lemma ref_authors:
  obtains n where "(task_step ref_node)\<^sup>*\<^sup>* ref_queued n"
    and "balance (rt_balances (fst (ns_chain n))) (public ref_ed25519 Alice) = 999995"
proof -
  let ?e = "ref_ext Alice 0 (RC_balances (Call_transfer (public ref_ed25519 Bob) 5))"
  obtain ch' reqs where pb: "produce_block ref_node (ref_start, ref_pool) = Some (ch', rest_pool ref_pool, reqs)"
    and bal: "balance (rt_balances (fst ch')) (public ref_ed25519 Alice) = 999995"
    by (rule ref_produce_transfer)
  let ?n1 = "ref_queued\<lparr>ns_rx_ext := [], ns_pool := ref_pool\<rparr>"
  let ?n2 = "?n1\<lparr>ns_peers := [1, 2]\<rparr>" and ?n3 = "?n1\<lparr>ns_peers := [1, 2], ns_ticked := True\<rparr>"
  note q = ref_queued_simps
  have s2: "task_step ref_node ?n1 ?n2"
    using task_step.connected [of 2 ?n1 ref_node] by (simp add: q on_connected_def)
  have s3: "task_step ref_node ?n2 ?n3"
    using task_step.tick [of ?n2 ref_node] by (simp add: q on_tick_def)
  have "on_slot ref_node 0 ?n3 =
      Some (?n3\<lparr>ns_ticked := False, ns_chain := ch', ns_pool := rest_pool ref_pool, ns_rx_pub := ns_rx_pub ?n3 @ reqs\<rparr>)"
    using pb by (simp add: q on_slot_def is_my_slot_def current_slot_def)
  then have s4: "task_step ref_node ?n3
      (?n3\<lparr>ns_ticked := False, ns_chain := ch', ns_pool := rest_pool ref_pool, ns_rx_pub := ns_rx_pub ?n3 @ reqs\<rparr>)"
    by (intro task_step.slot) simp_all
  note more = converse_rtranclp_into_rtranclp [where r = "task_step ref_node"]
  from rtranclp_trans [OF ref_takes more [OF s2 more [OF s3 r_into_rtranclp [where r = "task_step ref_node", OF s4]]]]
  show thesis using that bal by simp
qed

lemma ref_queued_reach:
  defines "w \<equiv> ref_net\<lparr>net_submitted := {ref_ext Alice 0 (RC_balances (Call_transfer (public ref_ed25519 Bob) 5))}\<rparr>"
  shows "net_reach (\<lambda>_. ref_node) (\<lambda>_. []) (w\<lparr>net_node := (net_node w)(1 := ref_queued)\<rparr>)"
proof -
  let ?e = "ref_ext Alice 0 (RC_balances (Call_transfer (public ref_ed25519 Bob) 5))"
  have "net_node ref_net 1 = ref_state"
    by (simp add: ref_net_def ref_state_def)
  then have "net_step (\<lambda>_. ref_node) ref_net (w\<lparr>net_node := (net_node w)(1 := ref_queued)\<rparr>)"
    using net_step.submit [of "\<lambda>_. ref_node" ref_net 1 "encode ext_codec ?e"]
    by (simp add: ref_net_def ref_queued_def w_def)
  then show ?thesis
    using ref_net_reach by (blast intro: net_reach.step)
qed

theorem network_authorization_witness:
  "\<exists>w :: (mem, nat) network. net_reach (\<lambda>_. ref_node) (\<lambda>_. []) w \<and>
     balance (rt_balances (fst (ns_chain (net_node w 1)))) (public ref_ed25519 Alice) = 999995 \<and>
     (\<exists>to amount. RC_balances (Call_transfer to amount) \<in>
       {ext_call e | e. e \<in> net_submitted w \<and> ext_signer e = public ref_ed25519 Alice \<and>
                        verify ref_ed25519 ref_payload e = Ok_unit})"
proof -
  let ?e = "ref_ext Alice 0 (RC_balances (Call_transfer (public ref_ed25519 Bob) 5))"
  let ?w = "ref_net\<lparr>net_submitted := {?e}\<rparr>"
  obtain n where steps: "(task_step ref_node)\<^sup>*\<^sup>* ref_queued n"
    and bal: "balance (rt_balances (fst (ns_chain n))) (public ref_ed25519 Alice) = 999995"
    by (rule ref_authors)
  let ?w' = "?w\<lparr>net_node := (net_node ?w)(1 := n)\<rparr>"
  have reach: "net_reach (\<lambda>_. ref_node) (\<lambda>_. []) ?w'"
    using net_local_steps [of "\<lambda>_. ref_node"] ref_queued_reach steps by blast
  have now: "ns_chain (net_node ?w' 1) = ns_chain n" by simp
  have "\<exists>to amount. RC_balances (Call_transfer to amount) \<in>
       {ext_call e | e. e \<in> net_submitted ?w' \<and> ext_signer e = public ref_ed25519 Alice \<and>
                        verify ref_ed25519 ref_payload e = Ok_unit}"
    using network_authorization [OF ref_same_wire reach, where i = 1 and start = ref_start and a = "public ref_ed25519 Alice"]
      ref_genesis
    unfolding now by (simp add: bal ref_boot_def)
  then show ?thesis using reach bal now by (intro exI [of _ ?w']) simp
qed

section \<open>Two authors in one slot\<close>

lemma author_number:
  assumes "execute_block D b ch = Some (r, ch')"
  shows "block_number (rt_system (fst ch')) = block_number (rt_system (fst ch)) + 1"
proof -
  have "unat (block_number (rt_system (fst ch'))) < 2 ^ LENGTH(32)"
    by (fact unsigned_less)
  then have "unat (block_number (rt_system (fst ch'))) = unat (block_number (rt_system (fst ch)) + 1)"
    using execute_block_number [OF assms] by (simp add: unat_word_ariths)
  then show ?thesis by (rule unsigned_word_eqI)
qed

lemma on_peer_block_refused:
  assumes "on_peer_block N b n = Some n'" and "hd_block_number (blk_header b) = block_number (rt_system (fst (ns_chain n)))"
  shows "ns_chain n' = bumped (rt_deps N) (ns_chain n)" and "\<exists>e. execute_block (rt_deps N) b (ns_chain n) = Some (Inl e, ns_chain n')"
proof -
  obtain r ch where ex: "execute_block (rt_deps N) b (ns_chain n) = Some (r, ch)"
    using assms(1) by (auto simp: on_peer_block_def Let_def split: option.splits)
  then have "ch = bumped (rt_deps N) (ns_chain n) \<and> (\<exists>e. r = Inl e)"
    using assms(2) by (cases rule: execute_block_SomeE) auto
  with ex assms(1) show "ns_chain n' = bumped (rt_deps N) (ns_chain n)"
    and "\<exists>e. execute_block (rt_deps N) b (ns_chain n) = Some (Inl e, ns_chain n')"
    by (auto simp: on_peer_block_def Let_def)
qed

lemma produce_block_published:
  assumes "produce_block N (ch, pool) = Some (ch', pool', rs)" and "codec_ok (n_block N)"
  obtains xs r where "rs = [r]" "decode (n_block N) (pr_data r) = Some (next_block ch xs)"
    "execute_block (rt_deps N) (next_block ch xs) ch = Some (Ok_unit, ch')"
proof -
  obtain xs where "execute_block (rt_deps N) (next_block ch xs) ch = Some (Ok_unit, ch')"
    and "rs = [\<lparr>pr_topic = n_topic_hash N block_topic, pr_data = encode (n_block N) (next_block ch xs)\<rparr>]"
    using assms(1) by (rule produce_block_SomeE)
  then show thesis using that assms(2) by simp
qed

text \<open>Blocks executed one after the other, with what each returned.\<close>

fun block_outcomes ::
  "('st, 'sk, 'vk) deps \<Rightarrow> runtime_block list \<Rightarrow> 'st chain \<Rightarrow> (dispatch_result list \<times> 'st chain) option" where
  "block_outcomes D [] ch = Some ([], ch)"
| "block_outcomes D (b # bs) ch =
     (case execute_block D b ch of
        None \<Rightarrow> None
      | Some (r, ch1) \<Rightarrow> map_option (\<lambda>(rs, ch2). (r # rs, ch2)) (block_outcomes D bs ch1))"

lemma block_outcomes_ConsE:
  assumes "block_outcomes D (b # bs) ch = Some (rs, ch')"
  obtains r rs' ch1 where "execute_block D b ch = Some (r, ch1)" "block_outcomes D bs ch1 = Some (rs', ch')" "rs = r # rs'"
  using assms by (auto split: option.splits)

text \<open>Blocks are judged by the height alone, so equal heights stay equal and are answered alike.\<close>

lemma outcomes_by_height:
  assumes "block_outcomes D bs ch = Some (rs, c)" and "block_outcomes D' bs ch' = Some (rs', c')"
    and "block_number (rt_system (fst ch)) = block_number (rt_system (fst ch'))"
  shows "rs = rs' \<and> block_number (rt_system (fst c)) = block_number (rt_system (fst c'))"
  using assms
proof (induction bs arbitrary: ch ch' rs rs')
  case (Cons b bs)
  obtain r qs ch1 where one: "execute_block D b ch = Some (r, ch1)" and qs: "block_outcomes D bs ch1 = Some (qs, c)" "rs = r # qs"
    using Cons.prems(1) by (rule block_outcomes_ConsE)
  obtain r' qs' ch1' where two: "execute_block D' b ch' = Some (r', ch1')" and qs': "block_outcomes D' bs ch1' = Some (qs', c')" "rs' = r' # qs'"
    using Cons.prems(2) by (rule block_outcomes_ConsE)
  have "r = r'"
    using one two Cons.prems(3) by (elim execute_block_SomeE) auto
  moreover have "block_number (rt_system (fst ch1)) = block_number (rt_system (fst ch1'))"
    using author_number [OF one] author_number [OF two] Cons.prems(3) by simp
  ultimately show ?case
    using Cons.IH [OF qs(1) qs'(1)] qs(2) qs'(2) by simp
qed simp

lemma outcomes_keep_nonce:
  assumes "block_outcomes D bs ch = Some (rs, c)" and "\<forall>b \<in> set bs. by_signer a (blk_extrinsics b) = []"
  shows "nonce_of c a = nonce_of ch a"
  using assms
proof (induction bs arbitrary: ch rs)
  case (Cons b bs)
  obtain r qs ch1 where one: "execute_block D b ch = Some (r, ch1)" and qs: "block_outcomes D bs ch1 = Some (qs, c)"
    using Cons.prems(1) by (rule block_outcomes_ConsE)
  have "nonce_of ch1 a = nonce_of ch a"
    using execute_block_nonces [OF one, of a] execute_block_nonce_bound [OF one, of a] Cons.prems(2) by simp
  with Cons.IH [OF qs] Cons.prems(2) show ?case by simp
qed simp

text \<open>C21: A fork goes unnoticed. When two nodes in the same state both author a block, because their
  peer lists or clocks differ, each rejects the block of the other, but the rejection
  advances its height. The two nodes then stand at the same height, each with the balances,
  nonces and claims of its own block; a nonce has grown by what that block applied, so the
  states differ when the blocks applied a different number of some signer's extrinsics.
  Whatever blocks both execute from there on, each block is accepted by both or rejected by
  both, the heights stay equal, and such a difference stays for as long as the later blocks
  hold no extrinsic of that signer.\<close>

theorem fork_goes_unnoticed:
  fixes N M :: "('st, 'sk, 'vk) node_deps"
  assumes "fst (ns_chain n) = fst (ns_chain m)" and "codec_ok (n_block N)" and "n_block M = n_block N"
    and "produce_block N (ns_chain n, ns_pool n) = Some (chn, pn, [rn])"
    and "produce_block M (ns_chain m, ns_pool m) = Some (chm, pm, [rm])"
    and "decode (n_block N) (pr_data rm) = Some bm" and "decode (n_block M) (pr_data rn) = Some bn"
    and "on_peer_block N bm (n\<lparr>ns_chain := chn, ns_pool := pn\<rparr>) = Some n'"
    and "on_peer_block M bn (m\<lparr>ns_chain := chm, ns_pool := pm\<rparr>) = Some m'"
  shows "(\<exists>e. execute_block (rt_deps N) bm chn = Some (Inl e, ns_chain n')) \<and>
    (\<exists>e. execute_block (rt_deps M) bn chm = Some (Inl e, ns_chain m')) \<and>
    block_number (rt_system (fst (ns_chain n'))) = block_number (rt_system (fst (ns_chain n))) + 2 \<and>
    block_number (rt_system (fst (ns_chain m'))) = block_number (rt_system (fst (ns_chain n))) + 2 \<and>
    rt_balances (fst (ns_chain n')) = rt_balances (fst chn) \<and> rt_balances (fst (ns_chain m')) = rt_balances (fst chm) \<and>
    sys_nonce (rt_system (fst (ns_chain n'))) = sys_nonce (rt_system (fst chn)) \<and>
    sys_nonce (rt_system (fst (ns_chain m'))) = sys_nonce (rt_system (fst chm)) \<and>
    rt_poe (fst (ns_chain n')) = rt_poe (fst chn) \<and> rt_poe (fst (ns_chain m')) = rt_poe (fst chm) \<and>
    (\<forall>a. nonce_of (ns_chain n') a = nonce_of (ns_chain n) a + length (by_signer a (applied_block (rt_deps N) bn (ns_chain n))) \<and>
         nonce_of (ns_chain m') a = nonce_of (ns_chain n) a + length (by_signer a (applied_block (rt_deps M) bm (ns_chain m)))) \<and>
    (\<forall>later rs cn rs' cm. block_outcomes (rt_deps N) later (ns_chain n') = Some (rs, cn) \<longrightarrow>
       block_outcomes (rt_deps M) later (ns_chain m') = Some (rs', cm) \<longrightarrow>
       rs = rs' \<and> block_number (rt_system (fst cn)) = block_number (rt_system (fst cm)) \<and>
       (\<forall>a. length (by_signer a (applied_block (rt_deps N) bn (ns_chain n))) \<noteq>
              length (by_signer a (applied_block (rt_deps M) bm (ns_chain m))) \<longrightarrow>
            (\<forall>b \<in> set later. by_signer a (blk_extrinsics b) = []) \<longrightarrow> nonce_of cn a \<noteq> nonce_of cm a))"
proof -
  obtain xs where n: "execute_block (rt_deps N) (next_block (ns_chain n) xs) (ns_chain n) = Some (Ok_unit, chn)"
    and "decode (n_block N) (pr_data rn) = Some (next_block (ns_chain n) xs)"
    using produce_block_published [OF assms(4,2)] by (metis list.inject)
  moreover obtain ys where m: "execute_block (rt_deps M) (next_block (ns_chain m) ys) (ns_chain m) = Some (Ok_unit, chm)"
    and "decode (n_block M) (pr_data rm) = Some (next_block (ns_chain m) ys)"
    using produce_block_published [OF assms(5)] assms(2,3) by (metis list.inject)
  ultimately have bn: "bn = next_block (ns_chain n) xs" and bm: "bm = next_block (ns_chain m) ys"
    using assms(3,6,7) by simp_all
  have one: "block_number (rt_system (fst chn)) = block_number (rt_system (fst (ns_chain n))) + 1"
    "block_number (rt_system (fst chm)) = block_number (rt_system (fst (ns_chain n))) + 1"
    using author_number n m assms(1) by metis+
  have taken: "hd_block_number (blk_header bm) = block_number (rt_system (fst chn))"
    "hd_block_number (blk_header bn) = block_number (rt_system (fst chm))"
    using one assms(1) by (simp_all add: bn bm next_block_def)
  have n': "ns_chain n' = bumped (rt_deps N) chn" and m': "ns_chain m' = bumped (rt_deps M) chm"
    using on_peer_block_refused(1) [OF assms(8)] on_peer_block_refused(1) [OF assms(9)] taken by simp_all
  have refused: "\<exists>e. execute_block (rt_deps N) bm chn = Some (Inl e, ns_chain n')"
    "\<exists>e. execute_block (rt_deps M) bn chm = Some (Inl e, ns_chain m')"
    using on_peer_block_refused(2) [OF assms(8)] on_peer_block_refused(2) [OF assms(9)] taken by simp_all
  have nonces: "nonce_of (ns_chain n') a = nonce_of (ns_chain n) a + length (by_signer a (applied_block (rt_deps N) bn (ns_chain n)))"
    "nonce_of (ns_chain m') a = nonce_of (ns_chain n) a + length (by_signer a (applied_block (rt_deps M) bm (ns_chain m)))" for a
    using applied_nonces(1) [OF n refl, of a] applied_nonces(1) [OF m refl, of a] assms(1) by (simp_all add: n' m' bn bm)
  have later: "rs = rs' \<and> block_number (rt_system (fst cn)) = block_number (rt_system (fst cm)) \<and>
      (\<forall>a. length (by_signer a (applied_block (rt_deps N) bn (ns_chain n))) \<noteq>
          length (by_signer a (applied_block (rt_deps M) bm (ns_chain m))) \<longrightarrow>
        (\<forall>b \<in> set later. by_signer a (blk_extrinsics b) = []) \<longrightarrow> nonce_of cn a \<noteq> nonce_of cm a)"
    if runs: "block_outcomes (rt_deps N) later (ns_chain n') = Some (rs, cn)"
      "block_outcomes (rt_deps M) later (ns_chain m') = Some (rs', cm)" for later rs cn rs' cm
  proof (intro conjI allI impI)
    have "block_number (rt_system (fst (ns_chain n'))) = block_number (rt_system (fst (ns_chain m')))"
      by (simp add: n' m' one)
    from outcomes_by_height [OF runs this]
    show "rs = rs'" "block_number (rt_system (fst cn)) = block_number (rt_system (fst cm))" by simp_all
    fix a
    assume "length (by_signer a (applied_block (rt_deps N) bn (ns_chain n))) \<noteq>
        length (by_signer a (applied_block (rt_deps M) bm (ns_chain m)))"
      and "\<forall>b \<in> set later. by_signer a (blk_extrinsics b) = []"
    then show "nonce_of cn a \<noteq> nonce_of cm a"
      using outcomes_keep_nonce [OF runs(1)] outcomes_keep_nonce [OF runs(2)] nonces [of a] by simp
  qed
  show ?thesis
    by (intro conjI) (use refused nonces later in \<open>simp_all add: n' m' one\<close>)
qed

theorem fork_goes_unnoticed_witness:
  "\<exists>chn pn rn chm pm rm bm bn n' m' cn cm.
     produce_block ref_node (ref_start, ref_pool) = Some (chn, pn, [rn]) \<and>
     produce_block ref_node (ref_start, with_block_limit 3) = Some (chm, pm, [rm]) \<and>
     on_peer_block ref_node bm (ref_state\<lparr>ns_chain := chn, ns_pool := pn\<rparr>) = Some n' \<and>
     on_peer_block ref_node bn (ref_state\<lparr>ns_chain := chm, ns_pool := pm\<rparr>) = Some m' \<and>
     block_outcomes ref_deps [ref_block 4 []] (ns_chain n') = Some ([Ok_unit], cn) \<and>
     block_outcomes ref_deps [ref_block 4 []] (ns_chain m') = Some ([Ok_unit], cm) \<and>
     balance (rt_balances (fst (ns_chain n'))) (public ref_ed25519 Alice) = 999995 \<and>
     nonce_of cn (public ref_ed25519 Alice) \<noteq> nonce_of cm (public ref_ed25519 Alice)"
proof -
  let ?e = "ref_ext Alice 0 (RC_balances (Call_transfer (public ref_ed25519 Bob) 5))" and ?a = "public ref_ed25519 Alice"
  obtain chn rsn where pn: "produce_block ref_node (ref_start, ref_pool) = Some (chn, rest_pool ref_pool, rsn)"
    and bal: "balance (rt_balances (fst chn)) ?a = 999995"
    by (rule ref_produce_transfer)
  obtain chm pm rsm where pm: "produce_block ref_node (ref_start, with_block_limit 3) = Some (chm, pm, rsm)"
    using produce_block_total [of ref_node ref_start "with_block_limit 3"] ref_nonce_room [of "[]"]
    by (auto simp: drained_def with_block_limit_def)
  obtain xs rn where n: "rsn = [rn]" "decode block_codec (pr_data rn) = Some (next_block ref_start xs)" "xs = [?e]"
    and exn: "execute_block ref_deps (next_block ref_start xs) ref_start = Some (Ok_unit, chn)"
    using pn by (rule produce_block_SomeE) (use ref_batch in simp)
  obtain ys rm where m: "rsm = [rm]" "decode block_codec (pr_data rm) = Some (next_block ref_start ys)" "ys = []"
    and exm: "execute_block ref_deps (next_block ref_start ys) ref_start = Some (Ok_unit, chm)"
    using pm by (rule produce_block_SomeE) (simp add: drained_def with_block_limit_def select_batch_def group_by_signer_def)
  have two: "block_number (rt_system (fst chn)) = 2" "block_number (rt_system (fst chm)) = 2"
    using author_number [OF exn] author_number [OF exm] by simp_all
  obtain n' where n': "on_peer_block ref_node (next_block ref_start ys) (ref_state\<lparr>ns_chain := chn, ns_pool := rest_pool ref_pool\<rparr>) = Some n'"
    using two by (auto simp: on_peer_block_def Let_def execute_block_alt next_block_def)
  obtain m' where m': "on_peer_block ref_node (next_block ref_start xs) (ref_state\<lparr>ns_chain := chm, ns_pool := pm\<rparr>) = Some m'"
    using two by (auto simp: on_peer_block_def Let_def execute_block_alt next_block_def)
  have s: "ref_state\<lparr>ns_pool := ref_pool, ns_chain := chn, ns_pool := rest_pool ref_pool\<rparr> =
      ref_state\<lparr>ns_chain := chn, ns_pool := rest_pool ref_pool\<rparr>"
    "ns_chain (ref_state\<lparr>ns_pool := ref_pool\<rparr>) = ref_start" "ns_chain ref_state = ref_start" "ns_pool ref_state = with_block_limit 3"
    "ns_pool (ref_state\<lparr>ns_pool := ref_pool\<rparr>) = ref_pool"
    by (simp_all add: ref_state_def)
  note fork = fork_goes_unnoticed [of "ref_state\<lparr>ns_pool := ref_pool\<rparr>" ref_state ref_node ref_node chn "rest_pool ref_pool" rn chm pm rm
      "next_block ref_start ys" "next_block ref_start xs" n' m', unfolded s ref_node_simps,
      OF refl wire_codecs_ok(2) refl pn [unfolded n(1)] pm [unfolded m(1)] m(2) n(2) n' m']
  have at3: "block_number (rt_system (fst (ns_chain n'))) = 3" "block_number (rt_system (fst (ns_chain m'))) = 3"
    "rt_balances (fst (ns_chain n')) = rt_balances (fst chn)"
    using fork by simp_all
  obtain cn where cn: "block_outcomes ref_deps [ref_block 4 []] (ns_chain n') = Some ([Ok_unit], cn)"
    using at3(1) by (auto simp: execute_block_alt results_alt)
  obtain cm where cm: "block_outcomes ref_deps [ref_block 4 []] (ns_chain m') = Some ([Ok_unit], cm)"
    using at3(2) by (auto simp: execute_block_alt results_alt)
  have "applied_block ref_deps (next_block ref_start xs) ref_start = [?e]" "applied_block ref_deps (next_block ref_start ys) ref_start = []"
    using exn by (simp_all add: applied_block_def next_block_def results_alt n(3) m(3) admissible_def split: option.splits)
  moreover have "length (by_signer ?a (applied_block ref_deps (next_block ref_start xs) ref_start)) \<noteq>
      length (by_signer ?a (applied_block ref_deps (next_block ref_start ys) ref_start)) \<longrightarrow>
      (\<forall>b \<in> set [ref_block 4 []]. by_signer ?a (blk_extrinsics b) = []) \<longrightarrow> nonce_of cn ?a \<noteq> nonce_of cm ?a"
    using fork cn cm by blast
  ultimately have "nonce_of cn ?a \<noteq> nonce_of cm ?a" by simp
  then show ?thesis
    using pn [unfolded n(1)] pm [unfolded m(1)] n' m' bal at3(3) cn cm
    by (intro exI [of _ chn] exI [of _ "rest_pool ref_pool"] exI [of _ rn] exI [of _ chm] exI [of _ pm] exI [of _ rm]
        exI [of _ "next_block ref_start ys"] exI [of _ "next_block ref_start xs"] exI [of _ n'] exI [of _ m'] exI [of _ cn] exI [of _ cm]) simp
qed

end
