(* ===== verification/Synchronous.thy ===== *)
theory Synchronous
  imports Network
begin

text \<open>
  A network that runs in step: the nodes of a committee know each other, their clocks agree,
  and what one publishes reaches the others before the next slot. The schedule is a function
  on the network, built of the same branches of the event loops as \<open>net_step\<close>, and each of
  its runs is one of \<open>net_step\<close>. What holds of it is what the authors mean the protocol to
  do; \<open>Network\<close> and \<open>Faulty_Network\<close> say what is left without synchrony.
\<close>

section \<open>The schedule\<close>

text \<open>Every node of a list, one after the other; a panic of one ends the run.\<close>

fun each :: "('p \<Rightarrow> 'n \<Rightarrow> 'n option) \<Rightarrow> 'p list \<Rightarrow> ('p \<Rightarrow> 'n) \<Rightarrow> ('p \<Rightarrow> 'n) option" where
  "each f [] ns = Some ns"
| "each f (i # is) ns = (case f i (ns i) of None \<Rightarrow> None | Some n \<Rightarrow> each f is (ns(i := n)))"

text \<open>A node works off its channels: the blocks, then the extrinsics.\<close>

fun handle_blocks :: "('st, 'sk, 'vk) node_deps \<Rightarrow> runtime_block list \<Rightarrow> ('st, 'p) node_state \<Rightarrow> ('st, 'p) node_state option" where
  "handle_blocks N [] n = Some n"
| "handle_blocks N (b # bs) n =
     (case on_peer_block N b (n\<lparr>ns_rx_blk := bs\<rparr>) of None \<Rightarrow> None | Some n' \<Rightarrow> handle_blocks N bs n')"

fun handle_extrinsics :: "ext list \<Rightarrow> ('st, 'p) node_state \<Rightarrow> ('st, 'p) node_state" where
  "handle_extrinsics [] n = n"
| "handle_extrinsics (e # es) n = handle_extrinsics es (on_extrinsic e (n\<lparr>ns_rx_ext := es\<rparr>))"

definition settle :: "('st, 'sk, 'vk) node_deps \<Rightarrow> ('st, 'p) node_state \<Rightarrow> ('st, 'p) node_state option" where
  "settle N n = map_option (\<lambda>m. handle_extrinsics (ns_rx_ext m) m) (handle_blocks N (ns_rx_blk n) n)"

definition publish_all :: "('st, 'p) node_state \<Rightarrow> ('st, 'p) node_state" where
  "publish_all n = n\<lparr>ns_rx_pub := [], ns_out := ns_out n @ ns_rx_pub n\<rparr>"

definition deliver_all :: "('st, 'sk, 'vk) node_deps \<Rightarrow> publish_req list \<Rightarrow> ('st, 'p) node_state \<Rightarrow> ('st, 'p) node_state" where
  "deliver_all N rs n = foldl (\<lambda>n r. on_message N (pr_topic r) (pr_data r) n) n rs"

text \<open>Everybody publishes, receives what the others published, and works it off.\<close>

definition exchange ::
  "('p \<Rightarrow> ('st, 'sk, 'vk) node_deps) \<Rightarrow> 'p list \<Rightarrow> ('st, 'p) network \<Rightarrow> ('st, 'p) network option" where
  "exchange N ids w =
     (let out = (\<lambda>i. ns_rx_pub (net_node w i));
          from_others = (\<lambda>i. concat (map out (filter (\<lambda>j. j \<noteq> i) ids)))
      in map_option (\<lambda>ns. w\<lparr>net_node := ns, net_wire := net_wire w \<union> set (concat (map out ids))\<rparr>)
           (each (\<lambda>i n. settle (N i) (deliver_all (N i) (from_others i) (publish_all n))) ids (net_node w)))"

definition tick_slot ::
  "('st, 'sk, 'vk) node_deps \<Rightarrow> u64 \<Rightarrow> ('st, 'p) node_state \<Rightarrow> ('st, 'p) node_state option" where
  "tick_slot N now n = (if ns_ticked (on_tick n) then on_slot N now (on_tick n) else Some (on_tick n))"

definition sync_slot ::
  "('p \<Rightarrow> ('st, 'sk, 'vk) node_deps) \<Rightarrow> 'p list \<Rightarrow> u64 \<Rightarrow> ('st, 'p) network \<Rightarrow> ('st, 'p) network option" where
  "sync_slot N ids now w =
     (case each (\<lambda>i. tick_slot (N i) now) ids (net_node w) of
        None \<Rightarrow> None
      | Some ns \<Rightarrow> exchange N ids (w\<lparr>net_node := ns\<rparr>))"

definition sync_submit ::
  "('p \<Rightarrow> ('st, 'sk, 'vk) node_deps) \<Rightarrow> 'p list \<Rightarrow> 'p \<Rightarrow> bytes \<Rightarrow> ('st, 'p) network \<Rightarrow> ('st, 'p) network option" where
  "sync_submit N ids i raw w =
     exchange N ids (w\<lparr>net_node := (net_node w)(i := on_rpc_submit (N i) raw (net_node w i)),
                        net_submitted := net_submitted w \<union> set_option (decode (n_ext (N i)) raw)\<rparr>)"

datatype 'p sync_event = Submit 'p bytes | Slot u64

fun sync_run ::
  "('p \<Rightarrow> ('st, 'sk, 'vk) node_deps) \<Rightarrow> 'p list \<Rightarrow> 'p sync_event list \<Rightarrow> ('st, 'p) network \<Rightarrow> ('st, 'p) network option" where
  "sync_run N ids [] w = Some w"
| "sync_run N ids (ev # evs) w =
     (case (case ev of Submit i raw \<Rightarrow> sync_submit N ids i raw w | Slot now \<Rightarrow> sync_slot N ids now w) of
        None \<Rightarrow> None
      | Some w' \<Rightarrow> sync_run N ids evs w')"

fun slots :: "'p sync_event list \<Rightarrow> nat" where
  "slots [] = 0"
| "slots (Slot now # evs) = Suc (slots evs)"
| "slots (Submit i raw # evs) = slots evs"

fun submitters :: "'p sync_event list \<Rightarrow> 'p set" where
  "submitters [] = {}"
| "submitters (Slot now # evs) = submitters evs"
| "submitters (Submit i raw # evs) = insert i (submitters evs)"

lemma sync_run_append: "sync_run N ids (evs @ evs') w = Option.bind (sync_run N ids evs w) (sync_run N ids evs')"
  by (induction evs arbitrary: w) (auto split: option.splits)

definition on_members :: "'p list \<Rightarrow> ('p \<Rightarrow> 'n) \<Rightarrow> ('p \<Rightarrow> 'n) \<Rightarrow> 'p \<Rightarrow> 'n" where
  "on_members ids ms ns i = (if i \<in> set ids then ms i else ns i)"

lemma on_members_simps [simp]:
  "i \<in> set ids \<Longrightarrow> on_members ids ms ns i = ms i" "on_members [] ms ns = ns"
  by (auto simp: on_members_def)

lemma each_Some:
  assumes "distinct ids" and "\<And>i. i \<in> set ids \<Longrightarrow> f i (ns i) = Some (ms i)"
  shows "each f ids ns = Some (on_members ids ms ns)"
  using assms
proof (induction ids arbitrary: ns)
  case (Cons i ids)
  have "each f ids (ns(i := ms i)) = Some (on_members ids ms (ns(i := ms i)))"
    using Cons.prems by (intro Cons.IH) auto
  moreover have "on_members ids ms (ns(i := ms i)) = on_members (i # ids) ms ns"
    using Cons.prems(1) by (auto simp: on_members_def fun_eq_iff)
  ultimately show ?case using Cons.prems(2) by simp
qed simp

lemma each_SomeD:
  assumes "each f ids ns = Some ns'" and "distinct ids"
  shows "i \<notin> set ids \<Longrightarrow> ns' i = ns i" and "i \<in> set ids \<Longrightarrow> f i (ns i) = Some (ns' i)"
proof -
  have "(i \<notin> set ids \<longrightarrow> ns' i = ns i) \<and> (i \<in> set ids \<longrightarrow> f i (ns i) = Some (ns' i))"
    using assms
  proof (induction ids arbitrary: ns)
    case (Cons j ids)
    then obtain n where n: "f j (ns j) = Some n" and rest: "each f ids (ns(j := n)) = Some ns'"
      by (auto split: option.splits)
    show ?case using Cons.IH [OF rest] Cons.prems(2) n by (cases "i = j") auto
  qed simp
  then show "i \<notin> set ids \<Longrightarrow> ns' i = ns i" and "i \<in> set ids \<Longrightarrow> f i (ns i) = Some (ns' i)"
    by blast+
qed

lemma each_members:
  assumes "each f ids ns = Some ns'" and "distinct ids"
  shows "on_members ids ns' ns = ns'"
proof
  show "on_members ids ns' ns i = ns' i" for i
    using each_SomeD(1) [OF assms, of i] by (cases "i \<in> set ids") (auto simp: on_members_def)
qed

section \<open>The schedule is a run of the network\<close>

lemma net_tasks:
  assumes "(task_step (N i))\<^sup>*\<^sup>* (net_node w i) n"
  shows "(net_step N)\<^sup>*\<^sup>* w (w\<lparr>net_node := (net_node w)(i := n)\<rparr>)"
  using assms
proof (induction rule: rtranclp_induct)
  case (step n1 n2)
  have "net_step N (w\<lparr>net_node := (net_node w)(i := n1)\<rparr>) (w\<lparr>net_node := (net_node w)(i := n2)\<rparr>)"
    using net_step.local [of N i "w\<lparr>net_node := (net_node w)(i := n1)\<rparr>" n2] step.hyps(2) by simp
  with step.IH show ?case by (rule rtranclp.rtrancl_into_rtrancl)
qed simp

text \<open>Independent moves of single nodes can be made one after the other.\<close>

lemma net_members:
  assumes "distinct ids"
    and "\<And>i v. i \<in> set ids \<Longrightarrow> net_node v i = net_node w i \<Longrightarrow> net_wire v = net_wire w \<Longrightarrow>
      (net_step N)\<^sup>*\<^sup>* v (v\<lparr>net_node := (net_node v)(i := ms i)\<rparr>)"
  shows "(net_step N)\<^sup>*\<^sup>* w (w\<lparr>net_node := on_members ids ms (net_node w)\<rparr>)"
  using assms
proof (induction ids rule: rev_induct)
  case (snoc i ids)
  let ?v = "w\<lparr>net_node := on_members ids ms (net_node w)\<rparr>"
  have upd: "(on_members ids ms (net_node w))(i := ms i) = on_members (ids @ [i]) ms (net_node w)"
    using snoc.prems(1) by (auto simp: on_members_def fun_eq_iff)
  have "(net_step N)\<^sup>*\<^sup>* w ?v"
    using snoc.prems by (intro snoc.IH) auto
  moreover have "(net_step N)\<^sup>*\<^sup>* ?v (?v\<lparr>net_node := (net_node ?v)(i := ms i)\<rparr>)"
    using snoc.prems(1) by (intro snoc.prems(2)) (auto simp: on_members_def)
  ultimately show ?case by (simp add: upd)
qed (simp add: on_members_def)

lemma handle_blocks_steps:
  "handle_blocks N bs n = Some n' \<Longrightarrow> ns_rx_blk n = bs \<Longrightarrow> \<not> ns_ticked n \<Longrightarrow>
   (task_step N)\<^sup>*\<^sup>* n n' \<and> \<not> ns_ticked n' \<and> ns_rx_blk n' = []"
proof (induction bs arbitrary: n)
  case (Cons b bs)
  then obtain n1 where one: "on_peer_block N b (n\<lparr>ns_rx_blk := bs\<rparr>) = Some n1" and rest: "handle_blocks N bs n1 = Some n'"
    by (auto split: option.splits)
  have "ns_rx_blk n1 = bs \<and> ns_ticked n1 = ns_ticked n"
    using one by (auto simp: on_peer_block_def Let_def split: option.splits sum.splits)
  with Cons rest have "(task_step N)\<^sup>*\<^sup>* n1 n' \<and> \<not> ns_ticked n' \<and> ns_rx_blk n' = []" by blast
  with task_step.recv_blk [OF Cons.prems(3,2) one] show ?case
    by (blast intro: converse_rtranclp_into_rtranclp)
qed simp

lemma handle_extrinsics_steps:
  "ns_rx_ext n = es \<Longrightarrow> \<not> ns_ticked n \<Longrightarrow> (task_step N)\<^sup>*\<^sup>* n (handle_extrinsics es n)"
proof (induction es arbitrary: n)
  case (Cons e es)
  let ?n = "on_extrinsic e (n\<lparr>ns_rx_ext := es\<rparr>)"
  have "(task_step N)\<^sup>*\<^sup>* ?n (handle_extrinsics es ?n)"
    using Cons.prems by (intro Cons.IH) (simp_all add: on_extrinsic_def)
  with task_step.recv_ext [OF Cons.prems(2,1)] show ?case
    by (auto intro: converse_rtranclp_into_rtranclp)
qed simp

lemma settle_steps:
  assumes "settle N n = Some n'" and "\<not> ns_ticked n"
  shows "(task_step N)\<^sup>*\<^sup>* n n'"
proof -
  obtain m where m: "handle_blocks N (ns_rx_blk n) n = Some m" and n': "n' = handle_extrinsics (ns_rx_ext m) m"
    using assms(1) by (auto simp: settle_def)
  from handle_blocks_steps [OF m refl assms(2)] handle_extrinsics_steps [of m "ns_rx_ext m" N] show ?thesis
    unfolding n' by (meson rtranclp_trans)
qed

lemma deliver_steps:
  assumes "set rs \<subseteq> net_wire w"
  shows "(net_step N)\<^sup>*\<^sup>* w (w\<lparr>net_node := (net_node w)(i := deliver_all (N i) rs (net_node w i))\<rparr>)"
  using assms
proof (induction rs rule: rev_induct)
  case (snoc r rs)
  let ?v = "w\<lparr>net_node := (net_node w)(i := deliver_all (N i) rs (net_node w i))\<rparr>"
  have "net_step N ?v (w\<lparr>net_node := (net_node w)(i := deliver_all (N i) (rs @ [r]) (net_node w i))\<rparr>)"
    using net_step.deliver [of r ?v N i] snoc.prems by (simp add: deliver_all_def)
  moreover have "(net_step N)\<^sup>*\<^sup>* w ?v" using snoc.prems by (intro snoc.IH) simp
  ultimately show ?case by (rule rtranclp.rtrancl_into_rtrancl [rotated])
qed (simp add: deliver_all_def)

lemma publish_steps:
  "(net_step N)\<^sup>*\<^sup>* w (w\<lparr>net_node := (net_node w)(i := publish_all (net_node w i)),
                      net_wire := net_wire w \<union> set (ns_rx_pub (net_node w i))\<rparr>)"
proof (induction "ns_rx_pub (net_node w i)" arbitrary: w)
  case Nil
  then have "publish_all (net_node w i) = net_node w i" by (simp add: publish_all_def)
  with Nil show ?case by (simp flip: Nil)
next
  case (Cons r rs)
  let ?n = "(net_node w i)\<lparr>ns_rx_pub := rs, ns_out := ns_out (net_node w i) @ [r]\<rparr>"
  let ?v = "w\<lparr>net_node := (net_node w)(i := ?n), net_wire := insert r (net_wire w)\<rparr>"
  have "net_step N w ?v"
    using Cons.hyps(2) by (intro net_step.publish) (simp add: on_publish_def flip: Cons.hyps(2))
  moreover have "(net_step N)\<^sup>*\<^sup>* ?v (w\<lparr>net_node := (net_node w)(i := publish_all (net_node w i)),
      net_wire := net_wire w \<union> set (ns_rx_pub (net_node w i))\<rparr>)"
    using Cons.hyps(1) [of ?v] by (simp add: publish_all_def flip: Cons.hyps(2))
  ultimately show ?case by (rule converse_rtranclp_into_rtranclp)
qed

lemma publish_members:
  assumes "distinct ids"
  shows "(net_step N)\<^sup>*\<^sup>* w (w\<lparr>net_node := on_members ids (\<lambda>i. publish_all (net_node w i)) (net_node w),
      net_wire := net_wire w \<union> set (concat (map (\<lambda>i. ns_rx_pub (net_node w i)) ids))\<rparr>)"
  using assms
proof (induction ids rule: rev_induct)
  case (snoc i ids)
  let ?v = "w\<lparr>net_node := on_members ids (\<lambda>i. publish_all (net_node w i)) (net_node w),
      net_wire := net_wire w \<union> set (concat (map (\<lambda>i. ns_rx_pub (net_node w i)) ids))\<rparr>"
  have i: "net_node ?v i = net_node w i"
    using snoc.prems by (simp add: on_members_def)
  have upd: "(on_members ids (\<lambda>i. publish_all (net_node w i)) (net_node w))(i := publish_all (net_node w i)) =
      on_members (ids @ [i]) (\<lambda>i. publish_all (net_node w i)) (net_node w)"
    using snoc.prems by (auto simp: on_members_def fun_eq_iff)
  have "(net_step N)\<^sup>*\<^sup>* w ?v" using snoc by simp
  also have "(net_step N)\<^sup>*\<^sup>* ?v (w\<lparr>net_node := on_members (ids @ [i]) (\<lambda>i. publish_all (net_node w i)) (net_node w),
      net_wire := net_wire w \<union> set (concat (map (\<lambda>i. ns_rx_pub (net_node w i)) (ids @ [i])))\<rparr>)"
    using publish_steps [of N ?v i] unfolding i by (simp add: upd Un_ac)
  finally show ?case .
qed (simp add: on_members_def)

lemma publish_all_simps [simp]:
  "ns_ticked (publish_all n) = ns_ticked n" "ns_chain (publish_all n) = ns_chain n" "ns_pool (publish_all n) = ns_pool n"
  "ns_peers (publish_all n) = ns_peers n" "ns_my_id (publish_all n) = ns_my_id n" "ns_rx_pub (publish_all n) = []"
  "ns_rx_ext (publish_all n) = ns_rx_ext n" "ns_rx_blk (publish_all n) = ns_rx_blk n"
  by (simp_all add: publish_all_def)

lemma deliver_all_ticked [simp]: "ns_ticked (deliver_all N rs n) = ns_ticked n"
  by (induction rs rule: rev_induct) (auto simp: deliver_all_def on_message_def split: option.splits)

lemma exchange_steps:
  assumes "distinct ids" and "exchange N ids w = Some w'" and "\<And>i. i \<in> set ids \<Longrightarrow> \<not> ns_ticked (net_node w i)"
  shows "(net_step N)\<^sup>*\<^sup>* w w'"
proof -
  let ?out = "\<lambda>i. ns_rx_pub (net_node w i)"
  let ?others = "\<lambda>i. concat (map ?out (filter (\<lambda>j. j \<noteq> i) ids))"
  let ?f = "\<lambda>i n. settle (N i) (deliver_all (N i) (?others i) (publish_all n))"
  let ?pub = "on_members ids (\<lambda>i. publish_all (net_node w i)) (net_node w)"
  let ?w1 = "w\<lparr>net_node := ?pub, net_wire := net_wire w \<union> set (concat (map ?out ids))\<rparr>"
  obtain ns where ns: "each ?f ids (net_node w) = Some ns"
    and w': "w' = w\<lparr>net_node := ns, net_wire := net_wire w \<union> set (concat (map ?out ids))\<rparr>"
    using assms(2) by (auto simp: exchange_def Let_def)
  note mem = each_members [OF ns assms(1)] and f = each_SomeD(2) [OF ns assms(1)]
  have pub: "(net_step N)\<^sup>*\<^sup>* w ?w1" using assms(1) by (rule publish_members)
  have rest: "(net_step N)\<^sup>*\<^sup>* ?w1 (?w1\<lparr>net_node := on_members ids ns (net_node ?w1)\<rparr>)"
  proof (rule net_members [OF assms(1)])
    fix i and v :: "('b, 'a) network"
    assume i: "i \<in> set ids" and node: "net_node v i = net_node ?w1 i" and wire: "net_wire v = net_wire ?w1"
    let ?n = "deliver_all (N i) (?others i) (publish_all (net_node w i))"
    let ?v = "v\<lparr>net_node := (net_node v)(i := ?n)\<rparr>"
    have n: "net_node v i = publish_all (net_node w i)" using node i by simp
    have "(net_step N)\<^sup>*\<^sup>* v ?v"
      using deliver_steps [of "?others i" v N i] wire unfolding n by auto
    also have "(net_step N)\<^sup>*\<^sup>* ?v (v\<lparr>net_node := (net_node v)(i := ns i)\<rparr>)"
      using net_tasks [of N i ?v "ns i"] settle_steps [of "N i" ?n "ns i"] f [OF i] assms(3) [OF i] by simp
    finally show "(net_step N)\<^sup>*\<^sup>* v (v\<lparr>net_node := (net_node v)(i := ns i)\<rparr>)" .
  qed
  have "on_members ids ns ?pub i = ns i" for i
    using fun_cong [OF mem, of i] by (auto simp: on_members_def)
  then have "on_members ids ns ?pub = ns" by blast
  then have "?w1\<lparr>net_node := on_members ids ns (net_node ?w1)\<rparr> = w'"
    by (cases w) (simp add: w')
  with rtranclp_trans [OF pub rest] show ?thesis by simp
qed

lemma tick_slot_steps:
  assumes "tick_slot N now n = Some n'" and "\<not> ns_ticked n"
  shows "(task_step N)\<^sup>*\<^sup>* n n' \<and> \<not> ns_ticked n'"
proof -
  have tick: "task_step N n (on_tick n)" using assms(2) by (rule task_step.tick)
  show ?thesis
  proof (cases "ns_ticked (on_tick n)")
    case True
    then have slot: "on_slot N now (on_tick n) = Some n'" using assms(1) by (simp add: tick_slot_def)
    then have "\<not> ns_ticked n'" by (auto simp: on_slot_def split: option.splits bool.splits)
    with tick task_step.slot [OF True slot] show ?thesis by auto
  qed (use tick assms(1) in \<open>simp add: tick_slot_def r_into_rtranclp\<close>)
qed

lemma sync_slot_steps:
  assumes "distinct ids" and "sync_slot N ids now w = Some w'" and "\<And>i. i \<in> set ids \<Longrightarrow> \<not> ns_ticked (net_node w i)"
  shows "(net_step N)\<^sup>*\<^sup>* w w'"
proof -
  obtain ns where ns: "each (\<lambda>i. tick_slot (N i) now) ids (net_node w) = Some ns"
    and ex: "exchange N ids (w\<lparr>net_node := ns\<rparr>) = Some w'"
    using assms(2) by (auto simp: sync_slot_def split: option.splits)
  have f: "(task_step (N i))\<^sup>*\<^sup>* (net_node w i) (ns i) \<and> \<not> ns_ticked (ns i)" if "i \<in> set ids" for i
    using tick_slot_steps [OF each_SomeD(2) [OF ns assms(1) that] assms(3) [OF that]] .
  have "(net_step N)\<^sup>*\<^sup>* w (w\<lparr>net_node := on_members ids ns (net_node w)\<rparr>)"
    using f by (intro net_members [OF assms(1)] net_tasks) simp
  then have "(net_step N)\<^sup>*\<^sup>* w (w\<lparr>net_node := ns\<rparr>)" by (simp add: each_members [OF ns assms(1)])
  also have "(net_step N)\<^sup>*\<^sup>* (w\<lparr>net_node := ns\<rparr>) w'"
    using f by (intro exchange_steps [OF assms(1) ex]) simp
  finally show ?thesis .
qed

lemma sync_submit_steps:
  assumes "distinct ids" and "sync_submit N ids i raw w = Some w'" and "\<And>j. j \<in> set ids \<Longrightarrow> \<not> ns_ticked (net_node w j)"
  shows "(net_step N)\<^sup>*\<^sup>* w w'"
proof -
  let ?v = "w\<lparr>net_node := (net_node w)(i := on_rpc_submit (N i) raw (net_node w i)),
              net_submitted := net_submitted w \<union> set_option (decode (n_ext (N i)) raw)\<rparr>"
  have "\<not> ns_ticked (net_node ?v j)" if "j \<in> set ids" for j
    using assms(3) [OF that] by (auto simp: on_rpc_submit_def case_prod_beta)
  then have "(net_step N)\<^sup>*\<^sup>* ?v w'"
    using assms(2) unfolding sync_submit_def by (intro exchange_steps [OF assms(1)])
  with net_step.submit [of N w i raw] show ?thesis
    by (rule converse_rtranclp_into_rtranclp)
qed

section \<open>A committee in step\<close>

text \<open>
  What the members are like between two events. Each runs under its current peer identifier,
  knows those of the others, and has nothing left to do; its runtime is related to \<open>rt\<close>, be
  it equal or only up to what a restart may lose.
\<close>

definition peer_ids :: "'p::linorder list \<Rightarrow> ('st, 'p) network \<Rightarrow> 'p list" where
  "peer_ids ids w = sort (map (\<lambda>i. ns_my_id (net_node w i)) ids)"

definition idle :: "('st, 'p) node_state \<Rightarrow> bool" where
  "idle n \<longleftrightarrow>
     \<not> ns_ticked n \<and> ns_rx_ext n = [] \<and> ns_rx_blk n = [] \<and> ns_rx_pub n = [] \<and>
     mp_max_capacity (ns_pool n) = None \<and> mp_block_limit (ns_pool n) = Some 3"

definition in_step :: "(runtime \<Rightarrow> runtime \<Rightarrow> bool) \<Rightarrow> 'p::linorder list \<Rightarrow> runtime \<Rightarrow> ('st, 'p) network \<Rightarrow> bool" where
  "in_step R ids rt w \<longleftrightarrow>
     distinct (peer_ids ids w) \<and>
     (\<forall>i \<in> set ids. R rt (fst (ns_chain (net_node w i))) \<and> ns_peers (net_node w i) = peer_ids ids w \<and> idle (net_node w i))"

text \<open>The member whose identifier is due.\<close>

definition slot_author :: "'p::linorder list \<Rightarrow> u64 \<Rightarrow> ('st, 'p) network \<Rightarrow> 'p" where
  "slot_author ids now w =
     (let due = peer_ids ids w ! (unat (current_slot now) mod length ids)
      in the (find (\<lambda>i. ns_my_id (net_node w i) = due) ids))"

lemma peer_ids_facts:
  "length (peer_ids ids w) = length ids" "set (peer_ids ids w) = (\<lambda>i. ns_my_id (net_node w i)) ` set ids"
  "distinct (peer_ids ids w) \<longleftrightarrow> distinct ids \<and> inj_on (\<lambda>i. ns_my_id (net_node w i)) (set ids)" "sorted (peer_ids ids w)"
  by (simp_all add: peer_ids_def distinct_map)

lemma peer_ids_cong:
  "(\<And>i. i \<in> set ids \<Longrightarrow> ns_my_id (net_node w' i) = ns_my_id (net_node w i)) \<Longrightarrow> peer_ids ids w' = peer_ids ids w"
  by (simp add: peer_ids_def cong: map_cong)

lemma slot_author_due:
  assumes "ids \<noteq> []"
  shows "slot_author ids now w \<in> set ids \<and>
    ns_my_id (net_node w (slot_author ids now w)) = peer_ids ids w ! (unat (current_slot now) mod length ids)"
proof -
  let ?due = "peer_ids ids w ! (unat (current_slot now) mod length ids)"
  have "?due \<in> set (peer_ids ids w)"
    using assms by (intro nth_mem) (simp add: peer_ids_facts(1))
  then obtain i where "i \<in> set ids" "ns_my_id (net_node w i) = ?due"
    by (auto simp: peer_ids_facts(2))
  then have "find (\<lambda>i. ns_my_id (net_node w i) = ?due) ids \<noteq> None"
    by (auto simp: find_None_iff)
  then obtain a where a: "find (\<lambda>i. ns_my_id (net_node w i) = ?due) ids = Some a" by blast
  then have "slot_author ids now w = a" by (simp add: slot_author_def Let_def)
  moreover have "a \<in> set ids" "ns_my_id (net_node w a) = ?due" using a by (auto simp: find_Some_iff)
  ultimately show ?thesis by simp
qed

text \<open>Only its identifier and its peers say who a node is.\<close>

lemma in_step_update:
  assumes "in_step R ids rt w" and "\<And>i. i \<in> set ids \<Longrightarrow> R rt' (fst (ns_chain (net_node w' i))) \<and> idle (net_node w' i) \<and>
      ns_my_id (net_node w' i) = ns_my_id (net_node w i) \<and> ns_peers (net_node w' i) = ns_peers (net_node w i)"
  shows "in_step R ids rt' w'"
proof -
  have "peer_ids ids w' = peer_ids ids w"
    by (rule peer_ids_cong) (use assms(2) in blast)
  then show ?thesis using assms by (simp add: in_step_def)
qed

lemma concat_none: "a \<notin> set ids \<Longrightarrow> concat (map (\<lambda>j. if j = a then v else []) (filter P ids)) = []"
  by (induction ids) auto

lemma concat_one:
  "distinct ids \<Longrightarrow> a \<in> set ids \<Longrightarrow>
   concat (map (\<lambda>j. if j = a then v else []) (filter (\<lambda>j. j \<noteq> i) ids)) = (if i = a then [] else v)"
  by (induction ids) (auto simp: concat_none)

text \<open>A round of gossip in which one member, at most, has something to say.\<close>

lemma exchange_from:
  assumes "distinct ids" and "a \<in> set ids"
    and "\<And>j. j \<in> set ids \<Longrightarrow> j \<noteq> a \<Longrightarrow> ns_rx_pub (net_node w j) = []"
    and "settle (N a) (publish_all (net_node w a)) = Some (m a)"
    and "\<And>j. j \<in> set ids \<Longrightarrow> j \<noteq> a \<Longrightarrow>
      settle (N j) (deliver_all (N j) (ns_rx_pub (net_node w a)) (publish_all (net_node w j))) = Some (m j)"
  shows "\<exists>w'. exchange N ids w = Some w' \<and> (\<forall>i \<in> set ids. net_node w' i = m i) \<and> net_submitted w' = net_submitted w"
proof -
  let ?out = "\<lambda>i. ns_rx_pub (net_node w i)"
  let ?others = "\<lambda>i. concat (map ?out (filter (\<lambda>j. j \<noteq> i) ids))"
  have eq: "?others i = concat (map (\<lambda>j. if j = a then ?out a else []) (filter (\<lambda>j. j \<noteq> i) ids))" for i
    using assms(3) by (intro arg_cong [where f = concat] map_cong) auto
  have "?others i = (if i = a then [] else ?out a)" for i
    unfolding eq using assms(1,2) by (rule concat_one)
  then have "settle (N i) (deliver_all (N i) (?others i) (publish_all (net_node w i))) = Some (m i)" if "i \<in> set ids" for i
    using assms(4,5) that by (cases "i = a") (auto simp: deliver_all_def)
  from each_Some [OF assms(1), of "\<lambda>i n. settle (N i) (deliver_all (N i) (?others i) (publish_all n))", OF this] show ?thesis
    by (simp add: exchange_def)
qed

text \<open>
  The members agree on codecs, topics and signatures (\<open>same_wire\<close>, \<open>same_crypto\<close>); stores and
  hash orders are their own.
\<close>

locale committee =
  fixes N :: "'p::linorder \<Rightarrow> ('st, 'sk, 'vk) node_deps" and ids :: "'p list"
  assumes wire: "same_wire N" and crypto: "same_crypto (rt_deps (N i)) (rt_deps (N j))"
    and ids: "distinct ids" "1 < length ids"
begin

lemma wire_facts:
  "n_ext (N i) = n_ext (N j)" "n_block (N i) = n_block (N j)" "n_topic_hash (N i) = n_topic_hash (N j)"
  "codec_ok (n_block (N i))" "hash_order_ok (n_hash_order (N i))"
  "n_topic_hash (N i) extrinsic_topic \<noteq> n_topic_hash (N i) block_topic"
  using wire by (auto simp: same_wire_def)

lemma author_member: "slot_author ids now w \<in> set ids"
  using ids(2) slot_author_due [of ids] by fastforce

lemma slot_of:
  assumes "i \<in> set ids" and "distinct (peer_ids ids w)"
  shows "is_my_slot now (ns_my_id (net_node w i)) (peer_ids ids w) = Some (i = slot_author ids now w)"
proof -
  note due = slot_author_due [of ids now w]
  have "ids \<noteq> []" and ne: "peer_ids ids w \<noteq> []"
    using ids(2) peer_ids_facts(1) [of ids w] by auto
  moreover have "inj_on (\<lambda>i. ns_my_id (net_node w i)) (set ids)"
    using assms(2) by (simp add: peer_ids_facts(3))
  ultimately have "ns_my_id (net_node w (slot_author ids now w)) = ns_my_id (net_node w i) \<longleftrightarrow> i = slot_author ids now w"
    using due assms(1) by (auto dest: inj_onD)
  with due ne \<open>ids \<noteq> []\<close> show ?thesis
    by (auto simp: is_my_slot_def Let_def peer_ids_facts(1))
qed

lemma follower_settles:
  assumes "idle n" and "execute_block (rt_deps (N j)) b (ns_chain n) = Some (Ok_unit, ch)"
  shows "settle (N j) (deliver_all (N j) [\<lparr>pr_topic = n_topic_hash (N a) block_topic, pr_data = encode (n_block (N a)) b\<rparr>]
      (publish_all n)) =
    Some (publish_all (n\<lparr>ns_chain := ch,
      ns_pool := retain (\<lambda>e. \<not> list_ex (\<lambda>(s, k). s = ext_signer e \<and> k = ext_nonce e)
        (map (\<lambda>e. (ext_signer e, ext_nonce e)) (blk_extrinsics b))) (ns_pool n)\<rparr>))"
proof -
  have "decode (n_block (N j)) (encode (n_block (N a)) b) = Some b" "n_topic_hash (N a) block_topic \<noteq> n_topic_hash (N j) extrinsic_topic"
    "n_topic_hash (N a) block_topic = n_topic_hash (N j) block_topic"
    using wire_facts(4,6) [of j] wire_facts(2) [of a j] wire_facts(3) [of a j] by (simp_all add: codec_ok_def)
  with assms show ?thesis
    by (simp add: settle_def deliver_all_def on_message_def publish_all_def on_peer_block_def Let_def idle_def)
qed

end

text \<open>
  Runtimes that are related agree on the system pallet, and blocks keep them related: equal
  runtimes, or runtimes equal up to the claims.
\<close>

locale lockstep = committee N ids
  for N :: "'p::linorder \<Rightarrow> ('st, 'sk, 'vk) node_deps" and ids :: "'p list" +
  fixes R :: "runtime \<Rightarrow> runtime \<Rightarrow> bool"
  assumes R_sym: "R rt rt' \<Longrightarrow> R rt' rt" and R_trans: "R rt rt' \<Longrightarrow> R rt' rt'' \<Longrightarrow> R rt rt''"
    and R_system: "R rt rt' \<Longrightarrow> rt_system rt = rt_system rt' \<and> runtime_wf rt = runtime_wf rt'"
    and R_block: "R (fst ch) (fst ch') \<Longrightarrow> execute_block (rt_deps (N i)) b ch = Some (r, ch1) \<Longrightarrow>
      \<exists>ch1'. execute_block (rt_deps (N j)) b ch' = Some (r, ch1') \<and> R (fst ch1) (fst ch1')"
begin

text \<open>An idle author whose counters have room produces a block it accepts, and hands it to the topic.\<close>

lemma author_produces:
  assumes idle: "idle n" and wf: "runtime_wf (fst (ns_chain n))" and number: "unat (block_number (rt_system (fst (ns_chain n)))) < 2 ^ 32 - 1"
    and nonces: "\<And>c. unat (nonce (rt_system (fst (ns_chain n))) c) + 3 < 2 ^ 32"
  obtains ch batch where "produce_block (N a) (ns_chain n, ns_pool n) = Some (ch, rest_pool (ns_pool n),
        [\<lparr>pr_topic = n_topic_hash (N a) block_topic, pr_data = encode (n_block (N a)) (next_block (ns_chain n) batch)\<rparr>])"
    and "select_batch (n_overflow_checks (N a)) (n_hash_order (N a)) (fst (ns_chain n)) (drained (ns_pool n)) = Some batch"
    and "execute_block (rt_deps (N a)) (next_block (ns_chain n) batch) (ns_chain n) = Some (Ok_unit, ch)"
    and "runtime_wf (fst ch)" and "unat (block_number (rt_system (fst ch))) = Suc (unat (block_number (rt_system (fst (ns_chain n)))))"
    and "\<And>c. unat (nonce (rt_system (fst ch)) c) \<le> unat (nonce (rt_system (fst (ns_chain n))) c) + 3"
proof -
  have three: "length (by_signer c (drained (ns_pool n))) \<le> 3" for c
  proof -
    have "length (by_signer c (drained (ns_pool n))) \<le> length (drained (ns_pool n))"
      by (simp add: by_signer_def)
    also have "\<dots> \<le> 3" using idle by (simp add: drained_def block_limit_def idle_def)
    finally show ?thesis .
  qed
  have "unat (nonce (rt_system (fst (ns_chain n))) c) + length (by_signer c (drained (ns_pool n))) < 2 ^ 32" for c
    using nonces [of c] three [of c] by (metis add_le_cancel_left le_less_trans)
  then obtain ch pool reqs where pb: "produce_block (N a) (ns_chain n, ns_pool n) = Some (ch, pool, reqs)"
    using produce_block_total [of "N a" "ns_chain n" "ns_pool n"] wire_facts(5) number wf by auto
  then obtain batch where
    sel: "select_batch (n_overflow_checks (N a)) (n_hash_order (N a)) (fst (ns_chain n)) (drained (ns_pool n)) = Some batch"
    and ex: "execute_block (rt_deps (N a)) (next_block (ns_chain n) batch) (ns_chain n) = Some (Ok_unit, ch)"
    and out: "pool = rest_pool (ns_pool n)"
      "reqs = [\<lparr>pr_topic = n_topic_hash (N a) block_topic, pr_data = encode (n_block (N a)) (next_block (ns_chain n) batch)\<rparr>]"
    by (elim produce_block_SomeE) auto
  have "unat (nonce (rt_system (fst ch)) c) \<le> unat (nonce (rt_system (fst (ns_chain n))) c) + 3" for c
  proof -
    have "length (by_signer c batch) \<le> length (by_signer c (drained (ns_pool n)))"
      using wire_facts(5) sel by (rule length_by_signer_run)
    with three [of c] execute_block_nonce_bound [OF ex, of c] show ?thesis by (simp add: next_block_def)
  qed
  then show thesis
    using that [OF pb [unfolded out] sel ex] execute_block_wf [OF ex] execute_block_number [OF ex] wf number by simp
qed

text \<open>
  One slot: the author of the slot, and nobody else, makes a block, and every member executes
  it successfully.
\<close>

lemma slot_round:
  assumes step: "in_step R ids rt w" and wf: "runtime_wf rt" and number: "unat (block_number (rt_system rt)) < 2 ^ 32 - 1"
    and nonces: "\<And>a. unat (nonce (rt_system rt) a) + 3 < 2 ^ 32" and a_def: "a = slot_author ids now w"
  obtains w' batch rt' where "sync_slot N ids now w = Some w'" and "in_step R ids rt' w'" and "net_submitted w' = net_submitted w"
    and "runtime_wf rt'" and "unat (block_number (rt_system rt')) = Suc (unat (block_number (rt_system rt)))"
    and "\<And>c. unat (nonce (rt_system rt') c) \<le> unat (nonce (rt_system rt) c) + 3"
    and "select_batch (n_overflow_checks (N a)) (n_hash_order (N a)) (fst (ns_chain (net_node w a)))
      (drained (ns_pool (net_node w a))) = Some batch"
    and "\<And>i. i \<in> set ids \<Longrightarrow> execute_block (rt_deps (N i)) (next_block (ns_chain (net_node w a)) batch) (ns_chain (net_node w i)) =
      Some (Ok_unit, ns_chain (net_node w' i))"
    and "\<And>i. i \<in> set ids \<Longrightarrow> ns_my_id (net_node w' i) = ns_my_id (net_node w i)"
    and "\<And>i. i \<in> set ids \<Longrightarrow> ns_pool (net_node w' i) = (if i = a then rest_pool (ns_pool (net_node w i))
      else retain (\<lambda>e. \<not> list_ex (\<lambda>(s, k). s = ext_signer e \<and> k = ext_nonce e)
        (map (\<lambda>e. (ext_signer e, ext_nonce e)) batch)) (ns_pool (net_node w i)))"
proof -
  let ?n = "net_node w" and ?peers = "peer_ids ids w"
  have a: "a \<in> set ids" unfolding a_def by (rule author_member)
  have R: "R rt (fst (ns_chain (?n i)))" and peers: "ns_peers (?n i) = ?peers" and idle: "idle (?n i)" if "i \<in> set ids" for i
    using step that by (simp_all add: in_step_def)
  have dist: "distinct ?peers" using step by (simp add: in_step_def)
  have sys: "rt_system (fst (ns_chain (?n i))) = rt_system rt" "runtime_wf (fst (ns_chain (?n i)))" if "i \<in> set ids" for i
    using R_system [OF R [OF that]] wf by simp_all
  let ?rest = "rest_pool (ns_pool (?n a))"
  obtain ch batch where pb: "produce_block (N a) (ns_chain (?n a), ns_pool (?n a)) = Some (ch, ?rest,
        [\<lparr>pr_topic = n_topic_hash (N a) block_topic, pr_data = encode (n_block (N a)) (next_block (ns_chain (?n a)) batch)\<rparr>])"
    and sel: "select_batch (n_overflow_checks (N a)) (n_hash_order (N a)) (fst (ns_chain (?n a))) (drained (ns_pool (?n a))) = Some batch"
    and ex: "execute_block (rt_deps (N a)) (next_block (ns_chain (?n a)) batch) (ns_chain (?n a)) = Some (Ok_unit, ch)"
    and after: "runtime_wf (fst ch)" "unat (block_number (rt_system (fst ch))) = Suc (unat (block_number (rt_system rt)))"
      "\<And>c. unat (nonce (rt_system (fst ch)) c) \<le> unat (nonce (rt_system rt) c) + 3"
    by (rule author_produces [OF idle [OF a] sys(2) [OF a], of a, unfolded sys(1) [OF a], OF number nonces]) blast
  define reqs where "reqs = [\<lparr>pr_topic = n_topic_hash (N a) block_topic, pr_data = encode (n_block (N a)) (next_block (ns_chain (?n a)) batch)\<rparr>]"
  note pb = pb [folded reqs_def]
  let ?b = "next_block (ns_chain (?n a)) batch"
  define chs where "chs i = (if i = a then ch else snd (the (execute_block (rt_deps (N i)) ?b (ns_chain (?n i)))))" for i
  have ch: "R (fst ch) (fst ch)"
    using R_block [OF _ ex, of "ns_chain (?n a)" a] R_trans [OF R_sym [OF R [OF a]] R [OF a]] ex by auto
  have chs: "execute_block (rt_deps (N i)) ?b (ns_chain (?n i)) = Some (Ok_unit, chs i) \<and> R (fst ch) (fst (chs i))" if "i \<in> set ids" for i
    using R_block [OF R_trans [OF R_sym [OF R [OF a]] R [OF that]] ex, of i] ex ch by (auto simp: chs_def)
  let ?pool = "\<lambda>i. if i = a then ?rest
      else retain (\<lambda>e. \<not> list_ex (\<lambda>(s, k). s = ext_signer e \<and> k = ext_nonce e)
        (map (\<lambda>e. (ext_signer e, ext_nonce e)) batch)) (ns_pool (?n i))"
  let ?ticked = "\<lambda>i. if i = a then (?n a)\<lparr>ns_chain := ch, ns_pool := ?rest, ns_rx_pub := reqs\<rparr> else ?n i"
  let ?final = "\<lambda>i. publish_all ((?n i)\<lparr>ns_chain := chs i, ns_pool := ?pool i, ns_rx_pub := (if i = a then reqs else [])\<rparr>)"
  have "tick_slot (N i) now (?n i) = Some (?ticked i)" if "i \<in> set ids" for i
    using idle [OF that] peers [OF that] slot_of [OF that dist, of now] pb ids(2) peer_ids_facts(1) [of ids w]
    by (auto simp: tick_slot_def on_tick_def on_slot_def idle_def a_def)
  from each_Some [OF ids(1), of "\<lambda>i. tick_slot (N i) now", OF this]
  have ticks: "each (\<lambda>i. tick_slot (N i) now) ids ?n = Some (on_members ids ?ticked ?n)" .
  have "settle (N a) (publish_all (?ticked a)) = Some (?final a)"
    using idle [OF a] by (simp add: settle_def idle_def publish_all_def chs_def)
  moreover have "settle (N j) (deliver_all (N j) reqs (publish_all (?ticked j))) = Some (?final j)" if "j \<in> set ids" "j \<noteq> a" for j
  proof -
    have "ns_rx_pub (?n j) = []" using idle [OF that(1)] by (simp add: idle_def)
    then show ?thesis
      using follower_settles [OF idle [OF that(1)], of j ?b "chs j" a] chs [OF that(1)] that(2)
      by (simp add: reqs_def next_block_def publish_all_def)
  qed
  moreover have "ns_rx_pub (?ticked j) = []" if "j \<in> set ids" "j \<noteq> a" for j
    using idle [OF that(1)] that(2) by (simp add: idle_def)
  ultimately obtain w' where "exchange N ids (w\<lparr>net_node := on_members ids ?ticked ?n\<rparr>) = Some w'"
    and final: "\<forall>i \<in> set ids. net_node w' i = ?final i" and sub: "net_submitted w' = net_submitted w"
    using exchange_from [OF ids(1) a, of "w\<lparr>net_node := on_members ids ?ticked ?n\<rparr>" N ?final] a by auto
  then have run: "sync_slot N ids now w = Some w'" by (simp add: sync_slot_def ticks)
  have "in_step R ids (fst ch) w'"
    using final idle chs by (intro in_step_update [OF step]) (auto simp: idle_def)
  then show thesis
    using that [OF run _ sub after sel] final chs by auto
qed

lemma submit_round:
  assumes step: "in_step R ids rt w" and i: "i \<in> set ids"
  obtains w' where "sync_submit N ids i raw w = Some w'" and "in_step R ids rt w'"
    and "net_submitted w' = net_submitted w \<union> set_option (decode (n_ext (N i)) raw)"
    and "\<And>j. j \<in> set ids \<Longrightarrow> ns_chain (net_node w' j) = ns_chain (net_node w j) \<and> ns_my_id (net_node w' j) = ns_my_id (net_node w j) \<and>
      ns_pool (net_node w' j) = (ns_pool (net_node w j))
        \<lparr>mp_pending := mp_pending (ns_pool (net_node w j)) @ (case decode (n_ext (N i)) raw of None \<Rightarrow> [] | Some e \<Rightarrow> [e])\<rparr>"
proof -
  let ?n = "net_node w"
  let ?w = "w\<lparr>net_node := ?n(i := on_rpc_submit (N i) raw (?n i)),
              net_submitted := net_submitted w \<union> set_option (decode (n_ext (N i)) raw)\<rparr>"
  let ?more = "case decode (n_ext (N i)) raw of None \<Rightarrow> [] | Some e \<Rightarrow> [e]"
  let ?final = "\<lambda>j. publish_all ((?n j)\<lparr>ns_rx_pub := (if j = i then ns_rx_pub (net_node ?w i) else []),
      ns_pool := (ns_pool (?n j))\<lparr>mp_pending := mp_pending (ns_pool (?n j)) @ ?more\<rparr>\<rparr>)"
  have mem: "idle (?n j)" if "j \<in> set ids" for j
    using step that by (simp add: in_step_def)
  have "settle (N i) (publish_all (net_node ?w i)) = Some (?final i)"
    using mem [OF i]
    by (auto simp: settle_def publish_all_def idle_def on_rpc_submit_def submit_handler_def on_extrinsic_def submit_def
        split: option.splits)
  moreover have "settle (N j) (deliver_all (N j) (ns_rx_pub (net_node ?w i)) (publish_all (net_node ?w j))) = Some (?final j)"
    if "j \<in> set ids" "j \<noteq> i" for j
    using mem [OF i] mem [OF that(1)] that(2) wire_facts(1) [of j i] wire_facts(3) [of j i]
    by (auto simp: settle_def publish_all_def deliver_all_def on_message_def idle_def on_rpc_submit_def submit_handler_def
        on_extrinsic_def submit_def split: option.splits)
  moreover have "ns_rx_pub (net_node ?w j) = []" if "j \<in> set ids" "j \<noteq> i" for j
    using mem [OF that(1)] that(2) by (simp add: idle_def)
  ultimately obtain w' where run: "exchange N ids ?w = Some w'" and final: "\<forall>j \<in> set ids. net_node w' j = ?final j"
    and sub: "net_submitted w' = net_submitted ?w"
    using exchange_from [OF ids(1) i, of ?w N ?final] by auto
  have "in_step R ids rt w'"
    using final mem step by (intro in_step_update [OF step]) (auto simp: in_step_def idle_def)
  then show thesis
    using that [of w'] run sub final by (auto simp: sync_submit_def)
qed

lemma in_step_idle: "in_step R ids rt w \<Longrightarrow> i \<in> set ids \<Longrightarrow> \<not> ns_ticked (net_node w i)"
  by (simp add: in_step_def idle_def)

text \<open>Whatever is submitted, and whenever the slots are: the members stay in step.\<close>

lemma event_in_step:
  assumes "in_step R ids rt w" and "runtime_wf rt"
    and "unat (block_number (rt_system rt)) + slots [ev] < 2 ^ 32"
    and "\<And>a. unat (nonce (rt_system rt) a) + 3 * slots [ev] < 2 ^ 32"
    and "submitters [ev] \<subseteq> set ids"
  obtains w' rt' where "sync_run N ids [ev] w = Some w'" and "(net_step N)\<^sup>*\<^sup>* w w'" and "in_step R ids rt' w'" and "runtime_wf rt'"
    and "peer_ids ids w' = peer_ids ids w"
    and "unat (block_number (rt_system rt')) = unat (block_number (rt_system rt)) + slots [ev]"
    and "\<And>a. unat (nonce (rt_system rt') a) \<le> unat (nonce (rt_system rt) a) + 3 * slots [ev]"
proof (cases ev)
  case (Submit i raw)
  then have "i \<in> set ids" using assms(5) by simp
  from submit_round [OF assms(1) this, of raw] obtain w1 where one: "sync_submit N ids i raw w = Some w1" and step: "in_step R ids rt w1"
    and same: "\<And>j. j \<in> set ids \<Longrightarrow> ns_my_id (net_node w1 j) = ns_my_id (net_node w j)"
    by metis
  have "(net_step N)\<^sup>*\<^sup>* w w1"
    using ids(1) one in_step_idle [OF assms(1)] by (rule sync_submit_steps)
  moreover have "peer_ids ids w1 = peer_ids ids w" using same by (rule peer_ids_cong)
  ultimately show thesis
    using one step assms(2) Submit by (intro that [of w1 rt]) simp_all
next
  case (Slot now)
  have num: "unat (block_number (rt_system rt)) < 2 ^ 32 - 1" and room: "unat (nonce (rt_system rt) a) + 3 < 2 ^ 32" for a
    using assms(3) assms(4) [of a] Slot by simp_all
  obtain w1 rt1 where one: "sync_slot N ids now w = Some w1" and step: "in_step R ids rt1 w1" and wf: "runtime_wf rt1"
    and number: "unat (block_number (rt_system rt1)) = Suc (unat (block_number (rt_system rt)))"
    and nonce: "\<And>c. unat (nonce (rt_system rt1) c) \<le> unat (nonce (rt_system rt) c) + 3"
    and same: "\<And>i. i \<in> set ids \<Longrightarrow> ns_my_id (net_node w1 i) = ns_my_id (net_node w i)"
    by (rule slot_round [OF assms(1,2) num room refl, of now]) blast
  have "(net_step N)\<^sup>*\<^sup>* w w1"
    using ids(1) one in_step_idle [OF assms(1)] by (rule sync_slot_steps)
  moreover have "peer_ids ids w1 = peer_ids ids w" using same by (rule peer_ids_cong)
  ultimately show thesis
    using one step wf number nonce Slot by (intro that [of w1 rt1]) simp_all
qed

lemma run_in_step:
  assumes "in_step R ids rt w" and "runtime_wf rt"
    and "unat (block_number (rt_system rt)) + slots evs < 2 ^ 32"
    and "\<And>a. unat (nonce (rt_system rt) a) + 3 * slots evs < 2 ^ 32"
    and "submitters evs \<subseteq> set ids"
  shows "\<exists>w' rt'. sync_run N ids evs w = Some w' \<and> (net_step N)\<^sup>*\<^sup>* w w' \<and> in_step R ids rt' w' \<and>
    unat (block_number (rt_system rt')) = unat (block_number (rt_system rt)) + slots evs"
  using assms
proof (induction evs arbitrary: rt w)
  case (Cons ev evs)
  have cons: "slots (ev # evs) = slots [ev] + slots evs" "submitters (ev # evs) = submitters [ev] \<union> submitters evs"
    by (cases ev; simp)+
  have small: "unat (block_number (rt_system rt)) + slots [ev] < 2 ^ 32"
    "unat (nonce (rt_system rt) a) + 3 * slots [ev] < 2 ^ 32" "submitters [ev] \<subseteq> set ids" for a
    using Cons.prems(3,5) Cons.prems(4) [of a] by (simp_all add: cons)
  obtain w1 rt1 where one: "sync_run N ids [ev] w = Some w1" "(net_step N)\<^sup>*\<^sup>* w w1" "in_step R ids rt1 w1" "runtime_wf rt1"
    and number: "unat (block_number (rt_system rt1)) = unat (block_number (rt_system rt)) + slots [ev]"
    and nonce: "\<And>a. unat (nonce (rt_system rt1) a) \<le> unat (nonce (rt_system rt) a) + 3 * slots [ev]"
    by (rule event_in_step [OF Cons.prems(1,2) small]) blast
  have "unat (nonce (rt_system rt1) a) + 3 * slots evs < 2 ^ 32" for a
    using Cons.prems(4) [of a] nonce [of a] by (simp add: cons)
  then obtain w' rt' where "sync_run N ids evs w1 = Some w'" "(net_step N)\<^sup>*\<^sup>* w1 w'" "in_step R ids rt' w'"
    "unat (block_number (rt_system rt')) = unat (block_number (rt_system rt1)) + slots evs"
    using Cons.IH [OF one(3,4)] Cons.prems(3,5) number by (auto simp: cons)
  moreover have "sync_run N ids (ev # evs) w = Option.bind (sync_run N ids [ev] w) (sync_run N ids evs)"
    using sync_run_append [of N ids "[ev]" evs w] by simp
  ultimately show ?case
    using one number by (intro exI [of _ w'] exI [of _ rt']) (auto simp: cons)
qed auto

end

text \<open>Equal runtimes stay equal, and so do runtimes that differ in the claims alone.\<close>

sublocale committee \<subseteq> exact: lockstep N ids "(=)"
proof
  show "\<exists>ch1'. execute_block (rt_deps (N j)) b ch' = Some (r, ch1') \<and> fst ch1 = fst ch1'"
    if "fst ch = fst ch'" "execute_block (rt_deps (N i)) b ch = Some (r, ch1)" for ch ch' b r ch1 i j
    using agree_SomeD [OF execute_block_agree [OF crypto that(1)] that(2)] by metis
qed auto

sublocale committee \<subseteq> core: lockstep N ids same_core
proof
  show "\<exists>ch1'. execute_block (rt_deps (N j)) b ch' = Some (r, ch1') \<and> same_core (fst ch1) (fst ch1')"
    if "same_core (fst ch) (fst ch')" "execute_block (rt_deps (N i)) b ch = Some (r, ch1)" for ch ch' b r ch1 i j
    using execute_block_core [OF crypto [of i j] that(1), of b] that(2) by (auto simp: option_rel_Some1)
qed (auto simp: same_core_def)

context committee
begin

lemmas in_lockstep = exact.lockstep_axioms core.lockstep_axioms

end

end
