(* ===== verification/Progress.thy ===== *)
theory Progress
  imports Synchronous
begin

text \<open>
  What a committee in step achieves: it stays in step and moves on with every slot, and the
  extrinsics its clients submit, with the nonces the RPC server hands out, are applied by
  every member, three per slot.
\<close>

section \<open>Queues in order\<close>

definition ordered :: "('sk, 'vk) ed25519 \<Rightarrow> RuntimeCall payload_enc \<Rightarrow> runtime \<Rightarrow> ext list \<Rightarrow> bool" where
  "ordered E enc rt P \<longleftrightarrow>
     (\<forall>a. consec (nonce (rt_system rt) a) (by_signer a P)) \<and> (\<forall>e \<in> set P. verify E enc e = Ok_unit)"

lemma consec_nonces:
  "consec n xs \<Longrightarrow> unat n + length xs < 2 ^ 32 \<Longrightarrow> map (\<lambda>e. unat (ext_nonce e)) xs = [unat n..<unat n + length xs]"
proof (induction n xs rule: consec.induct)
  case (2 n x xs)
  have "unat (n + 1) = Suc (unat n)"
    using "2.prems" by (simp add: unat_word_ariths)
  with 2 show ?case by (simp add: upt_conv_Cons del: upt_Suc)
qed simp

lemma consec_sort:
  assumes "consec n xs" and "unat n + length xs < 2 ^ 32"
  shows "sort_key ext_nonce xs = xs"
proof (rule sort_key_id_if_sorted)
  have "sorted (map unat (map ext_nonce xs))"
    using consec_nonces [OF assms] by (simp add: comp_def)
  then show "sorted (map ext_nonce xs)"
    by (simp add: sorted_wrt_map word_le_nat_alt)
qed

lemma ordered_distinct:
  assumes "ordered E enc rt P" and "\<And>a. unat (nonce (rt_system rt) a) + length (by_signer a P) < 2 ^ 32"
  shows "distinct (map (\<lambda>e. (ext_signer e, ext_nonce e)) P)"
proof (rule distinct_by_signer)
  show "distinct (map (\<lambda>e. unat (ext_nonce e)) (by_signer a P))" for a
    using consec_nonces [OF _ assms(2)] assms(1) by (simp add: ordered_def)
qed

text \<open>An author in order takes all its candidates.\<close>

lemma select_ordered:
  assumes "ordered E enc rt P" and "\<And>a. unat (nonce (rt_system rt) a) + length (by_signer a P) < 2 ^ 32"
    and "hash_order_ok ord" and "select_batch oc ord rt P = Some batch"
  shows "by_signer a batch = by_signer a P"
proof -
  have "consec (nonce (rt_system rt) a) (by_signer a P)"
    using assms(1) by (simp add: ordered_def)
  then have "signer_run oc rt P a = Some (by_signer a P)"
    using assms(2) [of a] by (simp add: signer_run_def consec_sort take_run_all)
  then show ?thesis
    using select_batch_by_signer [OF assms(3,4), of a] by simp
qed

lemma mset_by_signer:
  assumes "\<And>a. by_signer a xs = by_signer a ys"
  shows "mset xs = mset ys"
proof (rule multiset_eqI)
  show "count (mset xs) e = count (mset ys) e" for e
  proof -
    have "count (mset zs) e = count (mset (by_signer (ext_signer e) zs)) e" for zs
      by (simp add: by_signer_def mset_filter)
    then show ?thesis using assms by metis
  qed
qed

lemma ordered_prefix: "ordered E enc rt (xs @ ys) \<Longrightarrow> ordered E enc rt xs"
  by (simp add: ordered_def consec_append)

lemma ordered_rest:
  assumes "ordered E enc rt (xs @ ys)"
    and "\<And>a. nonce (rt_system rt') a = nonce (rt_system rt) a + word_of_nat (length (by_signer a xs))"
  shows "ordered E enc rt' ys"
  using assms by (simp add: ordered_def consec_append)

text \<open>What a follower evicts.\<close>

lemma evict_prefix:
  assumes "distinct (map (\<lambda>e. (ext_signer e, ext_nonce e)) (xs @ ys))" and "set batch = set xs"
  shows "filter (\<lambda>e. \<not> list_ex (\<lambda>(s, k). s = ext_signer e \<and> k = ext_nonce e)
    (map (\<lambda>e. (ext_signer e, ext_nonce e)) batch)) (xs @ ys) = ys"
proof -
  let ?in = "\<lambda>e. list_ex (\<lambda>(s, k). s = ext_signer e \<and> k = ext_nonce e) (map (\<lambda>e. (ext_signer e, ext_nonce e)) batch)"
  have in_iff: "?in e \<longleftrightarrow> (ext_signer e, ext_nonce e) \<in> (\<lambda>e. (ext_signer e, ext_nonce e)) ` set xs" for e
    by (force simp: list_ex_iff assms(2) [symmetric] image_iff)
  have "filter (\<lambda>e. \<not> ?in e) xs = []"
    by (auto simp: filter_empty_conv in_iff simp del: list_ex_iff)
  moreover have "filter (\<lambda>e. \<not> ?in e) ys = ys"
    using assms(1) by (intro filter_True) (auto simp: in_iff simp del: list_ex_iff)
  ultimately show ?thesis by (simp del: list_ex_iff)
qed

section \<open>Progress in every slot\<close>

context committee
begin

text \<open>A member that holds the author's ledger applies the whole batch the author selected.\<close>

lemma common_block_applied:
  assumes "fst cha = fst ch" and "ordered (d_ed25519 (N i)) (d_payload (N i)) (fst ch) Q"
    and "select_batch (n_overflow_checks (N a)) (n_hash_order (N a)) (fst ch) Q = Some batch"
    and ex: "execute_block (rt_deps (N i)) (next_block cha batch) ch = Some (Ok_unit, ch')"
  shows "applied_block (rt_deps (N i)) (next_block cha batch) ch = batch"
proof -
  have same: "next_block cha batch = next_block ch batch"
    using assms(1) by (simp add: next_block_def)
  show ?thesis
    unfolding same
    by (rule applied_next_block [OF _ ex [unfolded same] wire_facts(5)]) (use assms(2,3) in \<open>auto simp: ordered_def\<close>)
qed

text \<open>
  One slot takes the first three extrinsics of the common queue, on every member.
\<close>

lemma slot_progress:
  assumes "in_step (=) ids rt w" and "runtime_wf rt" and "unat (block_number (rt_system rt)) < 2 ^ 32 - 1"
    and pools: "\<And>i. i \<in> set ids \<Longrightarrow> mp_pending (ns_pool (net_node w i)) = P"
    and ord: "\<And>i. ordered (d_ed25519 (N i)) (d_payload (N i)) rt P"
    and room: "\<And>a. unat (nonce (rt_system rt) a) + length (by_signer a P) + 3 < 2 ^ 32"
  obtains w' rt' where "sync_slot N ids now w = Some w'" and "in_step (=) ids rt' w'" and "runtime_wf rt'"
    and "unat (block_number (rt_system rt')) = Suc (unat (block_number (rt_system rt)))"
    and "\<And>i. i \<in> set ids \<Longrightarrow> mp_pending (ns_pool (net_node w' i)) = drop 3 P"
    and "\<And>i. ordered (d_ed25519 (N i)) (d_payload (N i)) rt' (drop 3 P)"
    and "\<And>a. unat (nonce (rt_system rt') a) = unat (nonce (rt_system rt) a) + length (by_signer a (take 3 P))"
    and "\<And>i. i \<in> set ids \<Longrightarrow> \<exists>b. execute_block (rt_deps (N i)) b (ns_chain (net_node w i)) = Some (Ok_unit, ns_chain (net_node w' i)) \<and>
      mset (applied_block (rt_deps (N i)) b (ns_chain (net_node w i))) = mset (take 3 P)"
proof -
  let ?a = "slot_author ids now w"
  have a: "?a \<in> set ids" by (rule author_member)
  have split: "by_signer c P = by_signer c (take 3 P) @ by_signer c (drop 3 P)" for c
    by (metis append_take_drop_id by_signer_append)
  have room': "unat (nonce (rt_system rt) c) + 3 < 2 ^ 32"
    "unat (nonce (rt_system rt) c) + length (by_signer c (take 3 P)) < 2 ^ 32"
    "unat (nonce (rt_system rt) c) + length (by_signer c P) < 2 ^ 32" for c
    using room [of c] split [of c] by simp_all
  obtain w' batch rt' where run: "sync_slot N ids now w = Some w'" and step: "in_step (=) ids rt' w'" and wf: "runtime_wf rt'"
    and number: "unat (block_number (rt_system rt')) = Suc (unat (block_number (rt_system rt)))"
    and sel: "select_batch (n_overflow_checks (N ?a)) (n_hash_order (N ?a)) (fst (ns_chain (net_node w ?a)))
      (drained (ns_pool (net_node w ?a))) = Some batch"
    and ex: "\<And>i. i \<in> set ids \<Longrightarrow> execute_block (rt_deps (N i)) (next_block (ns_chain (net_node w ?a)) batch) (ns_chain (net_node w i)) =
      Some (Ok_unit, ns_chain (net_node w' i))"
    and pool: "\<And>i. i \<in> set ids \<Longrightarrow> ns_pool (net_node w' i) = (if i = ?a then rest_pool (ns_pool (net_node w i))
      else retain (\<lambda>e. \<not> list_ex (\<lambda>(s, k). s = ext_signer e \<and> k = ext_nonce e)
        (map (\<lambda>e. (ext_signer e, ext_nonce e)) batch)) (ns_pool (net_node w i)))"
    by (rule exact.slot_round [OF assms(1-3) room'(1) refl, of now]) blast
  have rt: "fst (ns_chain (net_node w i)) = rt" "fst (ns_chain (net_node w' i)) = rt'"
    "mp_block_limit (ns_pool (net_node w i)) = Some 3" if "i \<in> set ids" for i
    using assms(1) step that by (simp_all add: in_step_def idle_def)
  have sel: "select_batch (n_overflow_checks (N ?a)) (n_hash_order (N ?a)) rt (take 3 P) = Some batch"
    using sel pools [OF a] rt(1,3) [OF a] by (simp add: drained_def block_limit_def)
  have "ordered (d_ed25519 (N i)) (d_payload (N i)) rt (take 3 P @ drop 3 P)" for i
    using ord [of i] by simp
  note ord3 = ordered_prefix [OF this] and rest = ordered_rest [OF this]
  note batch = select_ordered [OF ord3 room'(2) wire_facts(5) sel]
  have mset: "mset batch = mset (take 3 P)" using batch by (rule mset_by_signer)
  have app: "applied_block (rt_deps (N i)) (next_block (ns_chain (net_node w ?a)) batch) (ns_chain (net_node w i)) = batch"
    if i: "i \<in> set ids" for i
    using rt(1) [OF i] rt(1) [OF a] ord3 [of i] sel by (intro common_block_applied [OF _ _ _ ex [OF i]]) simp_all
  have nonce: "unat (nonce (rt_system rt') c) = unat (nonce (rt_system rt) c) + length (by_signer c (take 3 P))"
    "nonce (rt_system rt') c = nonce (rt_system rt) c + word_of_nat (length (by_signer c (take 3 P)))" for c
    using applied_nonces [OF ex [OF a] app [OF a], of c] rt(1,2) [OF a] by (simp_all add: batch)
  note rest = rest [OF nonce(2)]
  have "distinct (map (\<lambda>e. (ext_signer e, ext_nonce e)) (take 3 P @ drop 3 P))"
    using ordered_distinct [OF ord room'(3)] by simp
  from evict_prefix [OF this, of batch] mset_eq_setD [OF mset] have
    "mp_pending (ns_pool (net_node w' i)) = drop 3 P" if "i \<in> set ids" for i
    using pool [OF that] pools [OF that] rt(3) [OF that] pools [OF a] rt(3) [OF a]
    by (cases "i = ?a") (simp_all add: rest_pool_def block_limit_def retain_def)
  then show thesis
    using that [OF run step wf number _ rest nonce(1)] ex app mset by metis
qed

text \<open>All slots of a list: three extrinsics of the common queue in each, on every member.\<close>

lemma slots_progress:
  assumes "in_step (=) ids rt w" and "runtime_wf rt" and "unat (block_number (rt_system rt)) + length nows < 2 ^ 32"
    and "\<And>i. i \<in> set ids \<Longrightarrow> mp_pending (ns_pool (net_node w i)) = P"
    and "\<And>i. ordered (d_ed25519 (N i)) (d_payload (N i)) rt P"
    and "\<And>a. unat (nonce (rt_system rt) a) + length (by_signer a P) + 3 < 2 ^ 32"
  shows "\<exists>w' rt'. sync_run N ids (map Slot nows) w = Some w' \<and> in_step (=) ids rt' w' \<and>
    (\<forall>i \<in> set ids. mp_pending (ns_pool (net_node w' i)) = drop (3 * length nows) P \<and>
      (\<exists>bs. run_blocks (rt_deps (N i)) bs (ns_chain (net_node w i)) = Some (ns_chain (net_node w' i)) \<and>
        length bs = length nows \<and>
        mset (applied_run (rt_deps (N i)) bs (ns_chain (net_node w i))) = mset (take (3 * length nows) P)))"
  using assms
proof (induction nows arbitrary: rt w P)
  case Nil
  then show ?case by (auto intro!: exI [of _ "[]"])
next
  case (Cons now nows)
  have number: "unat (block_number (rt_system rt)) < 2 ^ 32 - 1" using Cons.prems(3) by simp
  obtain w1 rt1 where one: "sync_slot N ids now w = Some w1" and step: "in_step (=) ids rt1 w1" and wf: "runtime_wf rt1"
    and num: "unat (block_number (rt_system rt1)) = Suc (unat (block_number (rt_system rt)))"
    and pools: "\<And>i. i \<in> set ids \<Longrightarrow> mp_pending (ns_pool (net_node w1 i)) = drop 3 P"
    and ord: "\<And>i. ordered (d_ed25519 (N i)) (d_payload (N i)) rt1 (drop 3 P)"
    and nonce: "\<And>a. unat (nonce (rt_system rt1) a) = unat (nonce (rt_system rt) a) + length (by_signer a (take 3 P))"
    and ex: "\<And>i. i \<in> set ids \<Longrightarrow> \<exists>b. execute_block (rt_deps (N i)) b (ns_chain (net_node w i)) = Some (Ok_unit, ns_chain (net_node w1 i)) \<and>
      mset (applied_block (rt_deps (N i)) b (ns_chain (net_node w i))) = mset (take 3 P)"
    by (rule slot_progress [OF Cons.prems(1,2) number Cons.prems(4,5,6), of now]) (assumption, rule that)
  have "by_signer a P = by_signer a (take 3 P) @ by_signer a (drop 3 P)" for a
    by (metis append_take_drop_id by_signer_append)
  then have room: "unat (nonce (rt_system rt1) a) + length (by_signer a (drop 3 P)) + 3 < 2 ^ 32" for a
    using Cons.prems(6) [of a] by (simp add: nonce)
  have "unat (block_number (rt_system rt1)) + length nows < 2 ^ 32" using Cons.prems(3) num by simp
  from Cons.IH [OF step wf this pools ord room] obtain w' rt' where
    run: "sync_run N ids (map Slot nows) w1 = Some w'" and last: "in_step (=) ids rt' w'"
    and later: "\<And>i. i \<in> set ids \<Longrightarrow> mp_pending (ns_pool (net_node w' i)) = drop (3 * length nows) (drop 3 P) \<and>
      (\<exists>bs. run_blocks (rt_deps (N i)) bs (ns_chain (net_node w1 i)) = Some (ns_chain (net_node w' i)) \<and>
        length bs = length nows \<and>
        mset (applied_run (rt_deps (N i)) bs (ns_chain (net_node w1 i))) = mset (take (3 * length nows) (drop 3 P)))"
    by blast
  have "\<exists>bs. run_blocks (rt_deps (N i)) bs (ns_chain (net_node w i)) = Some (ns_chain (net_node w' i)) \<and>
        length bs = Suc (length nows) \<and>
        mset (applied_run (rt_deps (N i)) bs (ns_chain (net_node w i))) = mset (take (3 * Suc (length nows)) P)"
    if i: "i \<in> set ids" for i
  proof -
    obtain b where "execute_block (rt_deps (N i)) b (ns_chain (net_node w i)) = Some (Ok_unit, ns_chain (net_node w1 i))"
      and "mset (applied_block (rt_deps (N i)) b (ns_chain (net_node w i))) = mset (take 3 P)"
      using ex [OF i] by blast
    moreover obtain bs where "run_blocks (rt_deps (N i)) bs (ns_chain (net_node w1 i)) = Some (ns_chain (net_node w' i))"
      and "length bs = length nows"
      and "mset (applied_run (rt_deps (N i)) bs (ns_chain (net_node w1 i))) = mset (take (3 * length nows) (drop 3 P))"
      using later [OF i] by blast
    ultimately show ?thesis
      by (intro exI [of _ "b # bs"]) (simp add: take_add)
  qed
  then show ?case
    using one run last later by (intro exI [of _ w'] exI [of _ rt']) (simp add: add.commute)
qed

lemma submits_progress:
  assumes "in_step (=) ids rt w"
    and "list_all2 (\<lambda>(i, raw) e. i \<in> set ids \<and> decode (n_ext (N i)) raw = Some e) subs es"
    and "\<And>i. i \<in> set ids \<Longrightarrow> mp_pending (ns_pool (net_node w i)) = P"
  shows "\<exists>w'. sync_run N ids (map (\<lambda>(i, raw). Submit i raw) subs) w = Some w' \<and> in_step (=) ids rt w' \<and>
    (\<forall>i \<in> set ids. ns_chain (net_node w' i) = ns_chain (net_node w i) \<and> mp_pending (ns_pool (net_node w' i)) = P @ es)"
  using assms
proof (induction subs arbitrary: w P es)
  case (Cons sub subs)
  obtain i raw where sub: "sub = (i, raw)" by (cases sub)
  obtain e es' where i: "i \<in> set ids" and e: "decode (n_ext (N i)) raw = Some e" and es: "es = e # es'"
    and rest: "list_all2 (\<lambda>(i, raw) e. i \<in> set ids \<and> decode (n_ext (N i)) raw = Some e) subs es'"
    using Cons.prems(2) by (cases es) (auto simp: sub)
  obtain w1 where one: "sync_submit N ids i raw w = Some w1" and step: "in_step (=) ids rt w1"
    and pools: "\<And>j. j \<in> set ids \<Longrightarrow> ns_chain (net_node w1 j) = ns_chain (net_node w j) \<and>
      ns_pool (net_node w1 j) = (ns_pool (net_node w j))\<lparr>mp_pending := mp_pending (ns_pool (net_node w j)) @ [e]\<rparr>"
    by (rule exact.submit_round [OF Cons.prems(1) i, of raw]) (use e in auto)
  then have "mp_pending (ns_pool (net_node w1 j)) = P @ [e]" if "j \<in> set ids" for j
    using Cons.prems(3) that by simp
  from Cons.IH [OF step rest this] show ?case
    using one pools by (auto simp: sub es)
qed auto

end

section \<open>The start of a committee\<close>

definition connect_all :: "'p::linorder list \<Rightarrow> 'p \<Rightarrow> ('st, 'p) node_state \<Rightarrow> ('st, 'p) node_state" where
  "connect_all ids i n = foldl (\<lambda>n p. on_connected p n) n (filter (\<lambda>p. p \<noteq> i) ids)"

lemma connect_steps:
  assumes "i \<notin> set ps" and "ns_my_id n = i" and "sorted (ns_peers n)"
  shows "(task_step N)\<^sup>*\<^sup>* n (foldl (\<lambda>n p. on_connected p n) n ps) \<and>
    foldl (\<lambda>n p. on_connected p n) n ps = n\<lparr>ns_peers := sort (ns_peers n @ ps)\<rparr>"
  using assms
proof (induction ps rule: rev_induct)
  case Nil
  then show ?case by (simp add: sorted_sort_id)
next
  case (snoc p ps)
  let ?m = "foldl (\<lambda>n p. on_connected p n) n ps"
  have IH: "(task_step N)\<^sup>*\<^sup>* n ?m" "?m = n\<lparr>ns_peers := sort (ns_peers n @ ps)\<rparr>"
    using snoc by auto
  have "task_step N ?m (on_connected p ?m)"
    using snoc.prems IH(2) by (intro task_step.connected) auto
  moreover have "sort (sort (ns_peers n @ ps) @ [p]) = sort (ns_peers n @ ps @ [p])"
    by (rule properties_for_sort) simp_all
  ultimately show ?case
    using IH by (auto simp: on_connected_def intro: rtranclp.rtrancl_into_rtrancl)
qed

lemma node_start_fields:
  "node_start N i s = Some n \<Longrightarrow> ns_my_id n = i \<and> ns_peers n = [i] \<and> ns_pool n = with_block_limit 3 \<and>
     ns_rx_ext n = [] \<and> ns_rx_blk n = [] \<and> ns_rx_pub n = [] \<and> \<not> ns_ticked n"
  by (auto simp: node_start_def split: option.splits)

definition met :: "'p::linorder list \<Rightarrow> ('st, 'p) network \<Rightarrow> ('st, 'p) network" where
  "met ids w = w\<lparr>net_node := on_members ids (\<lambda>i. connect_all ids i (net_node w i)) (net_node w)\<rparr>"

context committee
begin

lemma committee_starts:
  assumes start: "\<And>i. node_start (N i) i (s0 i) = Some (n i)"
    and same: "\<And>i. i \<in> set ids \<Longrightarrow> fst (ns_chain (n i)) = rt"
  defines "w \<equiv> met ids \<lparr>net_node = n, net_wire = {}, net_submitted = {}\<rparr>"
  shows "net_reach N s0 w" and "in_step (=) ids rt w" and "\<And>i. i \<in> set ids \<Longrightarrow> mp_pending (ns_pool (net_node w i)) = []"
proof -
  let ?w = "\<lparr>net_node = n, net_wire = {}, net_submitted = {}\<rparr>"
  have n: "ns_my_id (n i) = i \<and> ns_peers (n i) = [i]" for i
    using node_start_fields [OF start [of i]] by simp
  have peers: "sort (i # filter (\<lambda>p. p \<noteq> i) ids) = sort ids" if "i \<in> set ids" for i
  proof -
    have "mset (i # filter (\<lambda>p. p \<noteq> i) ids) = mset ids"
      using ids(1) that by (subst set_eq_iff_mset_eq_distinct [symmetric]) auto
    then show ?thesis by (intro properties_for_sort) simp_all
  qed
  have conn: "(task_step (N i))\<^sup>*\<^sup>* (n i) ((n i)\<lparr>ns_peers := sort ids\<rparr>) \<and> connect_all ids i (n i) = (n i)\<lparr>ns_peers := sort ids\<rparr>"
    if "i \<in> set ids" for i
    using connect_steps [of i "filter (\<lambda>p. p \<noteq> i) ids" "n i" "N i"] n [of i] peers [OF that]
    by (auto simp: connect_all_def)
  then have "(net_step N)\<^sup>*\<^sup>* ?w w"
    unfolding w_def met_def by (intro net_members [OF ids(1)] net_tasks) simp
  moreover have "net_reach N s0 ?w" using start by (rule net_reach.start)
  ultimately show "net_reach N s0 w"
    by (induction rule: rtranclp_induct) (auto intro: net_reach.step)
  have "peer_ids ids w = sort ids"
    using conn n by (auto simp: peer_ids_def w_def met_def intro!: arg_cong [where f = sort] map_idI)
  moreover have "idle ((n i)\<lparr>ns_peers := sort ids\<rparr>) \<and> mp_pending (ns_pool (n i)) = []" for i
    using node_start_fields [OF start [of i]] by (simp add: idle_def with_block_limit_def)
  ultimately show "in_step (=) ids rt w" and "\<And>i. i \<in> set ids \<Longrightarrow> mp_pending (ns_pool (net_node w i)) = []"
    using conn same ids(1) by (simp_all add: w_def met_def in_step_def)
qed

end

text \<open>C9: A committee in step stays in step. Nodes that know each other, share a clock and receive
  what the others publish before the next slot never stop, whatever bytes clients submit to
  them and whatever the slots are, as long as height and nonces are within range: each slot
  has exactly one block, and after every event all members have the same runtime, one block
  higher for each slot. The run is one of the asynchronous network, so all that holds there
  holds here.\<close>

theorem synchronous_agreement:
  assumes "committee N ids" and "net_reach N s0 w" and "in_step (=) ids rt w" and "runtime_wf rt"
    and "unat (block_number (rt_system rt)) + slots evs < 2 ^ 32"
    and "\<And>a. unat (nonce (rt_system rt) a) + 3 * slots evs < 2 ^ 32"
    and "submitters evs \<subseteq> set ids"
  shows "\<exists>w' rt'. sync_run N ids evs w = Some w' \<and> net_reach N s0 w' \<and> in_step (=) ids rt' w' \<and>
    (\<forall>i \<in> set ids. fst (ns_chain (net_node w' i)) = rt') \<and>
    unat (block_number (rt_system rt')) = unat (block_number (rt_system rt)) + slots evs"
proof -
  obtain w' rt' where run: "sync_run N ids evs w = Some w'" "in_step (=) ids rt' w'"
    "unat (block_number (rt_system rt')) = unat (block_number (rt_system rt)) + slots evs"
    and steps: "(net_step N)\<^sup>*\<^sup>* w w'"
    using lockstep.run_in_step [OF committee.in_lockstep(1) [OF assms(1)] assms(3-7)] by blast
  have "net_reach N s0 w'"
    using steps assms(2) by (induction rule: rtranclp_induct) (auto intro: net_reach.step)
  moreover have "\<forall>i \<in> set ids. fst (ns_chain (net_node w' i)) = rt'"
    using run(2) by (simp add: in_step_def)
  ultimately show ?thesis using run by blast
qed

text \<open>Two reference nodes that have just met.\<close>

interpretation ref_pair: committee "\<lambda>_ :: nat. ref_node" "[1, 2]"
  using ref_same_wire by unfold_locales (simp_all add: same_crypto_def)

definition ref_met :: "(mem, nat) network" where
  "ref_met = met [1, 2] ref_net"

lemma ref_met_facts:
  "net_reach (\<lambda>_. ref_node) (\<lambda>_. []) ref_met" "in_step (=) [1, 2] (fst ref_start) ref_met"
  "i \<in> {1, 2} \<Longrightarrow> mp_pending (ns_pool (net_node ref_met i)) = []"
proof -
  let ?n = "\<lambda>i. ref_state\<lparr>ns_my_id := i, ns_peers := [i]\<rparr>"
  have start: "node_start ref_node i [] = Some (?n i)" for i
    by (simp add: node_start_def ref_genesis [unfolded ref_boot_def] ref_state_def)
  have chain: "fst (ns_chain (?n i)) = fst ref_start" for i
    by (simp add: ref_state_def)
  note facts = ref_pair.committee_starts [OF start chain, folded ref_net_def ref_met_def]
  show "net_reach (\<lambda>_. ref_node) (\<lambda>_. []) ref_met" "in_step (=) [1, 2] (fst ref_start) ref_met"
    "i \<in> {1, 2} \<Longrightarrow> mp_pending (ns_pool (net_node ref_met i)) = []"
    using facts by simp_all
qed

theorem synchronous_agreement_witness:
  "\<exists>w' rt'. sync_run (\<lambda>_. ref_node) [1, 2] [Submit 1 (encode ext_codec (ref_claim 0)), Slot 0, Submit 2 [], Slot 20] ref_met = Some w' \<and>
     fst (ns_chain (net_node w' 1)) = fst (ns_chain (net_node w' 2)) \<and> unat (block_number (rt_system (fst (ns_chain (net_node w' 1))))) = 3"
proof -
  have "committee (\<lambda>_ :: nat. ref_node) [1, 2]" by (fact ref_pair.committee_axioms)
  from synchronous_agreement [OF this ref_met_facts(1,2), of "[Submit 1 (encode ext_codec (ref_claim 0)), Slot 0, Submit 2 [], Slot 20]"]
  show ?thesis by auto
qed

text \<open>C8: What clients submit is applied, on every node. A committee in step with empty queues
  receives any number of signed extrinsics, at whichever members, such that those of each
  signer carry the next nonces. After one slot for every three of them, all queues are empty,
  all members have the same runtime, and the blocks each member executed since have applied
  exactly these extrinsics, each once.\<close>

theorem synchronous_delivery:
  assumes "committee N ids" and "in_step (=) ids rt w" and "runtime_wf rt"
    and "\<And>i. i \<in> set ids \<Longrightarrow> mp_pending (ns_pool (net_node w i)) = []"
    and "list_all2 (\<lambda>(i, raw) e. i \<in> set ids \<and> decode (n_ext (N i)) raw = Some e) subs es"
    and "\<And>i. ordered (d_ed25519 (N i)) (d_payload (N i)) rt es"
    and "\<And>a. unat (nonce (rt_system rt) a) + length (by_signer a es) + 3 < 2 ^ 32"
    and "unat (block_number (rt_system rt)) + length nows < 2 ^ 32" and "length es \<le> 3 * length nows"
  shows "\<exists>w' rt'. sync_run N ids (map (\<lambda>(i, raw). Submit i raw) subs @ map Slot nows) w = Some w' \<and> in_step (=) ids rt' w' \<and>
    (\<forall>i \<in> set ids. fst (ns_chain (net_node w' i)) = rt' \<and> mp_pending (ns_pool (net_node w' i)) = [] \<and>
      (\<exists>bs. run_blocks (rt_deps (N i)) bs (ns_chain (net_node w i)) = Some (ns_chain (net_node w' i)) \<and>
        mset (applied_run (rt_deps (N i)) bs (ns_chain (net_node w i))) = mset es))"
proof -
  obtain w1 where subs: "sync_run N ids (map (\<lambda>(i, raw). Submit i raw) subs) w = Some w1" and step: "in_step (=) ids rt w1"
    and same: "\<And>i. i \<in> set ids \<Longrightarrow> ns_chain (net_node w1 i) = ns_chain (net_node w i)"
    and pools: "\<And>i. i \<in> set ids \<Longrightarrow> mp_pending (ns_pool (net_node w1 i)) = es"
    using committee.submits_progress [OF assms(1,2,5,4)] by auto
  obtain w' rt' where "sync_run N ids (map Slot nows) w1 = Some w'" and step': "in_step (=) ids rt' w'"
    and fin: "\<And>i. i \<in> set ids \<Longrightarrow> mp_pending (ns_pool (net_node w' i)) = drop (3 * length nows) es \<and>
      (\<exists>bs. run_blocks (rt_deps (N i)) bs (ns_chain (net_node w1 i)) = Some (ns_chain (net_node w' i)) \<and> length bs = length nows \<and>
        mset (applied_run (rt_deps (N i)) bs (ns_chain (net_node w1 i))) = mset (take (3 * length nows) es))"
    using committee.slots_progress [OF assms(1) step assms(3,8) pools assms(6,7)] by blast
  then have "sync_run N ids (map (\<lambda>(i, raw). Submit i raw) subs @ map Slot nows) w = Some w'"
    using subs by (simp add: sync_run_append)
  moreover have "fst (ns_chain (net_node w' i)) = rt'" if "i \<in> set ids" for i
    using step' that by (simp add: in_step_def)
  moreover have "mp_pending (ns_pool (net_node w' i)) = [] \<and>
      (\<exists>bs. run_blocks (rt_deps (N i)) bs (ns_chain (net_node w i)) = Some (ns_chain (net_node w' i)) \<and>
        mset (applied_run (rt_deps (N i)) bs (ns_chain (net_node w i))) = mset es)" if "i \<in> set ids" for i
    using fin [OF that] same [OF that] assms(9) by auto
  ultimately show ?thesis using step' by blast
qed

theorem synchronous_delivery_witness:
  "\<exists>w' bs. sync_run (\<lambda>_. ref_node) [1, 2]
       [Submit 1 (encode ext_codec (ref_claim 0)), Submit 2 (encode ext_codec (ref_claim 1)), Slot 0] ref_met = Some w' \<and>
     run_blocks ref_deps bs (ns_chain (net_node ref_met 2)) = Some (ns_chain (net_node w' 2)) \<and>
     mset (applied_run ref_deps bs (ns_chain (net_node ref_met 2))) = {#ref_claim 0, ref_claim 1#}"
proof -
  let ?subs = "[(1 :: nat, encode ext_codec (ref_claim 0)), (2, encode ext_codec (ref_claim 1))]"
  let ?es = "[ref_claim 0, ref_claim 1]"
  have com: "committee (\<lambda>_ :: nat. ref_node) [1, 2]" by (fact ref_pair.committee_axioms)
  have ord: "ordered (d_ed25519 ref_node) (d_payload ref_node) (fst ref_start) ?es"
    by (simp add: ordered_def)
  have room: "unat (nonce (rt_system (fst ref_start)) a) + length (by_signer a ?es) + 3 < 2 ^ 32" for a
    using ref_nonce_room [of ?es a] by simp
  have subs: "list_all2 (\<lambda>(i, raw) e. i \<in> set [1, 2] \<and> decode (n_ext ref_node) raw = Some e) ?subs ?es"
    by simp
  from synchronous_delivery [OF com ref_met_facts(2) ref_wf(2) _ subs ord room, of "[0]"] ref_met_facts(3) show ?thesis
    by (auto simp: add.commute)
qed

end
