(* ===== verification/Author_Rounds.thy ===== *)
theory Author_Rounds
  imports Progress
begin

text \<open>
  What one author does with what it drained: which part of the block it publishes the runtime
  applies when signatures may be bad (\<open>produce_block\<close> in \<open>src/node.rs\<close> checks none), and what
  becomes of an account's queue over several productions.
\<close>

section \<open>Blocks with bad signatures\<close>

text \<open>
  The second pass of \<open>execute_block\<close> over extrinsics of one signer with consecutive nonces
  \<open>k\<close> above the one that is due: none of them is applied unless \<open>k\<close> is zero, and then those
  before the first bad signature are.
\<close>

lemma applied_until_bad:
  assumes "apply_extrinsics D xs ch = Some ch'" and "consec (nonce (rt_system (fst ch)) a + word_of_nat k) (by_signer a (map fst xs))"
    and "k + length (by_signer a (map fst xs)) < 2 ^ 32" and "\<And>e v. (e, v) \<in> set xs \<Longrightarrow> v = V e"
  shows "by_signer a (applied D xs ch) = (if k = 0 then takeWhile (\<lambda>e. V e = Ok_unit) (by_signer a (map fst xs)) else [])"
  using assms
proof (induction xs arbitrary: ch k)
  case (Cons x xs)
  obtain e v where x: "x = (e, v)" by (cases x)
  have v: "v = V e" using Cons.prems(4) [of e v] by (simp add: x)
  from Cons.prems(1) obtain ch1 where one: "apply_extrinsic D (e, v) ch = Some ch1" and rest: "apply_extrinsics D xs ch1 = Some ch'"
    by (auto simp: x split: option.splits)
  note step = apply_extrinsic_nonce_word [OF one, of a]
  note IH = Cons.IH [OF rest _ _ Cons.prems(4), simplified]
  show ?case
  proof (cases "ext_signer e = a")
    case False
    then show ?thesis
      using IH [of k] Cons.prems(2,3) step one by (auto simp: x)
  next
    case True
    have far: "(word_of_nat k :: u32) \<noteq> 0" if "k \<noteq> 0"
    proof -
      have "unat (word_of_nat k :: u32) = k" using Cons.prems(3) by (simp add: unat_of_nat)
      with that show ?thesis by auto
    qed
    have "admissible (e, v) (fst ch) \<longleftrightarrow> k = 0 \<and> V e = Ok_unit"
      using Cons.prems(2) True far by (auto simp: x v admissible_def)
    moreover have "consec (nonce (rt_system (fst ch)) a + word_of_nat (Suc k)) (by_signer a (map fst xs))"
      using Cons.prems(2) True by (simp add: x algebra_simps)
    ultimately show ?thesis
      using IH [of "if admissible (e, v) (fst ch) then 0 else Suc k"] Cons.prems(3) step one True
      by (auto simp: x algebra_simps)
  qed
qed simp

lemma applied_produced:
  assumes "hash_order_ok ord" and "select_batch oc ord (fst ch) xs = Some batch" and "length (by_signer a xs) < 2 ^ 32"
    and "execute_block D (next_block ch batch) ch = Some (Ok_unit, ch')"
  shows "by_signer a (applied_block D (next_block ch batch) ch) =
      takeWhile (\<lambda>e. verify (d_ed25519 D) (d_payload D) e = Ok_unit) (by_signer a batch)"
    and "nonce_of ch' a = nonce_of ch a + length (by_signer a (applied_block D (next_block ch batch) ch))"
proof -
  let ?b = "next_block ch batch"
  have run: "apply_extrinsics D (results D ?b) (bumped D ch) = Some ch'"
    using assms(4) by (cases rule: execute_block_SomeE) (auto simp: next_block_def)
  have con: "consec (nonce (rt_system (fst (bumped D ch))) a + word_of_nat 0) (by_signer a (map fst (results D ?b)))"
    using select_batch_consec [OF assms(1,2), of a] by (simp add: next_block_def)
  have short: "0 + length (by_signer a (map fst (results D ?b))) < 2 ^ 32"
    using length_by_signer_run [OF assms(1,2), of a] assms(3) by (simp add: next_block_def)
  have ver: "v = verify (d_ed25519 D) (d_payload D) e" if "(e, v) \<in> set (results D ?b)" for e v
    using that by (auto simp: results_alt)
  have "by_signer a (applied D (results D ?b) (bumped D ch)) =
      takeWhile (\<lambda>e. verify (d_ed25519 D) (d_payload D) e = Ok_unit) (by_signer a (map fst (results D ?b)))"
    using applied_until_bad [OF run con short, of "verify (d_ed25519 D) (d_payload D)"] ver by simp
  then show "by_signer a (applied_block D ?b ch) =
      takeWhile (\<lambda>e. verify (d_ed25519 D) (d_payload D) e = Ok_unit) (by_signer a batch)"
    by (simp add: applied_block_def next_block_def)
  show "nonce_of ch' a = nonce_of ch a + length (by_signer a (applied_block D ?b ch))"
    by (rule applied_nonces(1) [OF assms(4) refl])
qed

text \<open>Extrinsics that were applied verify.\<close>

lemma applied_verified: "e \<in> set (applied D xs ch) \<Longrightarrow> (e, Ok_unit) \<in> set xs"
  by (induction xs arbitrary: ch) (auto simp: admissible_def split: option.splits if_splits)

lemma applied_block_verified:
  "e \<in> set (applied_block D b ch) \<Longrightarrow> verify (d_ed25519 D) (d_payload D) e = Ok_unit"
  by (auto simp: applied_block_def results_alt dest!: applied_verified split: if_splits)

section \<open>Several productions in a row\<close>

abbreviation drain_limit :: "ext mempool \<Rightarrow> nat" where
  "drain_limit pool \<equiv> (case block_limit pool of None \<Rightarrow> 10 | Some l \<Rightarrow> l)"

lemma pending_split: "mp_pending pool = drained pool @ mp_pending (rest_pool pool)"
  by (simp add: drained_def rest_pool_def)

lemma drain_limit_rest [simp]: "drain_limit (rest_pool pool) = drain_limit pool"
  by (simp add: rest_pool_def block_limit_def)

text \<open>What the author asks to publish for a block.\<close>

abbreviation block_req :: "('st, 'sk, 'vk) node_deps \<Rightarrow> runtime_block \<Rightarrow> publish_req" where
  "block_req N b \<equiv> \<lparr>pr_topic = n_topic_hash N block_topic, pr_data = encode (n_block N) b\<rparr>"

fun produce_rounds ::
  "('st, 'sk, 'vk) node_deps \<Rightarrow> nat \<Rightarrow> 'st chain \<times> ext mempool \<Rightarrow> ('st chain \<times> ext mempool \<times> publish_req list) option" where
  "produce_rounds N 0 (ch, pool) = Some (ch, pool, [])"
| "produce_rounds N (Suc k) (ch, pool) =
     (case produce_block N (ch, pool) of
        None \<Rightarrow> None
      | Some (ch1, pool1, reqs) \<Rightarrow>
          map_option (\<lambda>(ch2, pool2, later). (ch2, pool2, reqs @ later)) (produce_rounds N k (ch1, pool1)))"

text \<open>One production takes the front of an account's queue that is in order and leaves the rest in order.\<close>

lemma round_in_order:
  assumes hash: "hash_order_ok (n_hash_order N)" and wf: "runtime_wf (fst ch)" and height: "unat (block_number (rt_system (fst ch))) < 2 ^ 32 - 1"
    and room: "\<And>c. nonce_of ch c + length (by_signer c (mp_pending pool)) < 2 ^ 32"
    and con: "consec (nonce (rt_system (fst ch)) a) (by_signer a (mp_pending pool))"
    and ver: "\<And>e. e \<in> set (by_signer a (mp_pending pool)) \<Longrightarrow> verify (d_ed25519 N) (d_payload N) e = Ok_unit"
  obtains ch' b where "produce_block N (ch, pool) = Some (ch', rest_pool pool, [block_req N b])" and "runtime_wf (fst ch')"
    and "unat (block_number (rt_system (fst ch'))) = Suc (unat (block_number (rt_system (fst ch))))"
    and "by_signer a (blk_extrinsics b) = by_signer a (drained pool)"
    and "consec (nonce (rt_system (fst ch')) a) (by_signer a (mp_pending (rest_pool pool)))"
    and "nonce_of ch' a = nonce_of ch a + length (by_signer a (drained pool))"
    and "\<And>c. nonce_of ch' c \<le> nonce_of ch c + length (by_signer c (drained pool))"
proof -
  have split: "by_signer c (mp_pending pool) = by_signer c (drained pool) @ by_signer c (mp_pending (rest_pool pool))" for c
    by (metis by_signer_append pending_split)
  have room': "nonce_of ch c + length (by_signer c (drained pool)) < 2 ^ 32" "length (by_signer c (drained pool)) < 2 ^ 32" for c
    using room [of c] by (simp_all add: split)
  obtain ch' pool' reqs where pb: "produce_block N (ch, pool) = Some (ch', pool', reqs)"
    using produce_block_total [OF hash wf height room'(1)] by blast
  from pb obtain batch where sel: "select_batch (n_overflow_checks N) (n_hash_order N) (fst ch) (drained pool) = Some batch"
    and ex: "execute_block (rt_deps N) (next_block ch batch) ch = Some (Ok_unit, ch')"
    and out: "pool' = rest_pool pool" "reqs = [block_req N (next_block ch batch)]"
    by (rule produce_block_SomeE)
  have con': "consec (nonce (rt_system (fst ch)) a) (by_signer a (drained pool))"
    "consec (nonce (rt_system (fst ch)) a + word_of_nat (length (by_signer a (drained pool)))) (by_signer a (mp_pending (rest_pool pool)))"
    using con by (simp_all add: split consec_append)
  then have "signer_run (n_overflow_checks N) (fst ch) (drained pool) a = Some (by_signer a (drained pool))"
    using room'(1) [of a] by (simp add: signer_run_def consec_sort take_run_all)
  then have batch: "by_signer a batch = by_signer a (drained pool)"
    using select_batch_by_signer [OF hash sel, of a] by simp
  have "takeWhile (\<lambda>e. verify (d_ed25519 N) (d_payload N) e = Ok_unit) (by_signer a (drained pool)) = by_signer a (drained pool)"
    using ver by (simp add: split)
  then have app: "by_signer a (applied_block (rt_deps N) (next_block ch batch) ch) = by_signer a (drained pool)"
    using applied_produced(1) [OF hash sel room'(2) ex, of a] by (simp add: batch deps.truncate_def)
  have le: "nonce_of ch' c \<le> nonce_of ch c + length (by_signer c (drained pool))" for c
    using execute_block_nonce_bound [OF ex, of c] length_by_signer_run [OF hash sel, of c] by (simp add: next_block_def)
  show thesis
    using that [of ch' "next_block ch batch"] pb out execute_block_wf [OF ex wf] execute_block_number [OF ex] batch le con'(2)
      applied_nonces [OF ex refl, of a] app by (simp add: next_block_def)
qed

lemma rounds_in_order:
  assumes "hash_order_ok (n_hash_order N)" and "runtime_wf (fst ch)" and "unat (block_number (rt_system (fst ch))) + k < 2 ^ 32"
    and "\<And>c. nonce_of ch c + length (by_signer c (mp_pending pool)) < 2 ^ 32"
    and "consec (nonce (rt_system (fst ch)) a) (by_signer a (mp_pending pool))"
    and "\<And>e. e \<in> set (by_signer a (mp_pending pool)) \<Longrightarrow> verify (d_ed25519 N) (d_payload N) e = Ok_unit"
    and "length (mp_pending pool) \<le> k * drain_limit pool"
  shows "\<exists>ch' pool' bs. produce_rounds N k (ch, pool) = Some (ch', pool', map (block_req N) bs) \<and>
    by_signer a (concat (map blk_extrinsics bs)) = by_signer a (mp_pending pool) \<and>
    nonce_of ch' a = nonce_of ch a + length (by_signer a (mp_pending pool))"
  using assms(2-)
proof (induction k arbitrary: ch pool)
  case 0
  then show ?case by (simp add: exI [of _ "[]"])
next
  case (Suc k)
  have split: "by_signer c (mp_pending pool) = by_signer c (drained pool) @ by_signer c (mp_pending (rest_pool pool))" for c
    by (metis by_signer_append pending_split)
  have "unat (block_number (rt_system (fst ch))) < 2 ^ 32 - 1" using Suc.prems(2) by simp
  from round_in_order [OF assms(1) Suc.prems(1) this Suc.prems(3-5)] obtain ch1 b where
    one: "produce_block N (ch, pool) = Some (ch1, rest_pool pool, [block_req N b])" and wf: "runtime_wf (fst ch1)"
    and height: "unat (block_number (rt_system (fst ch1))) = Suc (unat (block_number (rt_system (fst ch))))"
    and b: "by_signer a (blk_extrinsics b) = by_signer a (drained pool)"
    and con: "consec (nonce (rt_system (fst ch1)) a) (by_signer a (mp_pending (rest_pool pool)))"
    and n: "nonce_of ch1 a = nonce_of ch a + length (by_signer a (drained pool))"
    and le: "\<And>c. nonce_of ch1 c \<le> nonce_of ch c + length (by_signer c (drained pool))"
    by blast
  have room: "nonce_of ch1 c + length (by_signer c (mp_pending (rest_pool pool))) < 2 ^ 32" for c
    using Suc.prems(3) [of c] le [of c] by (simp add: split)
  have "length (mp_pending (rest_pool pool)) \<le> k * drain_limit (rest_pool pool)"
    using Suc.prems(6) by (simp add: rest_pool_def block_limit_def)
  from Suc.IH [OF wf _ room con _ this] obtain ch2 pool2 bs where
    "produce_rounds N k (ch1, rest_pool pool) = Some (ch2, pool2, map (block_req N) bs)"
    "by_signer a (concat (map blk_extrinsics bs)) = by_signer a (mp_pending (rest_pool pool))"
    "nonce_of ch2 a = nonce_of ch1 a + length (by_signer a (mp_pending (rest_pool pool)))"
    using Suc.prems(2,5) height by (auto simp: split)
  then show ?case
    using one b n by (intro exI [of _ ch2] exI [of _ pool2] exI [of _ "b # bs"]) (simp add: split)
qed

section \<open>The nonce handed out\<close>

text \<open>The nonce the RPC returned continues the account's run of pending extrinsics.\<close>

lemma rpc_nonce_continues:
  assumes "n_hex_decode N hex = Inr bs" and "length bs = 32"
    and con: "consec (nonce (rt_system rt) (account_of bs)) (sort_key ext_nonce (by_signer (account_of bs) (mp_pending pool)))"
    and room: "unat (nonce (rt_system rt) (account_of bs)) + length (by_signer (account_of bs) (mp_pending pool)) + 1 < 2 ^ 32"
    and "nonce_handler N rt pool hex = Some (Inr body)" and "parse_u32 (trim body) = Some (ext_nonce e)"
  shows "ext_nonce e = nonce (rt_system rt) (account_of bs) + word_of_nat (length (by_signer (account_of bs) (mp_pending pool)))"
    and "unat (ext_nonce e) = unat (nonce (rt_system rt) (account_of bs)) + length (by_signer (account_of bs) (mp_pending pool))"
    and "sort_key ext_nonce (by_signer (account_of bs) (mp_pending pool) @ [e]) =
      sort_key ext_nonce (by_signer (account_of bs) (mp_pending pool)) @ [e]"
proof -
  let ?n = "nonce (rt_system rt) (account_of bs)" and ?xs = "by_signer (account_of bs) (mp_pending pool)"
  show k: "ext_nonce e = ?n + word_of_nat (length ?xs)"
    using nonce_handler_value [OF assms(1,2), of rt pool] assms(4-6) by (auto simp: parse_to_string)
  then show uk: "unat (ext_nonce e) = unat ?n + length ?xs"
    using room by (simp add: unat_word_ariths unat_of_nat)
  have "ext_nonce x \<le> ext_nonce e" if "x \<in> set ?xs" for x
    using consec_bound [OF con, of x] that room uk by (simp add: word_le_nat_alt)
  then show "sort_key ext_nonce (?xs @ [e]) = sort_key ext_nonce ?xs @ [e]"
    by (rule sort_key_snoc)
qed

section \<open>Reference queues\<close>

text \<open>A claim that Bob signed in the name of Alice, in the middle of Alice's queue.\<close>

definition ref_forged :: ext where
  "ref_forged = (ref_claim 1)\<lparr>ext_signature := ext_signature (ref_ext Bob 1 (ext_call (ref_claim 1)))\<rparr>"

definition ref_forged_pool :: "ext mempool" where
  "ref_forged_pool = \<lparr>mp_pending = [ref_claim 0, ref_forged, ref_claim 2], mp_max_capacity = None, mp_block_limit = Some 3\<rparr>"

lemma ref_forged_simps [simp]:
  "ext_signer ref_forged = public ref_ed25519 Alice" "ext_nonce ref_forged = 1"
  "verify ref_ed25519 ref_payload ref_forged \<noteq> Ok_unit"
  "drained ref_forged_pool = [ref_claim 0, ref_forged, ref_claim 2]"
proof -
  show "ext_signer ref_forged = public ref_ed25519 Alice" "ext_nonce ref_forged = 1"
    "drained ref_forged_pool = [ref_claim 0, ref_forged, ref_claim 2]"
    by (simp_all add: ref_forged_def ref_forged_pool_def drained_def block_limit_def)
  have "arr64_of (arr32_list x @ bs) \<noteq> arr64_of (arr32_list y @ cs)" if "x \<noteq> y" for x y bs cs
  proof
    assume "arr64_of (arr32_list x @ bs) = arr64_of (arr32_list y @ cs)"
    then have "take 32 (arr64_list (arr64_of (arr32_list x @ bs))) = take 32 (arr64_list (arr64_of (arr32_list y @ cs)))"
      by simp
    then have "arr32_list x = arr32_list y" by (simp add: arr_list_of)
    with that show False by (simp add: arr32_list_inject)
  qed
  then show "verify ref_ed25519 ref_payload ref_forged \<noteq> Ok_unit"
    by (simp add: verify_Ok_iff ref_forged_def ref_ext_def new_signed_def Let_def ref_ed25519_def signing_key_def public_def seed_inject)
qed

text \<open>A claim of Alice in a mempool with the given block limit.\<close>

definition ref_queue :: "nat \<Rightarrow> ext mempool" where
  "ref_queue l = \<lparr>mp_pending = [ref_claim 0], mp_max_capacity = None, mp_block_limit = Some l\<rparr>"

end
