(* ===== verification/Faulty_Network.thy ===== *)
theory Faulty_Network
  imports Network Deployment
begin

text \<open>
  The network of \<open>Network\<close> with nodes whose process dies, at any moment and within any
  write, and is started again on the store it left. The memory of the process is lost: the
  mempool, the channels, the peers. The wire is not.
\<close>

section \<open>Processes that die\<close>

text \<open>
  A process that is killed between two steps, or while it executes a peer's block or its own,
  with only the first \<open>k\<close> writes done (see \<open>Crash\<close>), and starts again, under a new identity
  (\<open>build_swarm\<close> makes one at each start).
\<close>

inductive fault_step ::
  "('st, 'sk, 'vk) node_deps \<Rightarrow> ('st, 'p) node_state \<Rightarrow> ('st, 'p) node_state \<Rightarrow> bool"
  for N :: "('st, 'sk, 'vk) node_deps" where
  killed: "node_start N my_id (snd (ns_chain n)) = Some n' \<Longrightarrow> fault_step N n n'"
| in_peer_block: "ns_rx_blk n = b # bs \<Longrightarrow>
    execute_block (crash_deps (rt_deps N)) b (fst (ns_chain n), (k, snd (ns_chain n))) = Some (r, (rt', (m, s'))) \<Longrightarrow>
    node_start N my_id s' = Some n' \<Longrightarrow> fault_step N n n'"
| in_own_block: "select_batch (n_overflow_checks N) (n_hash_order N) (fst (ns_chain n)) (drained (ns_pool n)) = Some batch \<Longrightarrow>
    execute_block (crash_deps (rt_deps N)) (next_block (ns_chain n) batch) (fst (ns_chain n), (k, snd (ns_chain n))) =
      Some (r, (rt', (m, s'))) \<Longrightarrow>
    node_start N my_id s' = Some n' \<Longrightarrow> fault_step N n n'"

inductive faulty_step ::
  "('p \<Rightarrow> ('st, 'sk, 'vk) node_deps) \<Rightarrow> ('st, 'p::linorder) network \<Rightarrow> ('st, 'p) network \<Rightarrow> bool"
  for N :: "'p \<Rightarrow> ('st, 'sk, 'vk) node_deps" where
  healthy: "net_step N w w' \<Longrightarrow> faulty_step N w w'"
| fault: "fault_step (N i) (net_node w i) n \<Longrightarrow> faulty_step N w (w\<lparr>net_node := (net_node w)(i := n)\<rparr>)"

definition faulty_reach ::
  "('p \<Rightarrow> ('st, 'sk, 'vk) node_deps) \<Rightarrow> ('p \<Rightarrow> 'st) \<Rightarrow> ('st, 'p::linorder) network \<Rightarrow> bool" where
  "faulty_reach N s0 w \<longleftrightarrow> (\<exists>w0. net_reach N s0 w0 \<and> (faulty_step N)\<^sup>*\<^sup>* w0 w)"

text \<open>
  A property of the chain that survives a restart, also one after a torn block, holds in the
  faulty network.
\<close>

locale crash_history = net_history N R
  for N :: "'p::linorder \<Rightarrow> ('st, 'sk, 'vk) node_deps" and R :: "'p \<Rightarrow> ext set \<Rightarrow> 'st chain \<Rightarrow> bool" +
  assumes restart: "R i X (rt, s) \<Longrightarrow>
      maybe_apply_genesis (rt_deps (N i)) (runtime_new (rt_deps (N i)) s, s) = Some ch \<Longrightarrow> R i X ch"
    and crash: "R i X (rt, s) \<Longrightarrow> set (blk_extrinsics b) \<subseteq> X \<Longrightarrow>
      execute_block (crash_deps (rt_deps (N i))) b (rt, (k, s)) = Some (r, (rt', (m, s'))) \<Longrightarrow> \<exists>mid. R i X (mid, s')"
begin

lemma traced_fault:
  assumes "fault_step (N i) n n'" and "held (N i) X n" and "R i X (ns_chain n)"
  shows "held (N i) X n' \<and> R i X (ns_chain n')"
proof -
  obtain rt s my_id where R: "R i X (rt, s)" and start: "node_start (N i) my_id s = Some n'"
    using assms(1)
  proof (cases rule: fault_step.cases)
    case (killed my_id)
    then show thesis using that [of "fst (ns_chain n)" "snd (ns_chain n)"] assms(3) by simp
  next
    case (in_peer_block b bs k r rt' m s' my_id)
    have "set (blk_extrinsics b) \<subseteq> X"
      using assms(2) in_peer_block(1) by (auto simp: held_def)
    then show thesis
      using that crash [of i X "fst (ns_chain n)" "snd (ns_chain n)"] assms(3) in_peer_block by (metis prod.collapse)
  next
    case (in_own_block batch k r rt' m s' my_id)
    have "set (blk_extrinsics (next_block (ns_chain n) batch)) \<subseteq> X"
      using own_block_subset [OF in_own_block(1) assms(2)] by (simp add: next_block_def)
    then show thesis
      using that crash [of i X "fst (ns_chain n)" "snd (ns_chain n)"] assms(3) in_own_block by (metis prod.collapse)
  qed
  show ?thesis
    using restart [OF R node_start_chain [OF start]] node_start_held [OF start] by blast
qed

lemma traced_faulty_step: "faulty_step N w w' \<Longrightarrow> net_traced N R w \<Longrightarrow> net_traced N R w'"
proof (induction rule: faulty_step.induct)
  case (fault i w n)
  then show ?case
    using traced_fault [OF fault(1)] by (intro traced_update) (simp_all add: net_traced_def)
qed (rule traced_step)

lemma traced_faulty_reach:
  assumes "faulty_reach N s0 w"
    and "\<And>i ch. maybe_apply_genesis (rt_deps (N i)) (runtime_new (rt_deps (N i)) (s0 i), s0 i) = Some ch \<Longrightarrow> R i {} ch"
  shows "net_traced N R w"
proof -
  obtain w0 where "net_reach N s0 w0" and steps: "(faulty_step N)\<^sup>*\<^sup>* w0 w"
    using assms(1) by (auto simp: faulty_reach_def)
  then have "net_traced N R w0" using traced_reach assms(2) by blast
  with steps show ?thesis by (induction rule: rtranclp_induct) (auto intro: traced_faulty_step)
qed

end

section \<open>What an account is charged\<close>

definition spend :: "RuntimeCall \<Rightarrow> nat" where
  "spend call = (case call of RC_balances (Call_transfer to amount) \<Rightarrow> unat amount | _ \<Rightarrow> 0)"

text \<open>
  Each nonce that account \<open>a\<close> used since \<open>rt0\<close> stands for one extrinsic of \<open>X\<close> that \<open>a\<close> has
  signed, and \<open>a\<close> has lost at most what these transfer, and \<open>d\<close> less.
\<close>

definition receipts ::
  "('st, 'sk, 'vk) deps \<Rightarrow> ext set \<Rightarrow> AccountId32 \<Rightarrow> nat \<Rightarrow> nat \<Rightarrow> (nat \<Rightarrow> ext) \<Rightarrow> bool" where
  "receipts D X a n0 n f \<longleftrightarrow>
     (\<forall>k. n0 \<le> k \<and> k < n \<longrightarrow>
        f k \<in> X \<and> ext_signer (f k) = a \<and> unat (ext_nonce (f k)) = k \<and>
        verify (d_ed25519 D) (d_payload D) (f k) = Ok_unit)"

definition charged ::
  "('st, 'sk, 'vk) deps \<Rightarrow> ext set \<Rightarrow> runtime \<Rightarrow> AccountId32 \<Rightarrow> nat \<Rightarrow> runtime \<Rightarrow> bool" where
  "charged D X rt0 a d rt \<longleftrightarrow>
     unat (nonce (rt_system rt0) a) \<le> unat (nonce (rt_system rt) a) \<and>
     (\<exists>f. receipts D X a (unat (nonce (rt_system rt0) a)) (unat (nonce (rt_system rt) a)) f \<and>
          unat (balance (rt_balances rt0) a) + d \<le>
          unat (balance (rt_balances rt) a) +
            (\<Sum>k = unat (nonce (rt_system rt0) a)..<unat (nonce (rt_system rt) a). spend (ext_call (f k))))"

lemma charged_mono: "charged D X rt0 a d rt \<Longrightarrow> X \<subseteq> Y \<Longrightarrow> charged D Y rt0 a d rt"
  unfolding charged_def receipts_def by (meson subsetD)

lemma receipts_empty: "receipts D X a n n f"
  by (auto simp: receipts_def)

lemma charged_refl: "charged D X rt a 0 rt"
  by (simp add: charged_def receipts_empty)

text \<open>Losing no more than the promised \<open>d\<close>.\<close>

lemma charged_spend:
  assumes "charged D X rt0 a d rt" and "nonce (rt_system rt') a = nonce (rt_system rt) a"
    and "unat (balance (rt_balances rt) a) \<le> unat (balance (rt_balances rt') a) + d"
  shows "charged D X rt0 a 0 rt'"
proof -
  obtain f where "receipts D X a (unat (nonce (rt_system rt0) a)) (unat (nonce (rt_system rt) a)) f"
    and "unat (balance (rt_balances rt0) a) + d \<le> unat (balance (rt_balances rt) a) +
      (\<Sum>k = unat (nonce (rt_system rt0) a)..<unat (nonce (rt_system rt) a). spend (ext_call (f k)))"
    using assms(1) unfolding charged_def by blast
  then show ?thesis
    using assms unfolding charged_def by (intro conjI exI [of _ f]) auto
qed

lemma charged_inc_nonce:
  assumes "charged D X rt0 a 0 (fst ch)" and "admissible (e, v) (fst ch)" and "e \<in> X"
    and "verify (d_ed25519 D) (d_payload D) e = Ok_unit"
    and "on_system (inc_nonce K ca cu (ext_signer e)) ch = Some ch1"
  shows "charged D X rt0 a (if ext_signer e = a then spend (ext_call e) else 0) (fst ch1)"
proof (cases "ext_signer e = a")
  case False
  then show ?thesis
    using assms(1) inc_nonce_on_system(1,4) [OF assms(5)] by (simp add: charged_def)
next
  case True
  let ?old = "unat (nonce (rt_system rt0) a)" and ?n = "unat (nonce (rt_system (fst ch)) a)"
  obtain f where le: "?old \<le> ?n"
    and f: "receipts D X a ?old ?n f"
    and bal: "unat (balance (rt_balances rt0) a) \<le> unat (balance (rt_balances (fst ch)) a) + (\<Sum>k = ?old..<?n. spend (ext_call (f k)))"
    using assms(1) unfolding charged_def add_0_right by blast
  let ?f = "f(?n := e)"
  have n1: "unat (nonce (rt_system (fst ch1)) a) = Suc ?n"
    using inc_nonce_on_system(4) [OF assms(5), of a] True by simp
  have "receipts D X a ?old (Suc ?n) ?f"
    using f assms(2-4) True by (auto simp: receipts_def admissible_def less_Suc_eq)
  moreover have "(\<Sum>k = ?old..<Suc ?n. spend (ext_call (?f k))) = (\<Sum>k = ?old..<?n. spend (ext_call (f k))) + spend (ext_call e)"
    using le by simp
  ultimately show ?thesis
    unfolding charged_def n1 inc_nonce_on_system(1) [OF assms(5)]
    using le bal True by (intro conjI exI [of _ ?f]) auto
qed

lemma dispatch_charge:
  assumes "runtime_dispatch D caller call ch = Some (r, ch')"
  shows "unat (balance (rt_balances (fst ch)) a) \<le>
    unat (balance (rt_balances (fst ch')) a) + (if caller = a then spend call else 0)"
proof (cases "caller = a")
  case False
  then show ?thesis using dispatch_balance_mono [OF assms] by simp
next
  case True
  show ?thesis
  proof (cases call rule: RuntimeCall_cases)
    case (transfer to amount)
    let ?ps = "(rt_balances (fst ch), snd ch)"
    obtain p s where tr: "Balances_Pallet.transfer (d_kv D) (c_account (d_codecs D)) (c_u128 (d_codecs D))
        caller to amount ?ps = (r, (p, s))" and ch': "ch' = ((fst ch)\<lparr>rt_balances := p\<rparr>, s)"
      using assms transfer by (auto split: prod.splits)
    have "unat (balance (rt_balances (fst ch)) a) \<le> unat (balance p a) + unat amount"
    proof (cases r)
      case (Inl e)
      with tr have "(p, s) = ?ps" by (auto dest: transfer_err_unchanged)
      then show ?thesis by simp
    next
      case (Inr u)
      then have ok: "unat amount \<le> unat (balance (rt_balances (fst ch)) caller)"
        "unat (balance (rt_balances (fst ch)) to) + unat amount < 2 ^ 128"
        using tr transfer_ok_iff [of "d_kv D" "c_account (d_codecs D)" "c_u128 (d_codecs D)" caller to amount ?ps] by simp_all
      have "unat (balance (rt_balances (fst ch)) to + amount) = unat (balance (rt_balances (fst ch)) to) + unat amount"
        using ok(2) by (simp add: unat_word_ariths)
      moreover have "unat (balance (rt_balances (fst ch)) caller - amount) + unat amount = unat (balance (rt_balances (fst ch)) caller)"
        using ok(1) by (simp add: unat_sub word_le_nat_alt)
      ultimately show ?thesis
        using transfer_ok_balance [OF tr [unfolded Inr], of a] True by simp
    qed
    then show ?thesis by (simp add: transfer ch' spend_def True)
  qed (use assms in \<open>auto simp: spend_def split: prod.splits\<close>)
qed

lemma charged_dispatch:
  assumes "charged D X rt0 a (if caller = a then spend call else 0) (fst ch)"
    and "runtime_dispatch D' caller call ch = Some (r, ch')"
  shows "charged D X rt0 a 0 (fst ch')"
proof -
  have "rt_system (fst ch') = rt_system (fst ch)"
    using assms(2) by (rule runtime_dispatch_system)
  then show ?thesis
    using charged_spend [OF assms(1)] dispatch_charge [OF assms(2), of a] by simp
qed

lemma charged_apply:
  assumes "charged D X rt0 a 0 (fst ch)" and "apply_extrinsic D' (e, v) ch = Some ch'" and "e \<in> X"
    and "v = Ok_unit \<Longrightarrow> verify (d_ed25519 D) (d_payload D) e = Ok_unit"
  shows "charged D X rt0 a 0 (fst ch')"
proof (cases "admissible (e, v) (fst ch)")
  case True
  then obtain ch1 r where
    inc: "on_system (inc_nonce (d_kv D') (c_account (d_codecs D')) (c_u32 (d_codecs D')) (ext_signer e)) ch = Some ch1"
    and dis: "runtime_dispatch D' (ext_signer e) (ext_call e) ch1 = Some (r, ch')"
    using assms(2) by (auto simp: apply_extrinsic_admissible split: option.splits)
  have "verify (d_ed25519 D) (d_payload D) e = Ok_unit"
    using True assms(4) by (simp add: admissible_def)
  from charged_inc_nonce [OF assms(1) True assms(3) this inc] dis show ?thesis
    by (rule charged_dispatch)
qed (use assms in \<open>simp add: apply_extrinsic_skip\<close>)

text \<open>Where the claims of \<open>rt\<close> come from.\<close>

definition claims_asked :: "('st, 'sk, 'vk) deps \<Rightarrow> ext set \<Rightarrow> runtime \<Rightarrow> runtime \<Rightarrow> bool" where
  "claims_asked D X rt0 rt \<longleftrightarrow>
     (\<forall>c a. get_claim (rt_poe rt) c = Some a \<longrightarrow>
        get_claim (rt_poe rt0) c = Some a \<or>
        (\<exists>e \<in> X. ext_signer e = a \<and> ext_call e = RC_proof_of_existence (Call_create_claim c) \<and>
           verify (d_ed25519 D) (d_payload D) e = Ok_unit))"

lemma claims_asked_mono: "claims_asked D X rt0 rt \<Longrightarrow> X \<subseteq> Y \<Longrightarrow> claims_asked D Y rt0 rt"
  unfolding claims_asked_def by blast

lemma claims_asked_apply:
  assumes "claims_asked D X rt0 (fst ch)" and "apply_extrinsic D' (e, v) ch = Some ch'" and "e \<in> X"
    and "v = Ok_unit \<Longrightarrow> verify (d_ed25519 D) (d_payload D) e = Ok_unit" and "runtime_wf (fst ch)"
  shows "claims_asked D X rt0 (fst ch')"
proof (cases "admissible (e, v) (fst ch)")
  case True
  then obtain c r where "runtime_dispatch D' (ext_signer e) (ext_call e) c = Some (r, ch')"
    and "rt_poe (fst c) = rt_poe (fst ch)" and "runtime_wf (fst c)"
    using apply_extrinsic_runE [OF assms(2) True] assms(5) by blast
  moreover have "verify (d_ed25519 D) (d_payload D) e = Ok_unit"
    using True assms(4) by (simp add: admissible_def)
  ultimately show ?thesis
    using assms(1,3) dispatch_claim_origin unfolding claims_asked_def runtime_wf_def by metis
qed (use assms in \<open>simp add: apply_extrinsic_skip\<close>)

text \<open>Both properties of a runtime, and how blocks, whole or torn, keep them.\<close>

definition accounted :: "('st, 'sk, 'vk) deps \<Rightarrow> ext set \<Rightarrow> runtime \<Rightarrow> runtime \<Rightarrow> bool" where
  "accounted D X rt0 rt \<longleftrightarrow> (\<forall>a. charged D X rt0 a 0 rt) \<and> claims_asked D X rt0 rt"

lemma accounted_refl: "accounted D X rt rt"
  by (simp add: accounted_def charged_refl claims_asked_def)

lemma accounted_mono: "accounted D X rt0 rt \<Longrightarrow> X \<subseteq> Y \<Longrightarrow> accounted D Y rt0 rt"
  unfolding accounted_def by (blast intro: charged_mono claims_asked_mono)

lemma accounted_bumped [simp]: "accounted D X rt0 (fst (bumped D' ch)) = accounted D X rt0 (fst ch)"
  by (simp add: accounted_def charged_def claims_asked_def)

lemma accounted_restart:
  assumes "accounted D X rt0 rt" and "nonce (rt_system rt') = nonce (rt_system rt)"
    and "rt_balances rt' = rt_balances rt" and "get_claim (rt_poe rt') \<subseteq>\<^sub>m get_claim (rt_poe rt)"
  shows "accounted D X rt0 rt'"
proof -
  have "get_claim (rt_poe rt) c = Some a" if "get_claim (rt_poe rt') c = Some a" for c a
    using assms(4) that by (auto simp: map_le_def dom_def)
  then show ?thesis
    using assms(1-3) unfolding accounted_def charged_def claims_asked_def by auto
qed

lemma accounted_apply:
  assumes "accounted D X rt0 (fst ch)" and "apply_extrinsic D' (e, v) ch = Some ch'" and "e \<in> X"
    and "v = Ok_unit \<Longrightarrow> verify (d_ed25519 D) (d_payload D) e = Ok_unit" and "runtime_wf (fst ch)"
  shows "accounted D X rt0 (fst ch')"
  using assms charged_apply claims_asked_apply unfolding accounted_def by blast

lemma accounted_torn:
  assumes "torn D xs ch rt" and "accounted D X rt0 (fst ch)" and "runtime_wf (fst ch)"
    and "\<And>e v. (e, v) \<in> set xs \<Longrightarrow> e \<in> X \<and> (v = Ok_unit \<longrightarrow> verify (d_ed25519 D) (d_payload D) e = Ok_unit)"
  shows "accounted D X rt0 rt"
  using assms
proof (induction rule: torn.induct)
  case (after_nonce e v ch ch1 xs)
  have ok: "e \<in> X" "verify (d_ed25519 D) (d_payload D) e = Ok_unit"
    using after_nonce.prems(3) [of e v] after_nonce(1) by (auto simp: admissible_def)
  have "charged D X rt0 a (if ext_signer e = a then spend (ext_call e) else 0) (fst ch1)" for a
    using after_nonce(1,2) after_nonce.prems(1) ok by (intro charged_inc_nonce) (auto simp: accounted_def)
  then have "charged D X rt0 a 0 (fst ch1)" for a
    by (rule charged_spend) simp_all
  then show ?case
    using after_nonce.prems(1) inc_nonce_on_system(2) [OF after_nonce(2)] by (simp add: accounted_def claims_asked_def)
next
  case (after_debit e v ch ch1 to amount xs)
  let ?pay = "set_balance (d_kv D) (c_account (d_codecs D)) (c_u128 (d_codecs D)) (ext_signer e)
      (balance (rt_balances (fst ch1)) (ext_signer e) - amount)"
  have ok: "e \<in> X" "verify (d_ed25519 D) (d_payload D) e = Ok_unit"
    using after_debit.prems(3) [of e v] after_debit(1) by (auto simp: admissible_def)
  have one: "charged D X rt0 a (if ext_signer e = a then spend (ext_call e) else 0) (fst ch1)" for a
    using after_debit(1,2) after_debit.prems(1) ok by (intro charged_inc_nonce) (auto simp: accounted_def)
  have pay: "unat (balance (rt_balances (fst ch1)) (ext_signer e) - amount) + unat amount =
      unat (balance (rt_balances (fst ch1)) (ext_signer e))"
    using after_debit(4) by (simp add: unat_sub word_le_nat_alt)
  have "unat (balance (rt_balances (fst ch1)) a) \<le>
      unat (balance (rt_balances (fst (on_balances ?pay ch1))) a) + (if ext_signer e = a then spend (ext_call e) else 0)" for a
    using pay by (cases "ext_signer e = a") (auto simp: on_balances_alt spend_def after_debit(3))
  then have "charged D X rt0 a 0 (fst (on_balances ?pay ch1))" for a
    by (intro charged_spend [OF one]) (simp_all add: on_balances_alt)
  then show ?case
    using after_debit.prems(1) inc_nonce_on_system(2) [OF after_debit(2)]
    by (simp add: accounted_def claims_asked_def on_balances_alt)
next
  case (later x ch ch' xs rt)
  obtain e v where x: "x = (e, v)" by (cases x)
  have "accounted D X rt0 (fst ch')"
    by (rule accounted_apply [OF later.prems(1) later(1) [unfolded x] _ _ later.prems(2)])
      (use later.prems(3) [of e v] in \<open>auto simp: x\<close>)
  then show ?case
    using later.prems(3) apply_extrinsic_wf [OF later(1) [unfolded x] later.prems(2)] by (intro later.IH) auto
qed

lemma accounted_apply_all:
  assumes "apply_extrinsics D' xs ch = Some ch'" and "accounted D X rt0 (fst ch)" and "runtime_wf (fst ch)"
    and "\<And>e v. (e, v) \<in> set xs \<Longrightarrow> e \<in> X \<and> (v = Ok_unit \<longrightarrow> verify (d_ed25519 D) (d_payload D) e = Ok_unit)"
  shows "accounted D X rt0 (fst ch')"
  using assms
proof (induction xs arbitrary: ch)
  case (Cons x xs)
  obtain e v where x: "x = (e, v)" by (cases x)
  obtain ch1 where one: "apply_extrinsic D' (e, v) ch = Some ch1" and rest: "apply_extrinsics D' xs ch1 = Some ch'"
    using Cons.prems(1) by (auto simp: x split: option.splits)
  have "accounted D X rt0 (fst ch1)"
    by (rule accounted_apply [OF Cons.prems(2) one _ _ Cons.prems(3)]) (use Cons.prems(4) [of e v] in \<open>auto simp: x\<close>)
  then show ?case
    using Cons.prems(4) apply_extrinsic_wf [OF one Cons.prems(3)] by (intro Cons.IH [OF rest]) auto
qed simp

lemma accounted_block:
  assumes "execute_block D b ch = Some (r, ch')" and "accounted D X rt0 (fst ch)" and "runtime_wf (fst ch)"
    and "set (blk_extrinsics b) \<subseteq> X"
  shows "accounted D X rt0 (fst ch')"
  using assms(1)
proof (cases rule: execute_block_SomeE)
  case run
  then show ?thesis
    using assms(2-4) by (intro accounted_apply_all [OF run(3)]) (auto simp: results_alt)
qed (use assms in simp)

section \<open>No signed transfer is charged twice\<close>

definition durable ::
  "('st, 'sk, 'vk) deps \<Rightarrow> ('st \<Rightarrow> bool) \<Rightarrow> runtime \<Rightarrow> ext set \<Rightarrow> 'st chain \<Rightarrow> bool" where
  "durable D I rt0 X ch \<longleftrightarrow>
     chain_synced D I ch \<and> block_number (rt_system (fst ch)) \<noteq> 0 \<and> accounted D X rt0 (fst ch)"

lemma durable_execute:
  assumes "runtime_host D I" and "durable D I rt0 X ch" and "execute_block D b ch = Some (r, ch')"
    and "set (blk_extrinsics b) \<subseteq> X"
  shows "durable D I rt0 X ch'"
  using runtime_host.synced_execute_block [OF assms(1) _ assms(3)] execute_block_nonzero [OF assms(3)]
    accounted_block [OF assms(3) _ _ assms(4)] chain_synced_wf assms(2)
  unfolding durable_def by blast

lemma durable_restart:
  assumes "runtime_host D I" and "durable D I rt0 X (rt, s)"
    and "maybe_apply_genesis D (runtime_new D s, s) = Some ch"
  shows "durable D I rt0 X ch"
proof -
  have synced: "chain_synced D I (rt, s)"
    using assms(2) by (simp add: durable_def)
  note same = runtime_host.restart_exact [OF assms(1) synced]
  have "ch = (runtime_new D s, s)"
    using assms(2,3) same(1) by (simp add: maybe_apply_genesis_def durable_def)
  then show ?thesis
    using assms(2) same runtime_host.synced_restart [OF assms(1) synced] accounted_restart
    unfolding durable_def by fastforce
qed

lemma durable_crash:
  assumes "runtime_host D I" and "durable D I rt0 X (rt, s)" and "set (blk_extrinsics b) \<subseteq> X"
    and "execute_block (crash_deps D) b (rt, (k, s)) = Some (r, (rt', (m, s')))"
  shows "\<exists>mid. durable D I rt0 X (mid, s')"
proof -
  have synced: "chain_synced D I (rt, s)" and acc: "accounted D X rt0 rt" and nz: "block_number (rt_system rt) \<noteq> 0"
    using assms(2) by (simp_all add: durable_def)
  have bump: "block_number (rt_system rt) + 1 \<noteq> 0"
    using execute_block_nonzero [OF assms(4)] author_number [OF assms(4)] by simp
  obtain mid where mid: "if k = 0 then mid = rt else torn D (results D b) (bumped D (rt, s)) mid"
    and sync: "chain_synced D I (mid, s')"
    using runtime_host.execute_block_crash [OF assms(1) synced assms(4)] by blast
  have "accounted D X rt0 mid \<and> block_number (rt_system mid) \<noteq> 0"
  proof (cases "k = 0")
    case False
    then have torn: "torn D (results D b) (bumped D (rt, s)) mid" using mid by simp
    have "accounted D X rt0 mid"
      using acc chain_synced_wf [OF synced] assms(3) by (intro accounted_torn [OF torn]) (auto simp: results_alt)
    with torn_number [OF torn] bump show ?thesis by simp
  qed (use mid acc nz in simp)
  with sync show ?thesis by (auto simp: durable_def)
qed

lemma durable_history:
  assumes "same_wire N" and "\<And>i. runtime_host (rt_deps (N i)) (I i)"
  shows "crash_history N (\<lambda>i. durable (rt_deps (N i)) (I i) (rt0 i))"
proof
  show "same_wire N" by (fact assms(1))
  show "durable (rt_deps (N i)) (I i) (rt0 i) Y ch" if "durable (rt_deps (N i)) (I i) (rt0 i) X ch" and "X \<subseteq> Y" for i X Y ch
    using that accounted_mono unfolding durable_def by blast
  show "durable (rt_deps (N i)) (I i) (rt0 i) X ch'"
    if "durable (rt_deps (N i)) (I i) (rt0 i) X ch" and "execute_block (rt_deps (N i)) b ch = Some (r, ch')"
      and "set (blk_extrinsics b) \<subseteq> X" for i X ch b r ch'
    using assms(2) that by (rule durable_execute)
  show "durable (rt_deps (N i)) (I i) (rt0 i) X ch"
    if "durable (rt_deps (N i)) (I i) (rt0 i) X (rt, s)"
      and "maybe_apply_genesis (rt_deps (N i)) (runtime_new (rt_deps (N i)) s, s) = Some ch" for i X rt s ch
    using assms(2) that by (rule durable_restart)
  show "\<exists>mid. durable (rt_deps (N i)) (I i) (rt0 i) X (mid, s')"
    if "durable (rt_deps (N i)) (I i) (rt0 i) X (rt, s)" and "set (blk_extrinsics b) \<subseteq> X"
      and "execute_block (crash_deps (rt_deps (N i))) b (rt, (k, s)) = Some (r, (rt', (m, s')))" for i X rt s b k r rt' m s'
    using assms(2) that by (rule durable_crash)
qed

text \<open>So every node of a faulty network is in step with its store, past genesis, and accounted for.\<close>

lemma faulty_durable:
  assumes "same_wire N" and "faulty_reach N s0 w"
    and "\<And>j. runtime_host (rt_deps (N j)) (I j)" and "\<And>j. chain_reach (rt_deps (N j)) (I j) (rt j, s0 j)"
  shows "durable (rt_deps (N i)) (I i) (fst (the (maybe_apply_genesis (rt_deps (N i)) (runtime_new (rt_deps (N i)) (s0 i), s0 i))))
    (net_submitted w) (ns_chain (net_node w i))"
proof -
  let ?rt0 = "\<lambda>j. fst (the (maybe_apply_genesis (rt_deps (N j)) (runtime_new (rt_deps (N j)) (s0 j), s0 j)))"
  have start: "durable (rt_deps (N j)) (I j) (?rt0 j) {} ch"
    if "maybe_apply_genesis (rt_deps (N j)) (runtime_new (rt_deps (N j)) (s0 j), s0 j) = Some ch" for j ch
    using runtime_host.synced_genesis [OF assms(3) runtime_host.synced_restart [OF assms(3)
          runtime_host.reach_synced [OF assms(3,4)]] that] genesis_block_number [OF that]
    by (simp add: durable_def accounted_refl that)
  then show ?thesis
    using crash_history.traced_faulty_reach [OF durable_history [OF assms(1,3)] assms(2) start]
    by (simp add: net_traced_def)
qed

interpretation ref_durable: crash_history "\<lambda>_ :: nat. ref_node" "\<lambda>_. durable ref_deps bt_wf (fst ref_start)"
  using durable_history [OF ref_same_wire, of "\<lambda>_. bt_wf" "\<lambda>_. fst ref_start"] ref_runtime_host by simp

text \<open>C7: No signed transfer is charged twice, whatever fails. In a network whose nodes are killed at
  any moment, within a block after any of its writes, and restarted on what they left on
  disk: each nonce an account has used on a node since its genesis belongs to one extrinsic
  that the account signed and that was handed to some RPC server, and the account has lost
  at most what these extrinsics transfer, each counted once; and no claim is held whose
  owner did not sign its creation.\<close>

theorem charged_once:
  assumes "same_wire N" and "faulty_reach N s0 w"
    and "\<And>j. runtime_host (rt_deps (N j)) (I j)" and "\<And>j. chain_reach (rt_deps (N j)) (I j) (rt j, s0 j)"
    and "maybe_apply_genesis (rt_deps (N i)) (runtime_new (rt_deps (N i)) (s0 i), s0 i) = Some start"
  defines "now \<equiv> ns_chain (net_node w i)"
    and "own \<equiv> \<lambda>a. {e \<in> net_submitted w. ext_signer e = a \<and> verify (d_ed25519 (N i)) (d_payload (N i)) e = Ok_unit}"
  shows "(\<exists>f. (\<forall>k \<in> {nonce_of start a..<nonce_of now a}. f k \<in> own a \<and> unat (ext_nonce (f k)) = k) \<and>
      unat (balance (rt_balances (fst start)) a) \<le>
      unat (balance (rt_balances (fst now)) a) + (\<Sum>k = nonce_of start a..<nonce_of now a. spend (ext_call (f k)))) \<and>
    nonce_of start a \<le> nonce_of now a \<and>
    (get_claim (rt_poe (fst now)) c = Some a \<and> get_claim (rt_poe (fst start)) c \<noteq> Some a \<longrightarrow>
      (\<exists>e \<in> own a. ext_call e = RC_proof_of_existence (Call_create_claim c)))"
proof -
  have "durable (rt_deps (N i)) (I i) (fst (the (maybe_apply_genesis (rt_deps (N i)) (runtime_new (rt_deps (N i)) (s0 i), s0 i))))
      (net_submitted w) now"
    unfolding now_def by (rule faulty_durable [OF assms(1-4)])
  then have acc: "accounted (rt_deps (N i)) (net_submitted w) (fst start) (fst now)"
    by (simp add: durable_def assms(5))
  then have "charged (rt_deps (N i)) (net_submitted w) (fst start) a 0 (fst now)"
    by (simp add: accounted_def)
  then obtain f where f: "receipts (rt_deps (N i)) (net_submitted w) a (nonce_of start a) (nonce_of now a) f"
    and le: "nonce_of start a \<le> nonce_of now a"
    and bal: "unat (balance (rt_balances (fst start)) a) \<le>
      unat (balance (rt_balances (fst now)) a) + (\<Sum>k = nonce_of start a..<nonce_of now a. spend (ext_call (f k)))"
    unfolding charged_def add_0_right by blast
  have "\<forall>k \<in> {nonce_of start a..<nonce_of now a}. f k \<in> own a \<and> unat (ext_nonce (f k)) = k"
    using f by (auto simp: receipts_def own_def)
  moreover have "\<exists>e \<in> own a. ext_call e = RC_proof_of_existence (Call_create_claim c)"
    if "get_claim (rt_poe (fst now)) c = Some a" "get_claim (rt_poe (fst start)) c \<noteq> Some a"
    using acc that unfolding accounted_def claims_asked_def own_def rt_deps_simps by blast
  ultimately show ?thesis using le bal by blast
qed

text \<open>A node that dies between the two writes of its own block's only transfer, and comes back.\<close>

lemma ref_dies_in_transfer:
  obtains n where "fault_step ref_node (ref_queued\<lparr>ns_rx_ext := [], ns_pool := ref_pool\<rparr>) n"
    and "balance (rt_balances (fst (ns_chain n))) (public ref_ed25519 Alice) = 999995"
    and "balance (rt_balances (fst (ns_chain n))) (public ref_ed25519 Bob) = 1000000"
proof -
  let ?e = "ref_ext Alice 0 (RC_balances (Call_transfer (public ref_ed25519 Bob) 5))"
  let ?n = "ref_queued\<lparr>ns_rx_ext := [], ns_pool := ref_pool\<rparr>"
  have reach: "chain_reach ref_deps bt_wf (fst ref_start, snd ref_start)"
    using ref_start_reach by simp
  have chain: "ns_chain ?n = ref_start"
    by (simp add: ref_queued_def ref_state_def)
  have block: "next_block ref_start [?e] = \<lparr>blk_header = \<lparr>hd_block_number = block_number (rt_system (fst ref_start)) + 1\<rparr>, blk_extrinsics = [?e]\<rparr>"
    by (simp add: next_block_def)
  obtain rt' m s' where run: "execute_block (crash_deps ref_deps) (next_block ref_start [?e]) (fst ref_start, (3, snd ref_start)) =
      Some (Ok_unit, (rt', (m, s')))"
    and bal: "balance (rt_balances (runtime_new ref_deps s')) (public ref_ed25519 Alice) = 999995"
      "balance (rt_balances (runtime_new ref_deps s')) (public ref_ed25519 Bob) = 1000000"
    unfolding block
    using crash_burns_amount [OF ref_runtime_host reach, of ?e "public ref_ed25519 Bob" 5] by auto
  obtain mid where "durable ref_deps bt_wf (fst ref_start) {?e} (mid, s')"
    using durable_crash [OF ref_runtime_host _ _ run, of "fst ref_start" "{?e}"] ref.reach_synced [OF ref_start_reach]
    by (auto simp: durable_def accounted_refl next_block_def)
  then have "block_number (rt_system (runtime_new ref_deps s')) \<noteq> 0"
    using ref.restart_exact(1) by (auto simp: durable_def)
  then have "maybe_apply_genesis ref_deps (runtime_new ref_deps s', s') = Some (runtime_new ref_deps s', s')"
    by (simp add: maybe_apply_genesis_def)
  then obtain n where start: "node_start ref_node (7 :: nat) s' = Some n" and n: "ns_chain n = (runtime_new ref_deps s', s')"
    by (simp add: node_start_def)
  have "fault_step ref_node ?n n"
    using ref_batch run start by (intro fault_step.in_own_block [where batch = "[?e]" and k = 3]) (simp_all add: chain)
  then show thesis using that n bal by simp
qed

theorem charged_once_witness:
  "\<exists>w :: (mem, nat) network. faulty_reach (\<lambda>_. ref_node) (\<lambda>_. []) w \<and>
     balance (rt_balances (fst (ns_chain (net_node w 1)))) (public ref_ed25519 Alice) = 999995 \<and>
     balance (rt_balances (fst (ns_chain (net_node w 1)))) (public ref_ed25519 Bob) = 1000000 \<and>
     (\<exists>e \<in> net_submitted w. ext_signer e = public ref_ed25519 Alice \<and> verify ref_ed25519 ref_payload e = Ok_unit)"
proof -
  let ?alice = "public ref_ed25519 Alice"
  let ?w = "ref_net\<lparr>net_submitted := {ref_ext Alice 0 (RC_balances (Call_transfer (public ref_ed25519 Bob) 5))}\<rparr>"
  let ?n1 = "ref_queued\<lparr>ns_rx_ext := [], ns_pool := ref_pool\<rparr>"
  obtain n where dies: "fault_step ref_node ?n1 n"
    and bal: "balance (rt_balances (fst (ns_chain n))) ?alice = 999995"
      "balance (rt_balances (fst (ns_chain n))) (public ref_ed25519 Bob) = 1000000"
    by (rule ref_dies_in_transfer)
  let ?w1 = "?w\<lparr>net_node := (net_node ?w)(1 := ?n1)\<rparr>" and ?w2 = "?w\<lparr>net_node := (net_node ?w)(1 := n)\<rparr>"
  have "net_reach (\<lambda>_. ref_node) (\<lambda>_. []) ?w1"
    using net_local_steps [of "\<lambda>_. ref_node" 1] ref_queued_reach ref_takes by blast
  moreover have "faulty_step (\<lambda>_. ref_node) ?w1 ?w2"
    using faulty_step.fault [of "\<lambda>_. ref_node" 1 ?w1 n] dies by simp
  ultimately have reach: "faulty_reach (\<lambda>_. ref_node) (\<lambda>_. []) ?w2"
    unfolding faulty_reach_def by blast
  let ?used = "{nonce_of ref_start ?alice..<nonce_of (ns_chain n) ?alice}"
  let ?own = "{e \<in> net_submitted ?w2. ext_signer e = ?alice \<and> verify ref_ed25519 ref_payload e = Ok_unit}"
  have host: "runtime_host (rt_deps ref_node) bt_wf" and boot: "chain_reach (rt_deps ref_node) bt_wf (runtime_new ref_deps [], [])"
    and gen: "maybe_apply_genesis (rt_deps ref_node) (runtime_new (rt_deps ref_node) [], []) = Some ref_start"
    using ref_runtime_host ref_boot_reach ref_genesis by (simp_all add: ref_boot_def)
  have "\<exists>f. (\<forall>k \<in> ?used. f k \<in> ?own \<and> unat (ext_nonce (f k)) = k) \<and>
      unat (1000000 :: u128) \<le> unat (999995 :: u128) + (\<Sum>k \<in> ?used. spend (ext_call (f k)))"
    using conjunct1 [OF charged_once [OF ref_same_wire reach host boot gen, where i = 1 and a = ?alice]] bal(1) by simp
  then obtain f where f: "\<forall>k \<in> ?used. f k \<in> ?own"
    and sum: "unat (1000000 :: u128) \<le> unat (999995 :: u128) + (\<Sum>k \<in> ?used. spend (ext_call (f k)))"
    by blast
  have "\<exists>e \<in> net_submitted ?w2. ext_signer e = ?alice \<and> verify ref_ed25519 ref_payload e = Ok_unit"
  proof (cases "nonce_of ref_start ?alice < nonce_of (ns_chain n) ?alice")
    case True
    then have "f (nonce_of ref_start ?alice) \<in> ?own" using f by simp
    then show ?thesis by blast
  qed (use sum in simp)
  with reach bal show ?thesis by (intro exI [of _ ?w2]) simp
qed

end
