(* ===== verification/Restarts.thy ===== *)
theory Restarts
  imports Progress Faulty_Network
begin

text \<open>
  A network in step whose nodes are restarted between events, and what that does to the
  agreement: heights, nonces and balances stay the same everywhere, claims need not; and what
  becomes of a node that joins when the others are further.
\<close>

section \<open>The schedule with restarts\<close>

text \<open>
  The process of machine \<open>i\<close> is killed and started again on its store, under a new identifier
  \<open>p\<close>. The others lose a connection and get a new one; the new process connects to all.
\<close>

datatype 'p fault_event = Event "'p sync_event" | Restart 'p 'p

definition sync_restart ::
  "('p \<Rightarrow> ('st, 'sk, 'vk) node_deps) \<Rightarrow> 'p::linorder list \<Rightarrow> 'p \<Rightarrow> 'p \<Rightarrow> ('st, 'p) network \<Rightarrow> ('st, 'p) network option" where
  "sync_restart N ids i p w =
     (let others = filter (\<lambda>j. j \<noteq> i) ids; old = ns_my_id (net_node w i)
      in map_option (\<lambda>n. w\<lparr>net_node :=
             (on_members others (\<lambda>j. on_connected p (on_disconnected old (net_node w j))) (net_node w))
               (i := foldl (\<lambda>n q. on_connected q n) n (map (\<lambda>j. ns_my_id (net_node w j)) others))\<rparr>)
           (node_start (N i) p (snd (ns_chain (net_node w i)))))"

fun fault_run ::
  "('p \<Rightarrow> ('st, 'sk, 'vk) node_deps) \<Rightarrow> 'p::linorder list \<Rightarrow> 'p fault_event list \<Rightarrow> ('st, 'p) network \<Rightarrow> ('st, 'p) network option" where
  "fault_run N ids [] w = Some w"
| "fault_run N ids (ev # evs) w =
     (case (case ev of Event e \<Rightarrow> sync_run N ids [e] w | Restart i p \<Rightarrow> sync_restart N ids i p w) of
        None \<Rightarrow> None
      | Some w' \<Rightarrow> fault_run N ids evs w')"

fun calm :: "'p fault_event list \<Rightarrow> 'p sync_event list" where
  "calm [] = []"
| "calm (Event e # evs) = e # calm evs"
| "calm (Restart i p # evs) = calm evs"

fun restarts :: "'p fault_event list \<Rightarrow> ('p \<times> 'p) list" where
  "restarts [] = []"
| "restarts (Event e # evs) = restarts evs"
| "restarts (Restart i p # evs) = (i, p) # restarts evs"

lemma healthy_steps: "(net_step N)\<^sup>*\<^sup>* w w' \<Longrightarrow> (faulty_step N)\<^sup>*\<^sup>* w w'"
  by (induction rule: rtranclp_induct) (auto intro: rtranclp.rtrancl_into_rtrancl faulty_step.healthy)

lemma faulty_reach_steps: "faulty_reach N s0 w \<Longrightarrow> (faulty_step N)\<^sup>*\<^sup>* w w' \<Longrightarrow> faulty_reach N s0 w'"
  unfolding faulty_reach_def by (meson rtranclp_trans)

section \<open>A restart\<close>

text \<open>One identifier is replaced by another: in the list the new process builds, and in theirs.\<close>

lemma replaced_id:
  fixes f :: "'i \<Rightarrow> 'p::linorder"
  assumes "distinct ids" and "i \<in> set ids" and "inj_on f (set ids)" and "p \<notin> f ` set ids"
  shows "distinct (map (f(i := p)) ids)" and "sort (p # map f (filter (\<lambda>j. j \<noteq> i) ids)) = sort (map (f(i := p)) ids)"
    and "sort (filter (\<lambda>q. q \<noteq> f i) (sort (map f ids)) @ [p]) = sort (map (f(i := p)) ids)"
proof -
  show dist: "distinct (map (f(i := p)) ids)"
    using assms by (auto simp: distinct_map inj_on_def)
  have same: "sort xs = sort (map (f(i := p)) ids)" if "set xs = set (map (f(i := p)) ids)" "distinct xs" for xs
  proof -
    have "mset xs = mset (map (f(i := p)) ids)"
      using that dist by (subst set_eq_iff_mset_eq_distinct [symmetric])
    then show ?thesis by (intro properties_for_sort) simp_all
  qed
  show "sort (p # map f (filter (\<lambda>j. j \<noteq> i) ids)) = sort (map (f(i := p)) ids)"
    using assms by (intro same) (auto simp: distinct_map inj_on_def)
  show "sort (filter (\<lambda>q. q \<noteq> f i) (sort (map f ids)) @ [p]) = sort (map (f(i := p)) ids)"
    using assms by (intro same) (auto simp: distinct_map dest: inj_onD)
qed

text \<open>The others notice: one connection closed, one opened.\<close>

lemma meets_again:
  assumes "old \<noteq> ns_my_id n" and "p \<noteq> ns_my_id n"
  shows "(task_step N)\<^sup>*\<^sup>* n (on_connected p (on_disconnected old n))"
proof -
  have "task_step N n (on_disconnected old n)" using assms(1) by (rule task_step.disconnected)
  moreover have "task_step N (on_disconnected old n) (on_connected p (on_disconnected old n))"
    using assms(2) by (intro task_step.connected) (simp add: on_disconnected_def)
  ultimately show ?thesis by simp
qed

lemma restart_connects:
  assumes "distinct ids" and "i \<in> set ids" and "distinct (peer_ids ids w)" and "p \<notin> set (peer_ids ids w)"
    and peers: "\<And>j. j \<in> set ids \<Longrightarrow> ns_peers (net_node w j) = peer_ids ids w"
    and start: "node_start (N i) p (snd (ns_chain (net_node w i))) = Some n"
  obtains w' where "sync_restart N ids i p w = Some w'" and "(faulty_step N)\<^sup>*\<^sup>* w w'"
    and "set (peer_ids ids w') \<subseteq> insert p (set (peer_ids ids w))" and "distinct (peer_ids ids w')"
    and "net_node w' i = n\<lparr>ns_peers := peer_ids ids w'\<rparr>"
    and "\<And>j. j \<in> set ids \<Longrightarrow> j \<noteq> i \<Longrightarrow> net_node w' j = (net_node w j)\<lparr>ns_peers := peer_ids ids w'\<rparr>"
proof -
  let ?id = "\<lambda>j. ns_my_id (net_node w j)" and ?others = "filter (\<lambda>j. j \<noteq> i) ids"
  let ?peers = "sort (map (?id(i := p)) ids)"
  let ?n = "foldl (\<lambda>n q. on_connected q n) n (map ?id ?others)"
  let ?met = "\<lambda>j. on_connected p (on_disconnected (?id i) (net_node w j))"
  define w1 where "w1 = w\<lparr>net_node := (net_node w)(i := n)\<rparr>"
  define w2 where "w2 = w1\<lparr>net_node := (net_node w1)(i := ?n)\<rparr>"
  define w' where "w' = w2\<lparr>net_node := on_members ?others ?met (net_node w2)\<rparr>"
  have inj: "inj_on ?id (set ids)" and fresh: "p \<notin> ?id ` set ids"
    using assms(3,4) by (simp_all add: peer_ids_facts)
  note replaced = replaced_id [OF assms(1,2) inj fresh]
  have n: "ns_my_id n = p" "ns_peers n = [p]" using node_start_fields [OF start] by simp_all
  have conn: "(task_step (N i))\<^sup>*\<^sup>* n ?n" "?n = n\<lparr>ns_peers := ?peers\<rparr>"
    using connect_steps [of p "map ?id ?others" n "N i"] fresh n replaced(2) by auto
  have "net_node w' i = ?n" by (simp add: w'_def w2_def on_members_def)
  then have node_i: "net_node w' i = n\<lparr>ns_peers := ?peers\<rparr>" using conn(2) by simp
  have node_j: "net_node w' j = (net_node w j)\<lparr>ns_peers := ?peers\<rparr>" if "j \<in> set ids" "j \<noteq> i" for j
    using peers [OF that(1)] that replaced(3) by (simp add: w'_def on_members_def on_connected_def on_disconnected_def peer_ids_def)
  have ids': "peer_ids ids w' = ?peers"
    unfolding peer_ids_def using node_i node_j n(1) by (intro arg_cong [where f = sort] map_cong) auto
  have "faulty_step N w w1"
    unfolding w1_def by (intro faulty_step.fault fault_step.killed [OF start])
  moreover have "(net_step N)\<^sup>*\<^sup>* w1 w2"
    unfolding w2_def by (rule net_tasks) (simp add: w1_def conn(1))
  moreover have "(task_step (N j))\<^sup>*\<^sup>* (net_node w2 j) (?met j)" if "j \<in> set ?others" for j
    using that assms(2) inj fresh by (auto simp: w2_def w1_def intro!: meets_again dest: inj_onD)
  then have "(net_step N)\<^sup>*\<^sup>* w2 w'"
    unfolding w'_def using assms(1) by (intro net_members net_tasks) simp_all
  ultimately have "(faulty_step N)\<^sup>*\<^sup>* w w'"
    by (meson converse_rtranclp_into_rtranclp healthy_steps rtranclp_trans)
  moreover have "on_members ?others ?met (net_node w2) = (on_members ?others ?met (net_node w))(i := ?n)"
    by (auto simp: on_members_def w2_def w1_def fun_eq_iff)
  then have "sync_restart N ids i p w = Some w'"
    by (simp add: sync_restart_def Let_def start w'_def w2_def w1_def)
  moreover have "distinct ?peers" using replaced(1) by simp
  moreover have "set ?peers \<subseteq> insert p (set (peer_ids ids w))" by (auto simp: peer_ids_facts(2))
  ultimately show thesis
    using that [of w'] node_i node_j unfolding ids' by blast
qed

text \<open>A node that restarts has the heights, nonces and balances it had.\<close>

lemma node_restarts:
  assumes "runtime_host (rt_deps N) I" and "durable (rt_deps N) I rt0 X (rt, s)"
  shows "\<exists>n. node_start N p s = Some n \<and> ns_chain n = (runtime_new (rt_deps N) s, s) \<and> same_core rt (fst (ns_chain n)) \<and> idle n"
proof -
  have synced: "chain_synced (rt_deps N) I (rt, s)" using assms(2) by (simp add: durable_def)
  note same = runtime_host.restart_exact [OF assms(1) synced]
  have "maybe_apply_genesis (rt_deps N) (runtime_new (rt_deps N) s, s) = Some (runtime_new (rt_deps N) s, s)"
    using assms(2) same(1) by (simp add: maybe_apply_genesis_def durable_def)
  moreover have "same_core rt (runtime_new (rt_deps N) s)"
    using same chain_synced_wf [OF synced] by (simp add: same_core_def)
  ultimately show ?thesis
    by (simp add: node_start_def idle_def with_block_limit_def)
qed

lemma restart_in_step:
  assumes "committee N ids" and "in_step same_core ids rt w" and "i \<in> set ids" and "p \<notin> set (peer_ids ids w)"
    and "runtime_host (rt_deps (N i)) I" and "durable (rt_deps (N i)) I rt0 X (ns_chain (net_node w i))"
  obtains w' where "sync_restart N ids i p w = Some w'" and "(faulty_step N)\<^sup>*\<^sup>* w w'" and "in_step same_core ids rt w'"
    and "set (peer_ids ids w') \<subseteq> insert p (set (peer_ids ids w))"
proof -
  have step: "same_core rt (fst (ns_chain (net_node w j))) \<and> ns_peers (net_node w j) = peer_ids ids w \<and> idle (net_node w j)"
    if "j \<in> set ids" for j
    using assms(2) that by (simp add: in_step_def)
  then have peers: "ns_peers (net_node w j) = peer_ids ids w" if "j \<in> set ids" for j
    using that by blast
  have dist: "distinct ids" "distinct (peer_ids ids w)"
    using committee.ids(1) [OF assms(1)] assms(2) by (simp_all add: in_step_def)
  obtain n where start: "node_start (N i) p (snd (ns_chain (net_node w i))) = Some n"
    and core: "same_core (fst (ns_chain (net_node w i))) (fst (ns_chain n))" and idle: "idle n"
    using node_restarts [OF assms(5), of rt0 X "fst (ns_chain (net_node w i))" "snd (ns_chain (net_node w i))" p] assms(6) by auto
  then have core_n: "same_core rt (fst (ns_chain n))"
    using step [OF assms(3)] by (auto simp: same_core_def)
  obtain w' where w': "sync_restart N ids i p w = Some w'" "(faulty_step N)\<^sup>*\<^sup>* w w'"
    "set (peer_ids ids w') \<subseteq> insert p (set (peer_ids ids w))" "distinct (peer_ids ids w')"
    and node: "net_node w' i = n\<lparr>ns_peers := peer_ids ids w'\<rparr>"
      "\<And>j. j \<in> set ids \<Longrightarrow> j \<noteq> i \<Longrightarrow> net_node w' j = (net_node w j)\<lparr>ns_peers := peer_ids ids w'\<rparr>"
    using restart_connects [where ids = ids and w = w and i = i and p = p and N = N and n = n, OF dist(1) assms(3) dist(2) assms(4) peers start] by blast
  have "same_core rt (fst (ns_chain (net_node w' j))) \<and> ns_peers (net_node w' j) = peer_ids ids w' \<and> idle (net_node w' j)"
    if "j \<in> set ids" for j
    using node(2) [OF that] node(1) step [OF that] core_n idle by (cases "j = i") (simp_all add: idle_def)
  with w' that show thesis by (simp add: in_step_def)
qed

text \<open>One event.\<close>

lemma fault_event_in_step:
  assumes "committee N ids" and "\<And>j. runtime_host (rt_deps (N j)) (I j)" and "\<And>j. chain_reach (rt_deps (N j)) (I j) (rt0 j, s0 j)"
    and "faulty_reach N s0 w" and "in_step same_core ids rt w" and "runtime_wf rt"
    and "unat (block_number (rt_system rt)) + slots (calm [ev]) < 2 ^ 32"
    and "\<And>a. unat (nonce (rt_system rt) a) + 3 * slots (calm [ev]) < 2 ^ 32"
    and "submitters (calm [ev]) \<subseteq> set ids" and "fst ` set (restarts [ev]) \<subseteq> set ids"
    and "snd ` set (restarts [ev]) \<inter> set (peer_ids ids w) = {}"
  obtains w' rt' where "fault_run N ids [ev] w = Some w'" and "faulty_reach N s0 w'" and "in_step same_core ids rt' w'"
    and "runtime_wf rt'" and "set (peer_ids ids w') \<subseteq> snd ` set (restarts [ev]) \<union> set (peer_ids ids w)"
    and "unat (block_number (rt_system rt')) = unat (block_number (rt_system rt)) + slots (calm [ev])"
    and "\<And>a. unat (nonce (rt_system rt') a) \<le> unat (nonce (rt_system rt) a) + 3 * slots (calm [ev])"
proof (cases ev)
  case (Event e)
  have small: "unat (block_number (rt_system rt)) + slots [e] < 2 ^ 32" "unat (nonce (rt_system rt) a) + 3 * slots [e] < 2 ^ 32"
    "submitters [e] \<subseteq> set ids" for a
    using assms(7-9) by (simp_all add: Event)
  obtain w1 rt1 where one: "sync_run N ids [e] w = Some w1" "(net_step N)\<^sup>*\<^sup>* w w1" "in_step same_core ids rt1 w1" "runtime_wf rt1"
    "peer_ids ids w1 = peer_ids ids w" "unat (block_number (rt_system rt1)) = unat (block_number (rt_system rt)) + slots [e]"
    "\<And>a. unat (nonce (rt_system rt1) a) \<le> unat (nonce (rt_system rt) a) + 3 * slots [e]"
    by (rule lockstep.event_in_step [OF committee.in_lockstep(2) [OF assms(1)] assms(5,6) small]) blast
  have "fault_run N ids [ev] w = Some w1"
    using one(1) by (simp only: Event fault_run.simps fault_event.case option.case)
  moreover have "faulty_reach N s0 w1"
    using assms(4) healthy_steps [OF one(2)] by (rule faulty_reach_steps)
  ultimately show thesis
    using one(3-7) by (intro that [of w1 rt1]) (simp_all only: Event calm.simps restarts.simps, auto)
next
  case (Restart i p)
  have i: "i \<in> set ids" and p: "p \<notin> set (peer_ids ids w)"
    using assms(10,11) by (auto simp: Restart)
  have "same_wire N" using assms(1) by (simp add: committee_def)
  note durable = faulty_durable [OF this assms(4,2,3)]
  obtain w1 where "sync_restart N ids i p w = Some w1" "(faulty_step N)\<^sup>*\<^sup>* w w1" "in_step same_core ids rt w1"
    "set (peer_ids ids w1) \<subseteq> insert p (set (peer_ids ids w))"
    by (rule restart_in_step [OF assms(1,5) i p assms(2) durable])
  then show thesis
    using assms(6) faulty_reach_steps [OF assms(4)] by (intro that [of w1 rt]) (simp_all add: Restart)
qed

lemma fault_run_in_step:
  assumes "committee N ids" and "\<And>j. runtime_host (rt_deps (N j)) (I j)" and "\<And>j. chain_reach (rt_deps (N j)) (I j) (rt0 j, s0 j)"
    and "faulty_reach N s0 w" and "in_step same_core ids rt w" and "runtime_wf rt"
    and "unat (block_number (rt_system rt)) + slots (calm evs) < 2 ^ 32"
    and "\<And>a. unat (nonce (rt_system rt) a) + 3 * slots (calm evs) < 2 ^ 32"
    and "submitters (calm evs) \<subseteq> set ids" and "fst ` set (restarts evs) \<subseteq> set ids"
    and "distinct (map snd (restarts evs))" and "snd ` set (restarts evs) \<inter> set (peer_ids ids w) = {}"
  shows "\<exists>w' rt'. fault_run N ids evs w = Some w' \<and> faulty_reach N s0 w' \<and> in_step same_core ids rt' w' \<and>
    unat (block_number (rt_system rt')) = unat (block_number (rt_system rt)) + slots (calm evs)"
  using assms(4-)
proof (induction evs arbitrary: rt w)
  case (Cons ev evs)
  have cons: "slots (calm (ev # evs)) = slots (calm [ev]) + slots (calm evs)"
    "submitters (calm (ev # evs)) = submitters (calm [ev]) \<union> submitters (calm evs)"
    "restarts (ev # evs) = restarts [ev] @ restarts evs"
    by (cases ev; simp split: sync_event.splits; cases "case ev of Event e \<Rightarrow> e"; simp)+
  have small: "unat (block_number (rt_system rt)) + slots (calm [ev]) < 2 ^ 32"
    "unat (nonce (rt_system rt) a) + 3 * slots (calm [ev]) < 2 ^ 32" "submitters (calm [ev]) \<subseteq> set ids"
    "fst ` set (restarts [ev]) \<subseteq> set ids" "snd ` set (restarts [ev]) \<inter> set (peer_ids ids w) = {}" for a
    using Cons.prems(4,6,7,9) Cons.prems(5) [of a] by (auto simp add: cons)
  obtain w1 rt1 where one: "fault_run N ids [ev] w = Some w1" and reach: "faulty_reach N s0 w1" "in_step same_core ids rt1 w1" "runtime_wf rt1"
    and peers: "set (peer_ids ids w1) \<subseteq> snd ` set (restarts [ev]) \<union> set (peer_ids ids w)"
    and number: "unat (block_number (rt_system rt1)) = unat (block_number (rt_system rt)) + slots (calm [ev])"
    and nonce: "\<And>a. unat (nonce (rt_system rt1) a) \<le> unat (nonce (rt_system rt) a) + 3 * slots (calm [ev])"
    by (rule fault_event_in_step [OF assms(1-3) Cons.prems(1-3) small]) blast
  have room: "unat (nonce (rt_system rt1) a) + 3 * slots (calm evs) < 2 ^ 32" for a
    using Cons.prems(5) [of a] nonce [of a] by (simp add: cons)
  have late: "snd ` set (restarts [ev]) \<inter> snd ` set (restarts evs) = {}" "distinct (map snd (restarts evs))"
    using Cons.prems(8) by (auto simp: cons)
  have "snd ` set (restarts evs) \<inter> set (peer_ids ids w) = {}"
    using Cons.prems(9) by (auto simp: cons)
  with late(1) peers have fresh: "snd ` set (restarts evs) \<inter> set (peer_ids ids w1) = {}" by blast
  have rest: "unat (block_number (rt_system rt1)) + slots (calm evs) < 2 ^ 32" "submitters (calm evs) \<subseteq> set ids"
    "fst ` set (restarts evs) \<subseteq> set ids"
    using Cons.prems(4,6,7) number by (auto simp: cons)
  have "\<exists>w' rt'. fault_run N ids evs w1 = Some w' \<and> faulty_reach N s0 w' \<and> in_step same_core ids rt' w' \<and>
      unat (block_number (rt_system rt')) = unat (block_number (rt_system rt1)) + slots (calm evs)"
    by (rule Cons.IH [OF reach rest(1) room rest(2,3) late(2) fresh])
  moreover have "fault_run N ids (ev # evs) w = fault_run N ids evs w1"
    using one by (auto split: option.splits)
  ultimately show ?case
    using number cons(1) by (simp only: add.assoc)
qed auto

text \<open>C11: Restarts do not break the agreement on heights, nonces and balances. In a committee whose
  members are killed between events, any number of times, and come back under new
  identifiers on what their stores hold, nobody ever stops, each slot has exactly one block
  that all members accept, and after all events they agree in system and balances, one block
  higher for each slot.\<close>

theorem synchronous_restarts:
  assumes "committee N ids" and "\<And>j. runtime_host (rt_deps (N j)) (I j)" and "\<And>j. chain_reach (rt_deps (N j)) (I j) (rt0 j, s0 j)"
    and "faulty_reach N s0 w" and "in_step same_core ids rt w" and "runtime_wf rt"
    and "unat (block_number (rt_system rt)) + slots (calm evs) < 2 ^ 32"
    and "\<And>a. unat (nonce (rt_system rt) a) + 3 * slots (calm evs) < 2 ^ 32"
    and "submitters (calm evs) \<subseteq> set ids" and "fst ` set (restarts evs) \<subseteq> set ids"
    and "distinct (map snd (restarts evs))" and "snd ` set (restarts evs) \<inter> set (peer_ids ids w) = {}"
  shows "\<exists>w' rt'. fault_run N ids evs w = Some w' \<and> faulty_reach N s0 w' \<and> in_step same_core ids rt' w' \<and>
    unat (block_number (rt_system rt')) = unat (block_number (rt_system rt)) + slots (calm evs) \<and>
    (\<forall>i \<in> set ids. rt_system (fst (ns_chain (net_node w' i))) = rt_system rt' \<and>
      rt_balances (fst (ns_chain (net_node w' i))) = rt_balances rt')"
proof -
  obtain w' rt' where "fault_run N ids evs w = Some w'" "faulty_reach N s0 w'" "in_step same_core ids rt' w'"
    "unat (block_number (rt_system rt')) = unat (block_number (rt_system rt)) + slots (calm evs)"
    using fault_run_in_step [OF assms] by blast
  then show ?thesis by (auto simp: in_step_def same_core_def)
qed

theorem synchronous_restarts_witness:
  "\<exists>w'. fault_run (\<lambda>_. ref_node) [1, 2] [Event (Slot 0), Restart 2 7, Event (Submit 1 (encode ext_codec (ref_claim 0))), Event (Slot 20), Restart 1 9]
       ref_met = Some w' \<and>
     rt_system (fst (ns_chain (net_node w' 1))) = rt_system (fst (ns_chain (net_node w' 2))) \<and>
     unat (block_number (rt_system (fst (ns_chain (net_node w' 1))))) = 3"
proof -
  let ?evs = "[Event (Slot 0), Restart 2 7, Event (Submit 1 (encode ext_codec (ref_claim 0))), Event (Slot 20), Restart 1 9] :: nat fault_event list"
  have com: "committee (\<lambda>_ :: nat. ref_node) [1, 2]" by (fact ref_pair.committee_axioms)
  have reach: "faulty_reach (\<lambda>_. ref_node) (\<lambda>_. []) ref_met"
    unfolding faulty_reach_def using ref_met_facts(1) by blast
  have step: "in_step same_core [1, 2] (fst ref_start) ref_met"
    using ref_met_facts(2) ref_wf(2) by (auto simp: in_step_def same_core_def)
  have "peer_ids [1, 2] ref_met = [1, 2]"
    by (simp add: peer_ids_def ref_met_def met_def ref_net_def on_members_def connect_all_def on_connected_def)
  moreover have "chain_reach (rt_deps ref_node) bt_wf (runtime_new ref_deps [], [])"
    using ref_boot_reach by (simp add: ref_boot_def)
  moreover have "runtime_host (rt_deps ref_node) bt_wf" using ref_runtime_host by simp
  ultimately show ?thesis
    using synchronous_restarts [OF com _ _ reach step ref_wf(2), of "\<lambda>_. bt_wf" "\<lambda>_. runtime_new ref_deps []" ?evs] by auto
qed

section \<open>Claims\<close>

text \<open>A block with one claim whose nonce is due.\<close>

lemma claim_block:
  assumes "runtime_wf (fst ch)" and "unat (block_number (rt_system (fst ch))) < 2 ^ 32 - 1"
    and "verify (d_ed25519 D) (d_payload D) e = Ok_unit" and "ext_nonce e = nonce (rt_system (fst ch)) (ext_signer e)"
    and "ext_call e = RC_proof_of_existence (Call_create_claim claim)" and room: "\<And>a. nonce_of ch a < 2 ^ 32 - 1"
  obtains ch' where "execute_block D (next_block ch [e]) ch = Some (Ok_unit, ch')"
    and "\<And>a. nonce_of ch' a = nonce_of ch a + (if a = ext_signer e then 1 else 0)"
    and "get_claim (rt_poe (fst ch')) claim =
      (case get_claim (rt_poe (fst ch)) claim of None \<Rightarrow> Some (ext_signer e) | Some owner \<Rightarrow> Some owner)"
proof -
  have "nonce_of ch a + length (by_signer a (blk_extrinsics (next_block ch [e]))) < 2 ^ 32" for a
    using room [of a] by (simp add: next_block_def)
  then obtain r ch' where ex: "execute_block D (next_block ch [e]) ch = Some (r, ch')"
    using execute_block_total [OF assms(1,2), of "next_block ch [e]" D] by auto
  have suc: "unat (block_number (rt_system (fst ch)) + 1) = Suc (unat (block_number (rt_system (fst ch))))"
    using assms(2) by (simp add: unat_word_ariths)
  have l: "ledger_of (fst ch') = ledger_call (ext_signer e) (RC_proof_of_existence (Call_create_claim claim))
      ((ledger_of (fst ch))\<lparr>lg_height := Suc (unat (block_number (rt_system (fst ch)))),
         lg_nonce := (lg_nonce (ledger_of (fst ch)))(ext_signer e := Suc (nonce_of ch (ext_signer e)))\<rparr>)"
    using execute_block_refines [OF assms(1) ex] assms(3-5)
    by (simp add: next_block_def ledger_block_def ledger_ext_def verified_def suc Let_def)
  have "lg_nonce (ledger_of (fst ch')) a = nonce_of ch a + (if a = ext_signer e then 1 else 0)" for a
    unfolding l by simp
  moreover have "lg_claim (ledger_of (fst ch')) claim =
      (case get_claim (rt_poe (fst ch)) claim of None \<Rightarrow> Some (ext_signer e) | Some owner \<Rightarrow> Some owner)"
    unfolding l by (simp split: option.splits)
  ultimately show thesis
    using ex execute_next_block [OF ex] that by simp
qed

context runtime_host
begin

text \<open>A claim below one that is held is not there after the next restart.\<close>

lemma claim_lost:
  assumes "chain_synced D inv ch" and "execute_block D (next_block ch [e]) ch = Some (r, ch')"
    and "verify (d_ed25519 D) (d_payload D) e = Ok_unit" and "ext_nonce e = nonce (rt_system (fst ch)) (ext_signer e)"
    and call: "ext_call e = RC_proof_of_existence (Call_create_claim claim)" and free: "get_claim (rt_poe (fst ch)) claim = None"
    and big: "get_claim (rt_poe (fst ch)) big \<noteq> None" "claim < big"
  shows "get_claim (rt_poe (runtime_new D (snd ch'))) claim = None"
proof -
  let ?X = "d_codecs D" and ?ch1 = "bumped D ch"
  have one: "apply_extrinsic D (e, Ok_unit) ?ch1 = Some ch'" and number: "unat (block_number (rt_system (fst ch))) \<noteq> 2 ^ 32 - 1"
    using assms(2,3) by (auto simp: execute_block_alt next_block_def results_alt split: if_splits option.splits)
  have "execute_block D (next_block ch []) ch = Some (Ok_unit, ?ch1)"
    using number by (simp add: execute_block_alt next_block_def results_alt)
  then have synced: "chain_synced D inv ?ch1" using assms(1) by (blast intro: synced_execute_block)
  have "admissible (e, Ok_unit) (fst ?ch1)" using assms(4) by (simp add: admissible_def)
  with one obtain ch2 r2 where inc: "on_system (inc_nonce (d_kv D) (c_account ?X) (c_u32 ?X) (ext_signer e)) ?ch1 = Some ch2"
    and dis: "runtime_dispatch D (ext_signer e) (ext_call e) ch2 = Some (r2, ch')"
    by (auto simp: apply_extrinsic_admissible split: option.splits)
  have poe2: "rt_poe (fst ch2) = rt_poe (fst ch)"
    using inc_nonce_on_system(2) [OF inc] by simp
  have synced2: "chain_synced D inv ch2" using synced inc by (rule synced_inc_nonce)
  then have inv: "inv (snd ch2)" and backed: "poe_backed (d_kv D) (c_content ?X) (c_account ?X) (rt_poe (fst ch2), snd ch2)"
    by (simp_all add: chain_synced_def)
  have wf: "poe_wf (rt_poe (fst ch2))" using backed by (simp add: poe_backed_def)
  obtain p s where create: "create_claim (d_kv D) (c_content ?X) (c_account ?X) (ext_signer e) claim (rt_poe (fst ch2), snd ch2) =
      Some (Ok_unit, (p, s))" and p: "get_claim p = (get_claim (rt_poe (fst ch2)))(claim \<mapsto> ext_signer e)" "poe_wf p"
    by (rule create_claim_fresh [OF wf]) (use free poe2 in auto)
  have ch': "ch' = ((fst ch2)\<lparr>rt_poe := p\<rparr>, s)" using dis create by (simp add: call)
  obtain owner where "get_claim (rt_poe (fst ch)) big = Some owner" using big(1) by blast
  then have held: "bt_get (poe_claims p) big = Some owner" using p(1) poe2 big(2) by auto
  then obtain l where l: "bt_last_key (poe_claims p) = Some l"
    by (cases "poe_claims p") (auto simp: bt_last_key_def bt_get_def simp del: bt_get_poe_claims)
  then have "big \<le> l"
    using p(2) held by (intro bt_last_key_greatest [of "poe_claims p"]) (simp_all add: poe_wf_def)
  then show ?thesis
    using get_claim_restart_create [OF inv _ _ backed create l] big(2) by (simp add: ch' runtime_new_def Let_def)
qed

end

text \<open>C22: A restart can split the network over a claim, and nobody notices. When a claim is created
  below one that is held, the store does not get it. A node that restarts then forgets it;
  when another account claims the same content in the next block, the restarted node enters
  it for the second account while the others keep the first. Every block is accepted
  everywhere, and heights, nonces and balances agree.\<close>

theorem restart_splits_claims:
  assumes "runtime_host D I" and "chain_reach D I ch" and "claim < big" and "get_claim (rt_poe (fst ch)) big \<noteq> None"
    and "get_claim (rt_poe (fst ch)) claim = None" and "ext_signer e \<noteq> ext_signer e'"
    and "\<And>x. x \<in> {e, e'} \<Longrightarrow> ext_call x = RC_proof_of_existence (Call_create_claim claim) \<and>
      ext_nonce x = nonce (rt_system (fst ch)) (ext_signer x) \<and> verify (d_ed25519 D) (d_payload D) x = Ok_unit"
    and "unat (block_number (rt_system (fst ch))) + 2 < 2 ^ 32" and "\<And>a. nonce_of ch a + 2 < 2 ^ 32"
  shows "\<exists>rt s x y. execute_block D (next_block ch [e]) ch = Some (Ok_unit, (rt, s)) \<and>
    execute_block D (next_block (rt, s) [e']) (rt, s) = Some (Ok_unit, x) \<and>
    execute_block D (next_block (rt, s) [e']) (runtime_new D s, s) = Some (Ok_unit, y) \<and>
    rt_system (fst x) = rt_system (fst y) \<and> rt_balances (fst x) = rt_balances (fst y) \<and>
    get_claim (rt_poe (fst x)) claim = Some (ext_signer e) \<and> get_claim (rt_poe (fst y)) claim = Some (ext_signer e')"
proof -
  note synced = runtime_host.reach_synced [OF assms(1,2)]
  have e: "ext_call e = RC_proof_of_existence (Call_create_claim claim)" "ext_nonce e = nonce (rt_system (fst ch)) (ext_signer e)"
      "verify (d_ed25519 D) (d_payload D) e = Ok_unit"
    and e': "ext_call e' = RC_proof_of_existence (Call_create_claim claim)" "ext_nonce e' = nonce (rt_system (fst ch)) (ext_signer e')"
      "verify (d_ed25519 D) (d_payload D) e' = Ok_unit"
    using assms(7) [of e] assms(7) [of e'] by simp_all
  have number: "unat (block_number (rt_system (fst ch))) < 2 ^ 32 - 1" and room: "nonce_of ch a < 2 ^ 32 - 1" for a
    using assms(8) assms(9) [of a] by simp_all
  obtain ch1 where "execute_block D (next_block ch [e]) ch = Some (Ok_unit, ch1)"
    and "\<And>a. nonce_of ch1 a = nonce_of ch a + (if a = ext_signer e then 1 else 0)"
    and "get_claim (rt_poe (fst ch1)) claim = Some (ext_signer e)"
    by (rule claim_block [OF chain_synced_wf [OF synced] number e(3,2,1) room]) (simp add: assms(5))
  then obtain rt s where one: "execute_block D (next_block ch [e]) ch = Some (Ok_unit, (rt, s))"
    and nonce1: "\<And>a. unat (nonce (rt_system rt) a) = nonce_of ch a + (if a = ext_signer e then 1 else 0)"
    and claim1: "get_claim (rt_poe rt) claim = Some (ext_signer e)"
    by (cases ch1) auto
  have synced1: "chain_synced D I (rt, s)"
    using assms(1) synced one by (rule runtime_host.synced_execute_block)
  note exact = runtime_host.restart_exact [OF assms(1) synced1]
    and wf = chain_synced_wf [OF synced1] chain_synced_wf [OF runtime_host.synced_restart [OF assms(1) synced1]]
  have lost: "get_claim (rt_poe (runtime_new D s)) claim = None"
    using runtime_host.claim_lost [OF assms(1) synced one e(3,2,1) assms(5,4,3)] by simp
  have number1: "unat (block_number (rt_system rt)) < 2 ^ 32 - 1"
    using execute_block_number [OF one] assms(8) by simp
  have room1: "unat (nonce (rt_system rt) a) < 2 ^ 32 - 1" for a
    using nonce1 [of a] assms(9) [of a] by (auto split: if_splits)
  have "unat (ext_nonce e') = unat (nonce (rt_system rt) (ext_signer e'))"
    using nonce1 [of "ext_signer e'"] assms(6) e'(2) by simp
  then have nonce': "ext_nonce e' = nonce (rt_system rt) (ext_signer e')" by (rule unsigned_word_eqI)
  obtain x where two: "execute_block D (next_block (rt, s) [e']) (rt, s) = Some (Ok_unit, x)"
    and x: "get_claim (rt_poe (fst x)) claim = Some (ext_signer e)"
    by (rule claim_block [of "(rt, s)" D e' claim]) (use wf(1) number1 e'(1,3) nonce' room1 claim1 in auto)
  obtain y where "execute_block D (next_block (runtime_new D s, s) [e']) (runtime_new D s, s) = Some (Ok_unit, y)"
    and y: "get_claim (rt_poe (fst y)) claim = Some (ext_signer e')"
    by (rule claim_block [of "(runtime_new D s, s)" D e' claim]) (use wf(2) number1 e'(1,3) nonce' room1 lost exact(1) in auto)
  then have three: "execute_block D (next_block (rt, s) [e']) (runtime_new D s, s) = Some (Ok_unit, y)"
    using exact(1) by (simp add: next_block_def)
  have "same_core (fst (rt, s)) (fst (runtime_new D s, s))"
    using exact wf by (simp add: same_core_def)
  then have "same_core (fst x) (fst y)"
    using execute_block_core [of D D "(rt, s)" "(runtime_new D s, s)" "next_block (rt, s) [e']"] two three
    by (simp add: same_crypto_def)
  then show ?thesis
    using one two three x y
    by (intro exI [of _ rt] exI [of _ s] exI [of _ x] exI [of _ y]) (simp add: same_core_def)
qed

theorem restart_splits_claims_witness:
  "\<exists>ch rt s x y. get_claim (rt_poe (fst ch)) ''zebra'' = Some (public ref_ed25519 Charlie) \<and>
    execute_block ref_deps (next_block ch [ref_claim 0]) ch = Some (Ok_unit, (rt, s)) \<and>
    execute_block ref_deps (next_block (rt, s) [ref_ext Bob 0 (RC_proof_of_existence (Call_create_claim ''doc''))]) (rt, s) = Some (Ok_unit, x) \<and>
    execute_block ref_deps (next_block (rt, s) [ref_ext Bob 0 (RC_proof_of_existence (Call_create_claim ''doc''))]) (runtime_new ref_deps s, s) =
      Some (Ok_unit, y) \<and>
    get_claim (rt_poe (fst x)) ''doc'' = Some (public ref_ed25519 Alice) \<and>
    get_claim (rt_poe (fst y)) ''doc'' = Some (public ref_ed25519 Bob)"
proof -
  let ?zebra = "ref_ext Charlie 0 (RC_proof_of_existence (Call_create_claim ''zebra''))"
  obtain ch where ex: "execute_block ref_deps (next_block ref_start [?zebra]) ref_start = Some (Ok_unit, ch)"
    and nonces: "\<And>a. nonce_of ch a = nonce_of ref_start a + (if a = ext_signer ?zebra then 1 else 0)"
    and zebra: "get_claim (rt_poe (fst ch)) ''zebra'' = Some (public ref_ed25519 Charlie)"
    by (rule claim_block [of ref_start ref_deps ?zebra "''zebra''"]) simp_all
  have "get_claim (rt_poe (fst ch)) ''doc'' = None"
  proof -
    have "lg_claim (ledger_of (fst ch)) ''doc'' = None"
      using execute_block_refines [OF ref_wf(2) ex] by (simp add: next_block_def ledger_block_def ledger_ext_def Let_def)
    then show ?thesis by simp
  qed
  moreover have "nonce (rt_system (fst ch)) (public ref_ed25519 k) = 0" if "k \<noteq> Charlie" for k
    using nonces [of "public ref_ed25519 k"] that by (simp add: unat_eq_zero)
  moreover have "chain_reach ref_deps bt_wf ch"
    using ref_start_reach ex by (rule chain_reach.block)
  ultimately have "\<exists>rt s x y. execute_block ref_deps (next_block ch [ref_claim 0]) ch = Some (Ok_unit, (rt, s)) \<and>
      execute_block ref_deps (next_block (rt, s) [ref_ext Bob 0 (RC_proof_of_existence (Call_create_claim ''doc''))]) (rt, s) = Some (Ok_unit, x) \<and>
      execute_block ref_deps (next_block (rt, s) [ref_ext Bob 0 (RC_proof_of_existence (Call_create_claim ''doc''))]) (runtime_new ref_deps s, s) =
        Some (Ok_unit, y) \<and> rt_system (fst x) = rt_system (fst y) \<and> rt_balances (fst x) = rt_balances (fst y) \<and>
      get_claim (rt_poe (fst x)) ''doc'' = Some (ext_signer (ref_claim 0)) \<and>
      get_claim (rt_poe (fst y)) ''doc'' = Some (ext_signer (ref_ext Bob 0 (RC_proof_of_existence (Call_create_claim ''doc''))))"
    by (intro restart_splits_claims [OF ref_runtime_host, of ch "''doc''" "''zebra''"])
      (use nonces execute_block_number [OF ex] zebra in auto)
  then obtain rt s x y where "execute_block ref_deps (next_block ch [ref_claim 0]) ch = Some (Ok_unit, (rt, s))"
    and "execute_block ref_deps (next_block (rt, s) [ref_ext Bob 0 (RC_proof_of_existence (Call_create_claim ''doc''))]) (rt, s) = Some (Ok_unit, x)"
    and "execute_block ref_deps (next_block (rt, s) [ref_ext Bob 0 (RC_proof_of_existence (Call_create_claim ''doc''))]) (runtime_new ref_deps s, s) =
        Some (Ok_unit, y)"
    and "get_claim (rt_poe (fst x)) ''doc'' = Some (public ref_ed25519 Alice)"
    and "get_claim (rt_poe (fst y)) ''doc'' = Some (public ref_ed25519 Bob)"
    unfolding ref_ext_simps by blast
  with zebra show ?thesis
    by (intro exI [of _ ch] exI [of _ rt] exI [of _ s] exI [of _ x] exI [of _ y]) simp
qed

section \<open>A node that joins late\<close>

text \<open>A block with another number than the one due is refused, and counted.\<close>

lemma foreign_block:
  assumes "unat (hd_block_number (blk_header b)) \<noteq> Suc (unat (block_number (rt_system (fst (ns_chain n)))))"
    and "unat (block_number (rt_system (fst (ns_chain n)))) < 2 ^ 32 - 1"
  shows "on_peer_block N b n = Some (n\<lparr>ns_chain := bumped (rt_deps N) (ns_chain n)\<rparr>)"
proof -
  have "unat (block_number (rt_system (fst (ns_chain n))) + 1) = Suc (unat (block_number (rt_system (fst (ns_chain n)))))"
    using assms(2) by (simp add: unat_word_ariths)
  then have "hd_block_number (blk_header b) \<noteq> block_number (rt_system (fst (ns_chain n))) + 1"
    using assms(1) by auto
  then show ?thesis
    using assms(2) by (simp add: on_peer_block_def execute_block_alt Let_def)
qed

text \<open>C23: A node that joins late never catches up. When the blocks of a chain of another height
  reach a node in order, it refuses them all; each adds one to its height, as it does to
  theirs, so the distance stays for ever; and nothing else of the node changes, neither
  nonces, balances and claims nor its mempool.\<close>

theorem late_joiner_stuck:
  assumes "h \<noteq> unat (block_number (rt_system (fst (ns_chain n))))"
    and "map (\<lambda>b. unat (hd_block_number (blk_header b))) bs = [Suc h..<Suc h + length bs]"
    and "unat (block_number (rt_system (fst (ns_chain n)))) + length bs < 2 ^ 32"
  shows "\<exists>n'. handle_blocks N bs n = Some n' \<and>
    unat (block_number (rt_system (fst (ns_chain n')))) = unat (block_number (rt_system (fst (ns_chain n)))) + length bs \<and>
    nonce (rt_system (fst (ns_chain n'))) = nonce (rt_system (fst (ns_chain n))) \<and>
    rt_balances (fst (ns_chain n')) = rt_balances (fst (ns_chain n)) \<and> rt_poe (fst (ns_chain n')) = rt_poe (fst (ns_chain n)) \<and>
    ns_pool n' = ns_pool n"
  using assms
proof (induction bs arbitrary: n h)
  case (Cons b bs)
  let ?n = "(n\<lparr>ns_rx_blk := bs\<rparr>)\<lparr>ns_chain := bumped (rt_deps N) (ns_chain n)\<rparr>"
  have first: "unat (hd_block_number (blk_header b)) = Suc h" and rest: "map (\<lambda>b. unat (hd_block_number (blk_header b))) bs = [Suc (Suc h)..<Suc (Suc h) + length bs]"
    using Cons.prems(2) by (simp_all add: upt_conv_Cons del: upt_Suc)
  have small: "unat (block_number (rt_system (fst (ns_chain n)))) < 2 ^ 32 - 1"
    using Cons.prems(3) by simp
  then have next_number: "unat (block_number (rt_system (fst (ns_chain ?n)))) = Suc (unat (block_number (rt_system (fst (ns_chain n)))))"
    by (simp add: unat_word_ariths)
  have one: "on_peer_block N b (n\<lparr>ns_rx_blk := bs\<rparr>) = Some ?n"
    using Cons.prems(1) first small by (subst foreign_block) simp_all
  have "Suc h \<noteq> unat (block_number (rt_system (fst (ns_chain ?n))))"
    using Cons.prems(1) next_number by simp
  moreover have "unat (block_number (rt_system (fst (ns_chain ?n)))) + length bs < 2 ^ 32"
    using Cons.prems(3) next_number by simp
  ultimately obtain n' where "handle_blocks N bs ?n = Some n'"
    "unat (block_number (rt_system (fst (ns_chain n')))) = unat (block_number (rt_system (fst (ns_chain ?n)))) + length bs \<and>
     nonce (rt_system (fst (ns_chain n'))) = nonce (rt_system (fst (ns_chain ?n))) \<and>
     rt_balances (fst (ns_chain n')) = rt_balances (fst (ns_chain ?n)) \<and> rt_poe (fst (ns_chain n')) = rt_poe (fst (ns_chain ?n)) \<and>
     ns_pool n' = ns_pool ?n"
    using Cons.IH [OF _ rest, of ?n] by blast
  then show ?case
    using one next_number by (intro exI [of _ n']) simp
qed simp

theorem late_joiner_stuck_witness:
  "\<exists>n'. handle_blocks ref_node [ref_block 4 [], ref_block 5 [ref_claim 0]] ref_state = Some n' \<and>
     unat (block_number (rt_system (fst (ns_chain n')))) = 3 \<and> get_claim (rt_poe (fst (ns_chain n'))) ''doc'' = None"
proof -
  have chain: "ns_chain ref_state = ref_start" by (simp add: ref_state_def)
  show ?thesis
    using late_joiner_stuck [of 3 ref_state "[ref_block 4 [], ref_block 5 [ref_claim 0]]" ref_node]
    by (auto simp: chain upt_conv_Cons)
qed

end
