(* ===== verification/End_To_End.thy ===== *)
theory End_To_End
  imports Progress Deployment
begin

text \<open>
  A client, the server it talks to and the network behind that server, in one piece: what
  \<open>submit-transfer\<close> and \<open>submit-claim\<close> do at a node reaches the chain of every node. The parts
  are the contract of the server (\<open>served_node\<close> of \<open>Deployment\<close>) and the progress of a
  committee (\<open>Progress\<close>); what joins them is that the nonce the server computes keeps the
  common queue in order.
\<close>

lemma ordered_snoc:
  assumes "ordered E enc rt P" and "verify E enc e = Ok_unit"
    and "ext_nonce e = nonce (rt_system rt) (ext_signer e) + word_of_nat (length (by_signer (ext_signer e) P))"
  shows "ordered E enc rt (P @ [e])"
  using assms by (auto simp: ordered_def consec_append)

context committee
begin

lemma ordered_everywhere: "ordered (d_ed25519 (N i)) (d_payload (N i)) rt P \<Longrightarrow> ordered (d_ed25519 (N j)) (d_payload (N j)) rt P"
  using crypto [of i j] by (simp add: same_crypto_def)

text \<open>One more extrinsic with the next nonce, at any member, is applied by all after enough slots.\<close>

lemma next_extrinsic_delivered:
  assumes "in_step (=) ids rt w" and "runtime_wf rt" and "m \<in> set ids"
    and "\<And>i. i \<in> set ids \<Longrightarrow> mp_pending (ns_pool (net_node w i)) = P"
    and "ordered (d_ed25519 (N m)) (d_payload (N m)) rt P" and "verify (d_ed25519 (N m)) (d_payload (N m)) e = Ok_unit"
    and "ext_nonce e = nonce (rt_system rt) (ext_signer e) + word_of_nat (length (by_signer (ext_signer e) P))"
    and "decode (n_ext (N m)) raw = Some e"
    and room: "\<And>a. unat (nonce (rt_system rt) a) + length (by_signer a P) + 4 < 2 ^ 32"
    and "unat (block_number (rt_system rt)) + length nows < 2 ^ 32" and "length P < 3 * length nows"
  shows "\<exists>w' rt'. sync_run N ids (Submit m raw # map Slot nows) w = Some w' \<and> in_step (=) ids rt' w' \<and>
    (\<forall>i \<in> set ids. mp_pending (ns_pool (net_node w' i)) = [] \<and>
      (\<exists>bs. run_blocks (rt_deps (N i)) bs (ns_chain (net_node w i)) = Some (ns_chain (net_node w' i)) \<and>
        mset (applied_run (rt_deps (N i)) bs (ns_chain (net_node w i))) = mset (P @ [e])))"
proof -
  obtain w1 where sub: "sync_run N ids [Submit m raw] w = Some w1" and step: "in_step (=) ids rt w1"
    and one: "\<And>i. i \<in> set ids \<Longrightarrow> ns_chain (net_node w1 i) = ns_chain (net_node w i) \<and> mp_pending (ns_pool (net_node w1 i)) = P @ [e]"
    using submits_progress [OF assms(1) _ assms(4), of "[(m, raw)]" "[e]"] assms(3,8) by auto
  have "ordered (d_ed25519 (N m)) (d_payload (N m)) rt (P @ [e])"
    using assms(5-7) by (rule ordered_snoc)
  note ord = ordered_everywhere [OF this]
  have "unat (nonce (rt_system rt) a) + length (by_signer a (P @ [e])) + 3 < 2 ^ 32" for a
  proof -
    have "length (by_signer a (P @ [e])) \<le> Suc (length (by_signer a P))" by simp
    with room [of a] show ?thesis by linarith
  qed
  from slots_progress [OF step assms(2,10) _ ord this] one obtain w' rt' where
    "sync_run N ids (map Slot nows) w1 = Some w'" and "in_step (=) ids rt' w'"
    and "\<forall>i \<in> set ids. mp_pending (ns_pool (net_node w' i)) = drop (3 * length nows) (P @ [e]) \<and>
      (\<exists>bs. run_blocks (rt_deps (N i)) bs (ns_chain (net_node w1 i)) = Some (ns_chain (net_node w' i)) \<and> length bs = length nows \<and>
        mset (applied_run (rt_deps (N i)) bs (ns_chain (net_node w1 i))) = mset (take (3 * length nows) (P @ [e])))"
    by blast
  moreover have "sync_run N ids (Submit m raw # map Slot nows) w = sync_run N ids (map Slot nows) w1"
    using sub by (simp split: option.splits)
  ultimately show ?thesis
    using one assms(11) by (intro exI [of _ w'] exI [of _ rt']) auto
qed

end

text \<open>C10: From the command line to every chain. \<open>submit-transfer\<close> or \<open>submit-claim\<close>, run against
  the server of a member of a committee in step whose common queue is in order, asks for the
  nonce, signs and posts; the server answers 202; and after slots enough for the queue and one
  extrinsic more, all queues are empty and the blocks every member executed since have
  applied the queue and exactly that call of the sender.\<close>

theorem cli_reaches_every_chain:
  fixes S :: "'p::linorder \<Rightarrow> ('st, 'sk, 'vk) server_deps" and m :: 'p
  defines "N \<equiv> \<lambda>i. node_of (S i)" and "A \<equiv> \<lambda>k. public (d_ed25519 (S m)) k"
  assumes "committee N ids" and "in_step (=) ids rt w" and "runtime_wf rt" and "m \<in> set ids"
    and "\<And>i. i \<in> set ids \<Longrightarrow> mp_pending (ns_pool (net_node w i)) = P"
    and "ordered (d_ed25519 (S m)) (d_payload (S m)) rt P"
    and "ed25519_ok (d_ed25519 (S m))" and "codec_ok (n_ext (S m))" and "routes_ok (s_match (S m))"
    and "\<And>bs. n_hex_decode (S m) (hex_of bs) = Inr bs"
    and "\<And>a. unat (nonce (rt_system rt) a) + length (by_signer a P) + 4 < 2 ^ 32"
    and "unat (block_number (rt_system rt)) + length nows < 2 ^ 32" and "length P < 3 * length nows"
    and "from_name from = Some a" and "from_name to = Some b"
    and "(cmd, call) \<in>
      {(submit_transfer (N m) (served_get (S m) (net_node w m) url) from to amount (Some url) db, RC_balances (Call_transfer (A b) amount)),
       (submit_claim (N m) (served_get (S m) (net_node w m) url) from claim (Some url) db, RC_proof_of_existence (Call_create_claim claim))}"
  shows "\<exists>bytes e w' rt'. cmd = Some (Posted (url @ ''/submit'') bytes) \<and>
    serve_rpc (S m) \<lparr>rq_method = POST, rq_path = ''/submit'', rq_body = bytes\<rparr> (net_node w m) =
      Some (Reply 202 [], on_rpc_submit (N m) bytes (net_node w m)) \<and>
    ext_signer e = A a \<and> ext_call e = call \<and>
    sync_run N ids (Submit m bytes # map Slot nows) w = Some w' \<and> in_step (=) ids rt' w' \<and>
    (\<forall>i \<in> set ids. mp_pending (ns_pool (net_node w' i)) = [] \<and>
      (\<exists>bs. run_blocks (rt_deps (N i)) bs (ns_chain (net_node w i)) = Some (ns_chain (net_node w' i)) \<and>
        mset (applied_run (rt_deps (N i)) bs (ns_chain (net_node w i))) = mset (P @ [e])))"
proof -
  have rt: "fst (ns_chain (net_node w m)) = rt"
    using assms(4,6) by (simp add: in_step_def)
  have served: "served_node (S m) (net_node w m)"
    using assms(11,12) assms(13) [THEN add_lessD1] by (simp add: served_node_def rt assms(7) [OF assms(6)])
  let ?e = "signed_by (N m) (usable_nonce (net_node w m)) a call"
  have valid: "verify (d_ed25519 (N m)) (d_payload (N m)) ?e = Ok_unit"
    using assms(9) by (simp add: signed_by_def N_def verify_new_signed)
  have e: "ext_signer ?e = A a" "ext_call ?e = call" "ext_nonce ?e = nonce (rt_system rt) (A a) + word_of_nat (length (by_signer (A a) P))"
    "decode (n_ext (N m)) (encode (n_ext (S m)) ?e) = Some ?e"
    using assms(10) rt assms(7) [OF assms(6)]
    by (simp_all add: signed_by_def N_def A_def usable_nonce_def new_signed_def codec_ok_def public_def Let_def)
  have "cmd = Some (Posted (url @ ''/submit'') (encode (n_ext (S m)) ?e))"
    using assms(18) served_node.served_posts(1) [OF served assms(16,17)] served_node.served_posts(2) [OF served assms(16)]
    by (auto simp: N_def A_def)
  moreover have "serve_rpc (S m) \<lparr>rq_method = POST, rq_path = ''/submit'', rq_body = encode (n_ext (S m)) ?e\<rparr> (net_node w m) =
      Some (Reply 202 [], on_rpc_submit (N m) (encode (n_ext (S m)) ?e) (net_node w m))"
    using serve_submit [OF assms(11), of "encode (n_ext (S m)) ?e" "net_node w m"] e(4) by (simp add: N_def)
  moreover have ord: "ordered (d_ed25519 (N m)) (d_payload (N m)) rt P" using assms(8) by (simp add: N_def)
  have "ext_nonce ?e = nonce (rt_system rt) (ext_signer ?e) + word_of_nat (length (by_signer (ext_signer ?e) P))"
    using e(1,3) by simp
  from committee.next_extrinsic_delivered [OF assms(3-7) ord valid this e(4) assms(13-15)] obtain w' rt' where
    "sync_run N ids (Submit m (encode (n_ext (S m)) ?e) # map Slot nows) w = Some w'" and "in_step (=) ids rt' w'"
    and "\<forall>i \<in> set ids. mp_pending (ns_pool (net_node w' i)) = [] \<and>
      (\<exists>bs. run_blocks (rt_deps (N i)) bs (ns_chain (net_node w i)) = Some (ns_chain (net_node w' i)) \<and>
        mset (applied_run (rt_deps (N i)) bs (ns_chain (net_node w i))) = mset (P @ [?e]))"
    by blast
  ultimately show ?thesis
    using e(1,2) by (intro exI [of _ "encode (n_ext (S m)) ?e"] exI [of _ ?e] exI [of _ w'] exI [of _ rt'] conjI) assumption+
qed

theorem cli_reaches_every_chain_witness:
  "\<exists>bytes e w' bs. submit_claim ref_node (served_get ref_server (net_node ref_met 1) ''http://n'') ''alice'' ''doc'' (Some ''http://n'') None =
      Some (Posted ''http://n/submit'' bytes) \<and>
    sync_run (\<lambda>_. ref_node) [1, 2] [Submit 1 bytes, Slot 0] ref_met = Some w' \<and>
    ext_call e = RC_proof_of_existence (Call_create_claim ''doc'') \<and>
    run_blocks ref_deps bs (ns_chain (net_node ref_met 2)) = Some (ns_chain (net_node w' 2)) \<and>
    applied_run ref_deps bs (ns_chain (net_node ref_met 2)) = [e]"
proof -
  have com: "committee (\<lambda>_ :: nat. node_of ref_server) [1, 2]" using ref_pair.committee_axioms by simp
  have names: "from_name ''alice'' = Some Alice" "from_name ''bob'' = Some Bob"
    by (simp_all add: from_name_def ascii_lower_def Let_def)
  have ord: "ordered (d_ed25519 ref_server) (d_payload ref_server) (fst ref_start) []"
    by (simp add: ordered_def)
  show ?thesis
    using cli_reaches_every_chain [of "\<lambda>_. ref_server" "[1, 2]" "fst ref_start" ref_met 1 "[]" "[0]", OF com ref_met_facts(2) ref_wf(2) _ _ ord _ _ _ _ _ _ _ names,
        of "submit_claim ref_node (served_get ref_server (net_node ref_met 1) ''http://n'') ''alice'' ''doc'' (Some ''http://n'') None"
          "RC_proof_of_existence (Call_create_claim ''doc'')" "''http://n''" 500 None "''doc''"] ref_met_facts(3)
    by auto
qed

end
