(* ===== verification/Macro_Parsing.thy ===== *)
theory Macro_Parsing
  imports Prelude
begin

text \<open>
  The front ends of the two attribute macros: \<open>macros/src/runtime/parse.rs\<close>,
  \<open>macros/src/call/parse.rs\<close>. The input is the part of the syntax tree of the \<open>syn\<close> crate
  that the macros look at; types are token lists. Errors carry their message without the
  span. What is generated from the parsed definitions is in \<open>Macro_Expansion\<close>.
\<close>

section \<open>Syntax trees\<close>

type_synonym ident = string
type_synonym tokens = "string list"

record field =
  f_ident :: "ident option"
  f_ty :: tokens

record item_struct =
  st_ident :: ident
  st_fields :: "field list"

datatype pat = Pat_Ident ident | Pat_Other

datatype fn_arg = Receiver | Typed (arg_pat: pat) (arg_ty: tokens)

record impl_fn =
  fn_ident :: ident
  fn_inputs :: "fn_arg list"

datatype impl_item = Impl_Fn impl_fn | Impl_Other

datatype self_ty = Type_Path "ident list" | Type_Other

datatype item = Item_Struct item_struct | Item_Impl self_ty "impl_item list" | Item_Other

section \<open>\<open>#[macros::runtime]\<close>\<close>

record runtime_def =
  rd_struct :: ident
  rd_pallets :: "(ident \<times> tokens) list"

definition check_system :: "item_struct \<Rightarrow> string + unit" where
  "check_system st =
     (case st_fields st of
        [] \<Rightarrow> Inl ''runtime struct is expected to have fields''
      | f # _ \<Rightarrow>
         (case f_ident f of
            None \<Rightarrow> Inl ''first field is expected to have the name system''
          | Some name \<Rightarrow>
             if name \<noteq> ''system'' then Inl ''first field is expected to be named system'' else Ok_unit))"

fun named_fields :: "field list \<Rightarrow> (ident \<times> tokens) list" where
  "named_fields [] = []"
| "named_fields (f # fs) =
     (case f_ident f of None \<Rightarrow> named_fields fs | Some i \<Rightarrow> (i, f_ty f) # named_fields fs)"

definition runtime_def_try_from :: "item \<Rightarrow> string + runtime_def" where
  "runtime_def_try_from it =
     (case it of
        Item_Struct st \<Rightarrow>
          (case check_system st of
             Inl e \<Rightarrow> Inl e
           | Inr _ \<Rightarrow> Inr \<lparr>rd_struct = st_ident st, rd_pallets = named_fields (drop 1 (st_fields st))\<rparr>)
      | _ \<Rightarrow> Inl ''Invalid runtime, expected item struct'')"

section \<open>\<open>#[macros::call]\<close>\<close>

record call_variant_def =
  cv_name :: ident
  cv_args :: "(ident \<times> tokens) list"

record call_def =
  cd_struct :: ident
  cd_methods :: "call_variant_def list"

text \<open>\<open>parse2\<close> accepts the three tokens and nothing after them.\<close>

definition check_caller_arg :: "pat \<Rightarrow> tokens \<Rightarrow> string + unit" where
  "check_caller_arg p ty =
     (if (case p of Pat_Ident i \<Rightarrow> i \<noteq> ''caller'' \<and> i \<noteq> ''_caller'' | Pat_Other \<Rightarrow> False)
      then Inl ''Invalid name for second parameter: expected `caller: T::AccountId`''
      else if ty \<noteq> [''T'', ''::'', ''AccountId'']
      then Inl ''Invalid type for second parameter: expected `caller: T::AccountId`''
      else Ok_unit)"

text \<open>The loop over the arguments after the first two; a receiver there is \<open>unreachable!\<close>.\<close>

fun parse_args :: "fn_arg list \<Rightarrow> (string + (ident \<times> tokens) list) option" where
  "parse_args [] = Some (Inr [])"
| "parse_args (Receiver # _) = None"
| "parse_args (Typed p ty # as) =
     (case p of
        Pat_Other \<Rightarrow> Some (Inl ''Invalid pallet::call, argument must be ident'')
      | Pat_Ident i \<Rightarrow>
         (case parse_args as of
            None \<Rightarrow> None
          | Some (Inl e) \<Rightarrow> Some (Inl e)
          | Some (Inr args) \<Rightarrow> Some (Inr ((i, ty) # args))))"

definition parse_method :: "impl_fn \<Rightarrow> (string + call_variant_def) option" where
  "parse_method m =
     (case fn_inputs m of
        Receiver # rest \<Rightarrow>
          (case rest of
             Typed p ty # args \<Rightarrow>
               (case check_caller_arg p ty of
                  Inl e \<Rightarrow> Some (Inl e)
                | Inr _ \<Rightarrow>
                   map_option (map_sum id (\<lambda>as. \<lparr>cv_name = fn_ident m, cv_args = as\<rparr>)) (parse_args args))
           | _ \<Rightarrow> Some (Inl ''Invalid call, second argument should be `caller: T::AccountId`''))
      | _ \<Rightarrow> Some (Inl ''Invalid call, first argument must be a variant of self''))"

fun parse_methods :: "impl_item list \<Rightarrow> (string + call_variant_def list) option" where
  "parse_methods [] = Some (Inr [])"
| "parse_methods (Impl_Other # is) = parse_methods is"
| "parse_methods (Impl_Fn m # is) =
     (case parse_method m of
        None \<Rightarrow> None
      | Some (Inl e) \<Rightarrow> Some (Inl e)
      | Some (Inr v) \<Rightarrow> map_option (map_sum id (Cons v)) (parse_methods is))"

definition call_def_try_from :: "item \<Rightarrow> (string + call_def) option" where
  "call_def_try_from it =
     (case it of
        Item_Impl ty items \<Rightarrow>
          (case ty of
             Type_Path (seg # _) \<Rightarrow>
               map_option (map_sum id (\<lambda>ms. \<lparr>cd_struct = seg, cd_methods = ms\<rparr>)) (parse_methods items)
           | _ \<Rightarrow> None)
      | _ \<Rightarrow> Some (Inl ''Invalid pallet::call, expected item impl''))"

section \<open>What is accepted\<close>

text \<open>A function of the shape \<open>fn f(self, caller: T::AccountId, name: type, ...)\<close>.\<close>

definition callable :: "impl_fn \<Rightarrow> (ident \<times> tokens) list \<Rightarrow> bool" where
  "callable m args \<longleftrightarrow>
     (\<exists>p. fn_inputs m = Receiver # Typed p [''T'', ''::'', ''AccountId''] # map (\<lambda>(i, ty). Typed (Pat_Ident i) ty) args \<and>
          p \<in> {Pat_Ident ''caller'', Pat_Ident ''_caller'', Pat_Other})"

lemma parse_args_Inr_iff:
  "parse_args as = Some (Inr args) \<longleftrightarrow> as = map (\<lambda>(i, ty). Typed (Pat_Ident i) ty) args"
proof (induction as arbitrary: args rule: parse_args.induct)
  case (3 p ty as)
  show ?case
  proof (cases p)
    case (Pat_Ident i)
    note IH = 3 [OF Pat_Ident]
    show ?thesis
    proof (cases "\<exists>r. as = map (\<lambda>(i, ty). Typed (Pat_Ident i) ty) r")
      case True
      then obtain r where r: "as = map (\<lambda>(i, ty). Typed (Pat_Ident i) ty) r" by blast
      with IH have "parse_args as = Some (Inr r)" by blast
      with Pat_Ident IH show ?thesis by (cases args) auto
    next
      case False
      with IH Pat_Ident show ?thesis
        by (cases args) (auto split: option.splits sum.splits)
    qed
  next
    case Pat_Other
    then show ?thesis by (cases args) auto
  qed
qed auto

lemma check_caller_arg_Inr_iff:
  "check_caller_arg p ty = Ok_unit \<longleftrightarrow>
   p \<in> {Pat_Ident ''caller'', Pat_Ident ''_caller'', Pat_Other} \<and> ty = [''T'', ''::'', ''AccountId'']"
  by (auto simp: check_caller_arg_def split: pat.splits)

lemma parse_method_Inr_iff:
  "parse_method m = Some (Inr v) \<longleftrightarrow> cv_name v = fn_ident m \<and> callable m (cv_args v)"
proof -
  have v: "v = \<lparr>cv_name = n, cv_args = as\<rparr> \<longleftrightarrow> cv_name v = n \<and> cv_args v = as" for n as
    by (cases v) auto
  have sum: "map_option (map_sum id (\<lambda>as. \<lparr>cv_name = fn_ident m, cv_args = as\<rparr>)) x = Some (Inr v) \<longleftrightarrow>
      cv_name v = fn_ident m \<and> x = Some (Inr (cv_args v))" for x :: "(string + (ident \<times> tokens) list) option"
    by (cases x; cases "the x") (auto simp: v)
  show ?thesis
  proof (cases "\<exists>p ty as. fn_inputs m = Receiver # Typed p ty # as")
    case True
    then obtain p ty as where m: "fn_inputs m = Receiver # Typed p ty # as" by blast
    show ?thesis
    proof (cases "check_caller_arg p ty")
      case (Inl e)
      then show ?thesis
        by (auto simp: parse_method_def m callable_def) (simp_all add: check_caller_arg_def)
    next
      case (Inr u)
      then have ok: "p \<in> {Pat_Ident ''caller'', Pat_Ident ''_caller'', Pat_Other}" "ty = [''T'', ''::'', ''AccountId'']"
        using check_caller_arg_Inr_iff [of p ty] by auto
      have "parse_method m = map_option (map_sum id (\<lambda>as. \<lparr>cv_name = fn_ident m, cv_args = as\<rparr>)) (parse_args as)"
        using Inr by (simp add: parse_method_def m)
      then have "parse_method m = Some (Inr v) \<longleftrightarrow> cv_name v = fn_ident m \<and> parse_args as = Some (Inr (cv_args v))"
        by (simp only: sum)
      then show ?thesis
        using ok by (auto simp: parse_args_Inr_iff callable_def m)
    qed
  next
    case False
    then show ?thesis
      by (auto simp: parse_method_def callable_def split: list.splits fn_arg.splits)
  qed
qed

fun impl_fns :: "impl_item list \<Rightarrow> impl_fn list" where
  "impl_fns [] = []"
| "impl_fns (Impl_Fn m # is) = m # impl_fns is"
| "impl_fns (Impl_Other # is) = impl_fns is"

lemma parse_methods_Inr_iff:
  "parse_methods is = Some (Inr ms) \<longleftrightarrow>
   list_all2 (\<lambda>m v. cv_name v = fn_ident m \<and> callable m (cv_args v)) (impl_fns is) ms"
proof (induction "is" arbitrary: ms rule: parse_methods.induct)
  case (3 m "is")
  show ?case
  proof (cases "\<exists>v. parse_method m = Some (Inr v)")
    case True
    then obtain v where v: "parse_method m = Some (Inr v)" by blast
    have "map_option (map_sum id (Cons v)) x = Some (Inr ms) \<longleftrightarrow> (\<exists>r. ms = v # r \<and> x = Some (Inr r))"
      for x :: "(string + call_variant_def list) option"
      by (cases x; cases "the x") auto
    moreover have "cv_name w = fn_ident m \<and> callable m (cv_args w) \<longleftrightarrow> w = v" for w
      using v by (metis option.inject parse_method_Inr_iff sum.inject(2))
    ultimately show ?thesis
      using 3 [OF v] v by (auto simp: list_all2_Cons1 simp del: map_option_eq_Some)
  next
    case False
    then show ?thesis
      by (auto simp: list_all2_Cons1 parse_method_Inr_iff split: option.splits sum.splits)
  qed
qed (auto)

lemma call_def_Inr_iff:
  "call_def_try_from (Item_Impl (Type_Path (seg # segs)) items) = Some (Inr d) \<longleftrightarrow>
   cd_struct d = seg \<and>
   list_all2 (\<lambda>m v. cv_name v = fn_ident m \<and> callable m (cv_args v)) (impl_fns items) (cd_methods d)"
proof -
  have "d = \<lparr>cd_struct = n, cd_methods = ms\<rparr> \<longleftrightarrow> cd_struct d = n \<and> cd_methods d = ms" for n ms
    by (cases d) auto
  then have "map_option (map_sum id (\<lambda>ms. \<lparr>cd_struct = seg, cd_methods = ms\<rparr>)) x = Some (Inr d) \<longleftrightarrow>
      cd_struct d = seg \<and> x = Some (Inr (cd_methods d))" for x :: "(string + call_variant_def list) option"
    by (cases x; cases "the x") auto
  then show ?thesis
    by (simp add: call_def_try_from_def parse_methods_Inr_iff del: map_option_eq_Some)
qed

section \<open>The inputs of the repository\<close>

text \<open>The struct of \<open>src/lib.rs\<close> and the signatures of the \<open>impl\<close> blocks of the two pallets.\<close>

definition runtime_item :: item where
  "runtime_item = Item_Struct \<lparr>st_ident = ''Runtime'', st_fields =
     [\<lparr>f_ident = Some ''system'', f_ty = [''system'', ''::'', ''Pallet'', ''<'', ''Self'', ''>'']\<rparr>,
      \<lparr>f_ident = Some ''balances'', f_ty = [''balances'', ''::'', ''Pallet'', ''<'', ''Self'', ''>'']\<rparr>,
      \<lparr>f_ident = Some ''proof_of_existence'',
       f_ty = [''proof_of_existence'', ''::'', ''Pallet'', ''<'', ''Self'', ''>'']\<rparr>]\<rparr>"

definition balances_item :: item where
  "balances_item = Item_Impl (Type_Path [''Pallet''])
     [Impl_Fn \<lparr>fn_ident = ''transfer'', fn_inputs =
        [Receiver, Typed (Pat_Ident ''caller'') [''T'', ''::'', ''AccountId''],
         Typed (Pat_Ident ''to'') [''T'', ''::'', ''AccountId''],
         Typed (Pat_Ident ''amount'') [''T'', ''::'', ''Balance'']]\<rparr>]"

definition poe_item :: item where
  "poe_item = Item_Impl (Type_Path [''Pallet''])
     [Impl_Fn \<lparr>fn_ident = ''create_claim'', fn_inputs =
        [Receiver, Typed (Pat_Ident ''caller'') [''T'', ''::'', ''AccountId''],
         Typed (Pat_Ident ''claim'') [''T'', ''::'', ''Content'']]\<rparr>,
      Impl_Fn \<lparr>fn_ident = ''revoke_claim'', fn_inputs =
        [Receiver, Typed (Pat_Ident ''caller'') [''T'', ''::'', ''AccountId''],
         Typed (Pat_Ident ''claim'') [''T'', ''::'', ''Content'']]\<rparr>]"

section \<open>Properties\<close>

text \<open>The runtime macro accepts exactly the structs whose first field is named \<open>system\<close>, and
  takes the remaining named fields, in order, as the pallets: \<open>new\<close> constructs \<open>system\<close> and
  then them, \<open>RuntimeCall\<close> has one variant for each of them.\<close>

lemma runtime_macro_accepts:
  "runtime_def_try_from it = Inr d \<longleftrightarrow>
   (\<exists>st ty fs. it = Item_Struct st \<and> st_fields st = \<lparr>f_ident = Some ''system'', f_ty = ty\<rparr> # fs \<and>
      rd_struct d = st_ident st \<and> rd_pallets d = named_fields fs)"
proof (cases it)
  case (Item_Struct st)
  have d: "d = \<lparr>rd_struct = n, rd_pallets = ps\<rparr> \<longleftrightarrow> rd_struct d = n \<and> rd_pallets d = ps" for n ps
    by (cases d) auto
  have f: "f = \<lparr>f_ident = i, f_ty = ty\<rparr> \<longleftrightarrow> f_ident f = i \<and> f_ty f = ty" for f :: field and i ty
    by (cases f) auto
  show ?thesis
    by (auto simp: Item_Struct runtime_def_try_from_def check_system_def d f eq_commute [of _ d]
        split: list.splits option.splits)
qed (auto simp: runtime_def_try_from_def)

text \<open>C36: The call macro accepts exactly the \<open>impl\<close> blocks all of whose functions are
  \<open>fn f(self, caller: T::AccountId, name: type, ...)\<close>, where the pattern of the caller may
  also be one that is no name, and generates one variant per function, with the arguments
  after the caller.\<close>

theorem call_macro_accepts:
  "call_def_try_from (Item_Impl (Type_Path (seg # segs)) items) = Some (Inr d) \<longleftrightarrow>
   cd_struct d = seg \<and>
   list_all2 (\<lambda>m v. cv_name v = fn_ident m \<and> callable m (cv_args v)) (impl_fns items) (cd_methods d)"
  by (rule call_def_Inr_iff)

end
