(* ===== verification/Macro_Expansion.thy ===== *)
theory Macro_Expansion
  imports Runtime Macro_Parsing
begin

text \<open>
  What the attribute macros generate (\<open>macros/src/call/expand.rs\<close>,
  \<open>macros/src/runtime/expand.rs\<close>) and their entry points. The generated code is the tree
  behind the quoted text: an enum and the arms of a \<open>match\<close>. The text without holes
  (\<open>execute_block\<close>) is modelled in \<open>Runtime\<close>. A small evaluator of such arms gives the
  generated \<open>dispatch\<close> its meaning, and the dispatch of the model is shown to be the one
  generated from the sources of the repository.
\<close>

section \<open>Generated code\<close>

text \<open>An arm \<open>Call::variant { binds } => { self.method(args)?; }\<close>.\<close>

record gen_arm =
  ga_variant :: ident
  ga_binds :: "ident list"
  ga_method :: ident
  ga_args :: "ident list"

record gen_call =
  gc_enum :: "(ident \<times> (ident \<times> tokens) list) list"
  gc_self :: ident
  gc_arms :: "gen_arm list"

definition expand_call :: "call_def \<Rightarrow> gen_call" where
  "expand_call d =
     (let fn_name = map cv_name (cd_methods d);
          args_name = map (\<lambda>m. map fst (cv_args m)) (cd_methods d);
          args_type = map (\<lambda>m. map snd (cv_args m)) (cd_methods d)
      in \<lparr>gc_enum = map2 (\<lambda>f (ns, ts). (f, zip ns ts)) fn_name (zip args_name args_type),
          gc_self = cd_struct d,
          gc_arms = map2 (\<lambda>f ns. \<lparr>ga_variant = f, ga_binds = ns, ga_method = f, ga_args = ''caller'' # ns\<rparr>)
                      fn_name args_name\<rparr>)"

text \<open>
  The constructor calls of \<open>new\<close>, the enum \<open>RuntimeCall\<close>, and the arms
  \<open>RuntimeCall::variant(call) => { self.field.dispatch(caller, call)?; }\<close>.
\<close>

record gen_runtime =
  gr_struct :: ident
  gr_new :: "(ident \<times> tokens) list"
  gr_enum :: "(ident \<times> tokens) list"
  gr_arms :: "(ident \<times> ident) list"

definition expand_runtime :: "runtime_def \<Rightarrow> gen_runtime" where
  "expand_runtime d =
     (let pallet_names = map fst (rd_pallets d);
          pallet_types = map snd (rd_pallets d)
      in \<lparr>gr_struct = rd_struct d,
          gr_new = (''system'', [''system'', ''::'', ''Pallet'', ''::'', ''<'', ''Self'', ''>'']) # zip pallet_names pallet_types,
          gr_enum = map (\<lambda>n. (n, [n, ''::'', ''Call'', ''<'', rd_struct d, ''>''])) pallet_names,
          gr_arms = map (\<lambda>n. (n, n)) pallet_names\<rparr>)"

section \<open>The entry points\<close>

text \<open>
  The output of a macro, piece by piece. \<open>parse\<close> is the parser of \<open>syn\<close>; when it fails,
  \<open>parse_macro_input!\<close> returns the error alone. \<open>None\<close> is a panic of the macro.
\<close>

datatype 'g piece = Source tokens | Compile_Error string | Generated 'g

definition call_macro :: "(tokens \<Rightarrow> string + item) \<Rightarrow> tokens \<Rightarrow> tokens \<Rightarrow> gen_call piece list option" where
  "call_macro parse attr item =
     (case parse item of
        Inl e \<Rightarrow> Some [Compile_Error e]
      | Inr it \<Rightarrow>
         (case call_def_try_from it of
            None \<Rightarrow> None
          | Some (Inr def) \<Rightarrow> Some ([Source item] @ [Generated (expand_call def)])
          | Some (Inl e) \<Rightarrow> Some ([Source item] @ [Compile_Error e])))"

definition runtime_macro :: "(tokens \<Rightarrow> string + item) \<Rightarrow> tokens \<Rightarrow> tokens \<Rightarrow> gen_runtime piece list" where
  "runtime_macro parse attr item =
     (case parse item of
        Inl e \<Rightarrow> [Compile_Error e]
      | Inr it \<Rightarrow>
         (case runtime_def_try_from it of
            Inr def \<Rightarrow> [Source item] @ [Generated (expand_runtime def)]
          | Inl e \<Rightarrow> [Source item] @ [Compile_Error e]))"

text \<open>The attributes as \<open>macros/src/lib.rs\<close> exports them.\<close>

definition call_attribute :: "(tokens \<Rightarrow> string + item) \<Rightarrow> tokens \<Rightarrow> tokens \<Rightarrow> gen_call piece list option" where
  "call_attribute parse attr item = call_macro parse attr item"

definition runtime_attribute :: "(tokens \<Rightarrow> string + item) \<Rightarrow> tokens \<Rightarrow> tokens \<Rightarrow> gen_runtime piece list" where
  "runtime_attribute parse attr item = runtime_macro parse attr item"

section \<open>Meaning of the generated code\<close>

text \<open>
  In an arm the fields are bound over the parameters of \<open>dispatch\<close>. \<open>None\<close> is code that does
  not compile or panics.
\<close>

definition arm_lookup :: "'v \<Rightarrow> (ident \<times> 'v) list \<Rightarrow> ident \<Rightarrow> 'v option" where
  "arm_lookup caller fs x = (case map_of fs x of None \<Rightarrow> if x = ''caller'' then Some caller else None | Some v \<Rightarrow> Some v)"

definition try_unit :: "(dispatch_result \<times> 's) option \<Rightarrow> (dispatch_result \<times> 's) option" where
  "try_unit r =
     (case r of None \<Rightarrow> None | Some (Inl e, s) \<Rightarrow> Some (Inl e, s) | Some (Inr _, s) \<Rightarrow> Some (Ok_unit, s))"

definition run_dispatch ::
  "gen_call \<Rightarrow> (ident \<Rightarrow> 'v list \<Rightarrow> 's \<Rightarrow> (dispatch_result \<times> 's) option) \<Rightarrow> 'v \<Rightarrow> ident \<times> (ident \<times> 'v) list \<Rightarrow> 's \<Rightarrow>
   (dispatch_result \<times> 's) option" where
  "run_dispatch g methods caller call s =
     (case find (\<lambda>a. ga_variant a = fst call) (gc_arms g) of
        None \<Rightarrow> None
      | Some a \<Rightarrow>
         (case those (map (arm_lookup caller (filter (\<lambda>f. fst f \<in> set (ga_binds a)) (snd call))) (ga_args a)) of
            None \<Rightarrow> None
          | Some vs \<Rightarrow> try_unit (methods (ga_method a) vs s)))"

definition run_runtime_dispatch ::
  "gen_runtime \<Rightarrow> (ident \<Rightarrow> 'v \<Rightarrow> 'c \<Rightarrow> 's \<Rightarrow> (dispatch_result \<times> 's) option) \<Rightarrow> 'v \<Rightarrow> ident \<times> 'c \<Rightarrow> 's \<Rightarrow>
   (dispatch_result \<times> 's) option" where
  "run_runtime_dispatch g pallet caller call s =
     (case map_of (gr_arms g) (fst call) of
        None \<Rightarrow> None
      | Some field \<Rightarrow> try_unit (pallet field caller (snd call) s))"

lemma try_unit_id [simp]: "try_unit r = r"
  by (auto simp: try_unit_def split: option.splits prod.splits sum.splits)

lemma expand_call_alt:
  "gc_enum (expand_call d) = map (\<lambda>m. (cv_name m, cv_args m)) (cd_methods d)"
  "gc_self (expand_call d) = cd_struct d"
  "gc_arms (expand_call d) =
     map (\<lambda>m. \<lparr>ga_variant = cv_name m, ga_binds = map fst (cv_args m), ga_method = cv_name m,
                ga_args = ''caller'' # map fst (cv_args m)\<rparr>) (cd_methods d)"
  by (simp_all add: expand_call_def Let_def zip_map_map zip_same_conv_map comp_def zip_map_fst_snd)


section \<open>Every accepted call is routed\<close>

lemma callable_unique: "callable m args \<Longrightarrow> callable m args' \<Longrightarrow> args = args'"
proof -
  have "map (\<lambda>(i, ty). Typed (Pat_Ident i) ty) as = map (\<lambda>(i, ty). Typed (Pat_Ident i) ty) bs \<Longrightarrow> as = bs"
    for as bs :: "(ident \<times> tokens) list"
    by (rule map_injective) (auto simp: inj_def)
  then show "callable m args \<Longrightarrow> callable m args' \<Longrightarrow> ?thesis" by (auto simp: callable_def)
qed

text \<open>The variant the parser made of a function, and where it is found again.\<close>

lemma accepted_variant:
  assumes "call_def_try_from (Item_Impl (Type_Path (seg # segs)) items) = Some (Inr d)"
    and "distinct (map fn_ident (impl_fns items))" and "m \<in> set (impl_fns items)" and "callable m args"
  shows "map_of (gc_enum (expand_call d)) (fn_ident m) = Some args"
    and "find (\<lambda>a. ga_variant a = fn_ident m) (gc_arms (expand_call d)) =
      Some \<lparr>ga_variant = fn_ident m, ga_binds = map fst args, ga_method = fn_ident m, ga_args = ''caller'' # map fst args\<rparr>"
proof -
  have all: "list_all2 (\<lambda>m v. cv_name v = fn_ident m \<and> callable m (cv_args v)) (impl_fns items) (cd_methods d)"
    using assms(1) by (simp add: call_def_Inr_iff)
  show "map_of (gc_enum (expand_call d)) (fn_ident m) = Some args"
    using all assms(2-4) unfolding expand_call_alt
    by (induction rule: list_all2_induct) (auto simp: image_iff dest: callable_unique)
  show "find (\<lambda>a. ga_variant a = fn_ident m) (gc_arms (expand_call d)) =
      Some \<lparr>ga_variant = fn_ident m, ga_binds = map fst args, ga_method = fn_ident m, ga_args = ''caller'' # map fst args\<rparr>"
    using all assms(2-4) unfolding expand_call_alt
    by (induction rule: list_all2_induct) (auto simp: image_iff dest: callable_unique)
qed

lemma accepted_callable:
  assumes "call_def_try_from (Item_Impl (Type_Path (seg # segs)) items) = Some (Inr d)" and "m \<in> set (impl_fns items)"
  obtains args where "callable m args"
proof -
  have "list_all2 (\<lambda>m v. cv_name v = fn_ident m \<and> callable m (cv_args v)) (impl_fns items) (cd_methods d)"
    using assms(1) by (simp add: call_def_Inr_iff)
  moreover obtain k where "k < length (impl_fns items)" "impl_fns items ! k = m"
    using assms(2) by (auto simp: in_set_conv_nth)
  ultimately have "callable m (cv_args (cd_methods d ! k))"
    by (auto dest: list_all2_nthD)
  with that show thesis .
qed

lemma those_map_Some: "(\<And>x. x \<in> set xs \<Longrightarrow> f x = Some (g x)) \<Longrightarrow> those (map f xs) = Some (map g xs)"
  by (induction xs) auto

lemma map_of_zip_map: "distinct xs \<Longrightarrow> length xs = length vs \<Longrightarrow> map (\<lambda>x. the (map_of (zip xs vs) x)) xs = vs"
  by (simp add: list_eq_iff_nth_eq map_of_zip_nth)

lemma arm_lookup_Some: "map_of fs x = Some v \<Longrightarrow> arm_lookup c fs x = Some v"
  by (simp add: arm_lookup_def)

text \<open>The signature of \<open>revoke_claim\<close>, for the witnesses.\<close>

definition claim_fn :: impl_fn where
  "claim_fn = \<lparr>fn_ident = ''revoke_claim'', fn_inputs =
     [Receiver, Typed (Pat_Ident ''caller'') [''T'', ''::'', ''AccountId''], Typed (Pat_Ident ''claim'') [''T'', ''::'', ''Content'']]\<rparr>"

text \<open>A signature whose further argument hides the caller.\<close>

definition shadowed_fn :: impl_fn where
  "shadowed_fn = \<lparr>fn_ident = ''vote'', fn_inputs =
     [Receiver, Typed (Pat_Ident ''_caller'') [''T'', ''::'', ''AccountId''], Typed (Pat_Ident ''caller'') [''u32'']]\<rparr>"

text \<open>The names a signature binds; Rust rejects a repeated one.\<close>

fun param_names :: "fn_arg list \<Rightarrow> ident list" where
  "param_names [] = []"
| "param_names (Receiver # as) = param_names as"
| "param_names (Typed p ty # as) = (case p of Pat_Ident i \<Rightarrow> i # param_names as | Pat_Other \<Rightarrow> param_names as)"

lemma param_names_args [simp]: "param_names (map (\<lambda>(i, ty). Typed (Pat_Ident i) ty) args) = map fst args"
  by (induction args) auto

lemma arm_lookup_args:
  "distinct (map fst args) \<Longrightarrow> map (arm_lookup c args) (map fst args) = map (\<lambda>x. Some (snd x)) args"
  by (auto simp: arm_lookup_def map_of_is_SomeI)

lemma arm_lookup_caller:
  assumes "distinct (map fst args)"
  shows "arm_lookup c args ''caller'' = Some c \<longleftrightarrow> (\<forall>v. (''caller'', v) \<in> set args \<longrightarrow> v = c)"
proof (cases "map_of args ''caller''")
  case None
  then have "(''caller'', v) \<notin> set args" for v
    by (force simp: map_of_eq_None_iff)
  with None show ?thesis by (simp add: arm_lookup_def)
next
  case (Some u)
  then have "(''caller'', v) \<in> set args \<longleftrightarrow> v = u" for v
    using map_of_SomeD [OF Some] eq_key_imp_eq_value [OF assms, of "''caller''" u v] by blast
  with Some show ?thesis by (auto simp: arm_lookup_def)
qed

text \<open>C37: The types of the generated code. For every function of an accepted \<open>impl\<close> block there is
  a variant with the function's arguments after the caller as fields, and an arm for that
  variant that calls the function with as many arguments as it takes. Every argument after
  the caller has the type of its parameter. The argument for the caller has it unless a
  further parameter is named \<open>caller\<close> and has another type than \<open>T::AccountId\<close>, which the
  parser accepts when the caller is written \<open>_caller\<close> or as a pattern; so functions that
  write \<open>caller\<close> always get a well-typed arm.\<close>

theorem generated_arms_typed:
  assumes "call_def_try_from (Item_Impl (Type_Path (seg # segs)) items) = Some (Inr d)"
    and "distinct (map fn_ident (impl_fns items))" and "m \<in> set (impl_fns items)" and "distinct (param_names (fn_inputs m))"
  shows "\<exists>args a. callable m args \<and> map_of (gc_enum (expand_call d)) (fn_ident m) = Some args \<and>
    find (\<lambda>a. ga_variant a = fn_ident m) (gc_arms (expand_call d)) = Some a \<and>
    ga_method a = fn_ident m \<and> ga_binds a = map fst args \<and> length (ga_args a) = length (tl (fn_inputs m)) \<and>
    map (arm_lookup [''T'', ''::'', ''AccountId''] args) (tl (ga_args a)) = map (\<lambda>x. Some (arg_ty x)) (drop 2 (fn_inputs m)) \<and>
    (map (arm_lookup [''T'', ''::'', ''AccountId''] args) (ga_args a) = map (\<lambda>x. Some (arg_ty x)) (tl (fn_inputs m)) \<longleftrightarrow>
       (\<forall>ty. (''caller'', ty) \<in> set args \<longrightarrow> ty = [''T'', ''::'', ''AccountId''])) \<and>
    (arg_pat (fn_inputs m ! 1) = Pat_Ident ''caller'' \<longrightarrow>
       map (arm_lookup [''T'', ''::'', ''AccountId''] args) (ga_args a) = map (\<lambda>x. Some (arg_ty x)) (tl (fn_inputs m)))"
proof -
  let ?T = "[''T'', ''::'', ''AccountId'']"
  obtain args where args: "callable m args"
    using assms(1,3) by (rule accepted_callable)
  then obtain p where m: "fn_inputs m = Receiver # Typed p ?T # map (\<lambda>(i, ty). Typed (Pat_Ident i) ty) args"
    by (auto simp: callable_def)
  have dist: "distinct (map fst args)"
    using assms(4) by (auto simp: m split: pat.splits)
  have fields: "map (arm_lookup ?T args) (map fst args) = map (\<lambda>x. Some (arg_ty x)) (map (\<lambda>(i, ty). Typed (Pat_Ident i) ty) args)"
    unfolding arm_lookup_args [OF dist] by auto
  have whole: "map (arm_lookup ?T args) (''caller'' # map fst args) = map (\<lambda>x. Some (arg_ty x)) (tl (fn_inputs m)) \<longleftrightarrow>
      (\<forall>ty. (''caller'', ty) \<in> set args \<longrightarrow> ty = ?T)"
    using arm_lookup_caller [OF dist, of ?T] fields by (simp add: m del: map_map)
  have plain: "\<forall>ty. (''caller'', ty) \<in> set args \<longrightarrow> ty = ?T" if "p = Pat_Ident ''caller''"
    using assms(4) that by (force simp: m)
  note variant = accepted_variant [OF assms(1-3) args]
  show ?thesis
    by (intro exI [of _ args] exI [of _ "\<lparr>ga_variant = fn_ident m, ga_binds = map fst args, ga_method = fn_ident m,
        ga_args = ''caller'' # map fst args\<rparr>"] conjI)
      (use args variant whole plain fields in \<open>simp_all add: m del: map_map\<close>)
qed

theorem generated_arms_typed_witness:
  "\<exists>d e args a b.
     call_def_try_from poe_item = Some (Inr d) \<and>
     find (\<lambda>a. ga_variant a = ''revoke_claim'') (gc_arms (expand_call d)) = Some a \<and>
     map (arm_lookup [''T'', ''::'', ''AccountId''] args) (ga_args a) =
       [Some [''T'', ''::'', ''AccountId''], Some [''T'', ''::'', ''Content'']] \<and>
     call_def_try_from (Item_Impl (Type_Path [''Pallet'']) [Impl_Fn shadowed_fn]) = Some (Inr e) \<and>
     find (\<lambda>b. ga_variant b = ''vote'') (gc_arms (expand_call e)) = Some b \<and>
     map (arm_lookup [''T'', ''::'', ''AccountId''] [(''caller'', [''u32''])]) (ga_args b) \<noteq>
       [Some [''T'', ''::'', ''AccountId''], Some [''u32'']]"
proof -
  obtain d where d: "call_def_try_from poe_item = Some (Inr d)"
    by (simp add: poe_item_def call_def_try_from_def parse_method_def check_caller_arg_def)
  obtain e where e: "call_def_try_from (Item_Impl (Type_Path [''Pallet'']) [Impl_Fn shadowed_fn]) = Some (Inr e)"
    by (simp add: shadowed_fn_def call_def_try_from_def parse_method_def check_caller_arg_def)
  have claim: "callable claim_fn args \<longleftrightarrow> args = [(''claim'', [''T'', ''::'', ''Content''])]" for args
    by (auto simp: callable_def claim_fn_def)
  have vote: "callable shadowed_fn args \<longleftrightarrow> args = [(''caller'', [''u32''])]" for args
    by (auto simp: callable_def shadowed_fn_def)
  obtain a where "find (\<lambda>a. ga_variant a = ''revoke_claim'') (gc_arms (expand_call d)) = Some a"
    "map (arm_lookup [''T'', ''::'', ''AccountId''] [(''claim'', [''T'', ''::'', ''Content''])]) (ga_args a) =
       [Some [''T'', ''::'', ''AccountId''], Some [''T'', ''::'', ''Content'']]"
    using generated_arms_typed [OF d [unfolded poe_item_def], of claim_fn] by (auto simp: claim) (auto simp: claim_fn_def)
  moreover obtain b where "find (\<lambda>b. ga_variant b = ''vote'') (gc_arms (expand_call e)) = Some b"
    "map (arm_lookup [''T'', ''::'', ''AccountId''] [(''caller'', [''u32''])]) (ga_args b) \<noteq>
       [Some [''T'', ''::'', ''AccountId''], Some [''u32'']]"
    using generated_arms_typed [OF e, of shadowed_fn] by (auto simp: vote) (auto simp: shadowed_fn_def)
  ultimately show ?thesis
    using d e by (intro exI [of _ d] exI [of _ e] exI [of _ "[(''claim'', [''T'', ''::'', ''Content''])]"] exI [of _ a] exI [of _ b]) simp
qed

text \<open>C38: The generated dispatch routes every call: dispatching the variant of a function with the
  values of its fields calls exactly that function, with the values in the order of its
  parameters, after the caller, and returns its result. If a field is itself called
  \<open>caller\<close>, it takes the place of the account on whose behalf the call is made.\<close>

theorem generated_dispatch_routes:
  assumes "call_def_try_from (Item_Impl (Type_Path (seg # segs)) items) = Some (Inr d)"
    and "distinct (map fn_ident (impl_fns items))" and "m \<in> set (impl_fns items)" and "callable m args"
    and "distinct (map fst args)" and "length vs = length args"
  shows "run_dispatch (expand_call d) methods caller (fn_ident m, zip (map fst args) vs) s =
    methods (fn_ident m)
      ((if ''caller'' \<in> fst ` set args then the (map_of (zip (map fst args) vs) ''caller'') else caller) # vs) s"
proof -
  let ?ns = "map fst args"
  let ?fs = "zip ?ns vs"
  have fs: "filter (\<lambda>f. fst f \<in> set ?ns) ?fs = ?fs"
    by (auto simp: filter_id_conv dest: set_zip_leftD)
  have in_fs: "map_of ?fs x = Some (the (map_of ?fs x))" if "x \<in> set ?ns" for x
    using that assms(6) by (metis length_map map_of_zip_is_Some option.sel)
  have "those (map (arm_lookup caller ?fs) ?ns) = Some (map (\<lambda>x. the (map_of ?fs x)) ?ns)"
    by (rule those_map_Some) (rule arm_lookup_Some [OF in_fs])
  also have "map (\<lambda>x. the (map_of ?fs x)) ?ns = vs"
    using assms(5,6) by (intro map_of_zip_map) simp_all
  finally have args: "those (map (arm_lookup caller ?fs) ?ns) = Some vs" .
  have "arm_lookup caller ?fs ''caller'' =
      Some (if ''caller'' \<in> fst ` set args then the (map_of ?fs ''caller'') else caller)"
  proof (cases "''caller'' \<in> set ?ns")
    case True
    with arm_lookup_Some [OF in_fs [OF True]] show ?thesis by simp
  next
    case False
    then have "map_of ?fs ''caller'' = None"
      using assms(6) by (auto simp: map_of_eq_None_iff dest: set_zip_leftD)
    with False show ?thesis by (auto simp: arm_lookup_def)
  qed
  with args show ?thesis
    using accepted_variant(2) [OF assms(1-4)] by (simp add: run_dispatch_def fs [simplified])
qed


theorem generated_dispatch_routes_witness:
  "\<exists>d. call_def_try_from poe_item = Some (Inr d) \<and>
     run_dispatch (expand_call d) (\<lambda>f vs s. Some (Inl f, vs)) (7 :: nat) (''revoke_claim'', [(''claim'', 9)]) [] =
       Some (Inl ''revoke_claim'', [7, 9])"
proof -
  obtain d where d: "call_def_try_from poe_item = Some (Inr d)"
    by (simp add: poe_item_def call_def_try_from_def parse_method_def check_caller_arg_def)
  from generated_dispatch_routes [OF d [unfolded poe_item_def], of claim_fn "[(''claim'', [''T'', ''::'', ''Content''])]" "[9 :: nat]"
      "\<lambda>f vs s. Some (Inl f, vs)" 7 "[]"] d
  show ?thesis by (auto simp: claim_fn_def callable_def)
qed

text \<open>A function whose further argument is called \<open>caller\<close> passes the parser, and its generated
  arm hands it the client's value in the place of the signer.\<close>

lemma caller_can_be_shadowed:
  "\<exists>d. call_def_try_from (Item_Impl (Type_Path [''Pallet''])
         [Impl_Fn \<lparr>fn_ident = ''f'', fn_inputs = [Receiver, Typed (Pat_Ident ''_caller'') [''T'', ''::'', ''AccountId''],
            Typed (Pat_Ident ''caller'') [''T'', ''::'', ''AccountId'']]\<rparr>]) = Some (Inr d) \<and>
       run_dispatch (expand_call d) methods signer (''f'', [(''caller'', victim)]) s = methods ''f'' [victim, victim] s"
  by (simp add: call_def_try_from_def parse_method_def check_caller_arg_def expand_call_def run_dispatch_def arm_lookup_def)

section \<open>The dispatch of the model is the generated one\<close>

datatype call_val = V_account AccountId32 | V_balance u128 | V_content string

text \<open>The methods of the two pallets by their name, and the calls as values of the generated enums.\<close>

definition balances_methods ::
  "('st, 'sk, 'vk) deps \<Rightarrow> ident \<Rightarrow> call_val list \<Rightarrow> AccountId32 balances_pallet \<times> 'st \<Rightarrow>
   (dispatch_result \<times> (AccountId32 balances_pallet \<times> 'st)) option" where
  "balances_methods D f vs ps =
     (case vs of
        [V_account caller, V_account to, V_balance amount] \<Rightarrow>
          if f = ''transfer''
          then Some (transfer (d_kv D) (c_account (d_codecs D)) (c_u128 (d_codecs D)) caller to amount ps)
          else None
      | _ \<Rightarrow> None)"

definition poe_methods ::
  "('st, 'sk, 'vk) deps \<Rightarrow> ident \<Rightarrow> call_val list \<Rightarrow> (AccountId32, string) poe_pallet \<times> 'st \<Rightarrow>
   (dispatch_result \<times> ((AccountId32, string) poe_pallet \<times> 'st)) option" where
  "poe_methods D f vs ps =
     (case vs of
        [V_account caller, V_content claim] \<Rightarrow>
          if f = ''create_claim''
          then create_claim (d_kv D) (c_content (d_codecs D)) (c_account (d_codecs D)) caller claim ps
          else if f = ''revoke_claim''
          then Some (revoke_claim (d_kv D) (c_content (d_codecs D)) caller claim ps)
          else None
      | _ \<Rightarrow> None)"

fun generated_call :: "RuntimeCall \<Rightarrow> ident \<times> ident \<times> (ident \<times> call_val) list" where
  "generated_call (RC_balances (Call_transfer to amount)) =
     (''balances'', ''transfer'', [(''to'', V_account to), (''amount'', V_balance amount)])"
| "generated_call (RC_proof_of_existence (Call_create_claim claim)) =
     (''proof_of_existence'', ''create_claim'', [(''claim'', V_content claim)])"
| "generated_call (RC_proof_of_existence (Call_revoke_claim claim)) =
     (''proof_of_existence'', ''revoke_claim'', [(''claim'', V_content claim)])"

text \<open>The pallet in a field of the runtime: its generated dispatch, written back into the field.\<close>

definition generated_pallet ::
  "gen_call \<Rightarrow> gen_call \<Rightarrow> ('st, 'sk, 'vk) deps \<Rightarrow> ident \<Rightarrow> call_val \<Rightarrow> ident \<times> (ident \<times> call_val) list \<Rightarrow>
   'st chain \<Rightarrow> (dispatch_result \<times> 'st chain) option" where
  "generated_pallet gb gp D field caller call ch =
     (if field = ''balances'' then
        map_option (\<lambda>(r, p, s). (r, (fst ch)\<lparr>rt_balances := p\<rparr>, s))
          (run_dispatch gb (balances_methods D) caller call (rt_balances (fst ch), snd ch))
      else if field = ''proof_of_existence'' then
        map_option (\<lambda>(r, p, s). (r, (fst ch)\<lparr>rt_poe := p\<rparr>, s))
          (run_dispatch gp (poe_methods D) caller call (rt_poe (fst ch), snd ch))
      else None)"

lemmas macro_defs = runtime_item_def balances_item_def poe_item_def runtime_def_try_from_def check_system_def
  call_def_try_from_def parse_method_def check_caller_arg_def expand_call_def expand_runtime_def Let_def

text \<open>C20: The model has the calls the macros generate. The macros accept the sources of the
  repository; the generated runtime constructs system, balances and proof of existence; and
  the dispatch of the model does, on every call and state, what the generated code of the
  three macro invocations does.\<close>

theorem model_dispatch_generated:
  "\<exists>gr gb gp.
     runtime_attribute (\<lambda>_. Inr runtime_item) attr src = [Source src, Generated gr] \<and>
     call_attribute (\<lambda>_. Inr balances_item) attr src = Some [Source src, Generated gb] \<and>
     call_attribute (\<lambda>_. Inr poe_item) attr src = Some [Source src, Generated gp] \<and>
     map fst (gr_new gr) = [''system'', ''balances'', ''proof_of_existence''] \<and>
     map fst (gr_enum gr) = [''balances'', ''proof_of_existence''] \<and>
     (\<forall>(D :: ('st, 'sk, 'vk) deps) caller call ch. runtime_dispatch D caller call ch =
        run_runtime_dispatch gr (generated_pallet gb gp D) (V_account caller) (generated_call call) ch)"
proof -
  obtain gr where gr: "runtime_attribute (\<lambda>_. Inr runtime_item) attr src = [Source src, Generated gr]"
    and new: "map fst (gr_new gr) = [''system'', ''balances'', ''proof_of_existence'']"
    and enum: "map fst (gr_enum gr) = [''balances'', ''proof_of_existence'']"
    and arms: "gr_arms gr = [(''balances'', ''balances''), (''proof_of_existence'', ''proof_of_existence'')]"
    by (simp add: runtime_attribute_def runtime_macro_def macro_defs)
  obtain gb where gb: "call_attribute (\<lambda>_. Inr balances_item) attr src = Some [Source src, Generated gb]"
    and gb_arms: "gc_arms gb = [\<lparr>ga_variant = ''transfer'', ga_binds = [''to'', ''amount''], ga_method = ''transfer'',
                               ga_args = [''caller'', ''to'', ''amount'']\<rparr>]"
    by (simp add: call_attribute_def call_macro_def macro_defs)
  obtain gp where gp: "call_attribute (\<lambda>_. Inr poe_item) attr src = Some [Source src, Generated gp]"
    and gp_arms: "gc_arms gp =
      [\<lparr>ga_variant = ''create_claim'', ga_binds = [''claim''], ga_method = ''create_claim'', ga_args = [''caller'', ''claim'']\<rparr>,
       \<lparr>ga_variant = ''revoke_claim'', ga_binds = [''claim''], ga_method = ''revoke_claim'', ga_args = [''caller'', ''claim'']\<rparr>]"
    by (simp add: call_attribute_def call_macro_def macro_defs)
  have "runtime_dispatch D caller call ch =
        run_runtime_dispatch gr (generated_pallet gb gp D) (V_account caller) (generated_call call) ch"
    for D :: "('st, 'sk, 'vk) deps" and caller call ch
    by (cases call rule: RuntimeCall_cases)
      (auto simp: run_runtime_dispatch_def arms generated_pallet_def run_dispatch_def gb_arms gp_arms arm_lookup_def
        balances_methods_def poe_methods_def split: option.splits prod.splits)
  with gr new enum gb gp show ?thesis by (intro exI [of _ gr] exI [of _ gb] exI [of _ gp] conjI allI)
qed

end
