(* ===== verification/Unit_Tests.thy ===== *)
theory Unit_Tests
  imports Reference_Deps Mempool "HOL-Library.Monad_Syntax"
begin

text \<open>
  The unit tests of \<open>src/system.rs\<close>, \<open>src/balances.rs\<close>, \<open>src/proof_of_existence.rs\<close> and
  \<open>src/support.rs\<close>, run on the model: the tests fix what the authors expect of each method, so
  a model that passes them agrees with the code on these inputs. A test is a computation
  that panics (\<open>None\<close>) or returns. Each starts on an empty \<open>MemStore\<close>; accounts and contents
  are strings. The codecs are arbitrary, since the tests read nothing back. That a signature
  of one payload is not accepted for another is no theorem about a scheme with finitely many
  signatures; the tests of tampered extrinsics pass when none of their few signatures is
  accepted for another of their payloads or keys (\<open>no_forgery\<close>).
\<close>

definition assert_that :: "bool \<Rightarrow> unit option" where
  "assert_that b = (if b then Some () else None)"

definition unwrap :: "('e + unit) \<times> 's \<Rightarrow> 's option" where
  "unwrap rs = (case fst rs of Inl _ \<Rightarrow> None | Inr _ \<Rightarrow> Some (snd rs))"

lemma test_simps [simp]:
  "assert_that b = Some () \<longleftrightarrow> b" "assert_that True = Some ()"
  "unwrap (Inr (), s) = Some s" "unwrap (Inl e, s) = None"
  by (auto simp: assert_that_def unwrap_def)

section \<open>The system pallet\<close>

definition new_system :: "string codec \<Rightarrow> u32 codec \<Rightarrow> string system_pallet \<times> mem" where
  "new_system ca cu = (system_new mem_store ca cu [], [])"

definition block_number_starts_at_zero :: "string codec \<Rightarrow> u32 codec \<Rightarrow> unit option" where
  "block_number_starts_at_zero ca cu = assert_that (block_number (fst (new_system ca cu)) = 0)"

definition inc_block_number_increments_by_one :: "string codec \<Rightarrow> u32 codec \<Rightarrow> unit option" where
  "inc_block_number_increments_by_one ca cu = do {
     let s = new_system ca cu;
     s \<leftarrow> inc_block_number mem_store cu s;
     assert_that (block_number (fst s) = 1);
     s \<leftarrow> inc_block_number mem_store cu s;
     assert_that (block_number (fst s) = 2) }"

definition nonce_starts_at_zero_for_unknown_account :: "string codec \<Rightarrow> u32 codec \<Rightarrow> unit option" where
  "nonce_starts_at_zero_for_unknown_account ca cu = assert_that (nonce (fst (new_system ca cu)) ''alice'' = 0)"

definition inc_nonce_increments_target_account :: "string codec \<Rightarrow> u32 codec \<Rightarrow> unit option" where
  "inc_nonce_increments_target_account ca cu = do {
     s \<leftarrow> inc_nonce mem_store ca cu ''alice'' (new_system ca cu);
     assert_that (nonce (fst s) ''alice'' = 1) }"

definition inc_nonce_does_not_affect_other_accounts :: "string codec \<Rightarrow> u32 codec \<Rightarrow> unit option" where
  "inc_nonce_does_not_affect_other_accounts ca cu = do {
     s \<leftarrow> inc_nonce mem_store ca cu ''alice'' (new_system ca cu);
     assert_that (nonce (fst s) ''bob'' = 0) }"

definition inc_nonce_multiple_times :: "string codec \<Rightarrow> u32 codec \<Rightarrow> unit option" where
  "inc_nonce_multiple_times ca cu = do {
     s \<leftarrow> inc_nonce mem_store ca cu ''alice'' (new_system ca cu);
     s \<leftarrow> inc_nonce mem_store ca cu ''alice'' s;
     s \<leftarrow> inc_nonce mem_store ca cu ''alice'' s;
     assert_that (nonce (fst s) ''alice'' = 3) }"

definition multiple_accounts_track_nonces_independently :: "string codec \<Rightarrow> u32 codec \<Rightarrow> unit option" where
  "multiple_accounts_track_nonces_independently ca cu = do {
     s \<leftarrow> inc_nonce mem_store ca cu ''alice'' (new_system ca cu);
     s \<leftarrow> inc_nonce mem_store ca cu ''alice'' s;
     s \<leftarrow> inc_nonce mem_store ca cu ''bob'' s;
     assert_that (nonce (fst s) ''alice'' = 2);
     assert_that (nonce (fst s) ''bob'' = 1);
     assert_that (nonce (fst s) ''charlie'' = 0) }"

definition system_tests :: "string codec \<Rightarrow> u32 codec \<Rightarrow> unit option list" where
  "system_tests ca cu =
     [block_number_starts_at_zero ca cu, inc_block_number_increments_by_one ca cu,
      nonce_starts_at_zero_for_unknown_account ca cu, inc_nonce_increments_target_account ca cu,
      inc_nonce_does_not_affect_other_accounts ca cu, inc_nonce_multiple_times ca cu,
      multiple_accounts_track_nonces_independently ca cu]"

lemma new_system_simps [simp]:
  "block_number (fst (new_system ca cu)) = 0" "nonce (fst (new_system ca cu)) a = 0" "sys_nonce (fst (new_system ca cu)) = []"
  by (simp_all add: new_system_def system_new_def load_entries_def mem_store_defs block_number_def nonce_def Let_def)

lemma nonce_sys_nonce: "nonce (p\<lparr>sys_nonce := m\<rparr>) a = (case bt_get m a of None \<Rightarrow> 0 | Some n \<Rightarrow> n)"
  by (simp add: nonce_def)

text \<open>One increment, in the form the tests chain.\<close>

lemma inc_nonce_bind:
  assumes "unat (nonce (fst ps) who) < 2 ^ 32 - 1"
  shows "Option.bind (inc_nonce K ca cu who ps) f =
    f ((fst ps)\<lparr>sys_nonce := bt_insert who (nonce (fst ps) who + 1) (sys_nonce (fst ps))\<rparr>,
       snd (kv_put K (snd ps) (PREFIX_NONCE @ encode ca who) (encode cu (nonce (fst ps) who + 1))))"
  using assms by (cases rule: inc_nonce_cases [of K ca cu who "fst ps" "snd ps"]) (simp_all add: nonce_def)

lemma inc_block_number_bind:
  assumes "unat (block_number (fst ps)) < 2 ^ 32 - 1"
  shows "Option.bind (inc_block_number K cu ps) f =
    f ((fst ps)\<lparr>sys_block_number := block_number (fst ps) + 1\<rparr>,
       snd (kv_put K (snd ps) PREFIX_BLOCK_NUMBER (encode cu (block_number (fst ps) + 1))))"
  using assms by (cases rule: inc_block_number_cases [of K cu "fst ps" "snd ps"]) simp_all

lemma system_tests_pass: "set (system_tests ca cu) = {Some ()}"
  by (simp add: system_tests_def block_number_starts_at_zero_def inc_block_number_increments_by_one_def
      nonce_starts_at_zero_for_unknown_account_def inc_nonce_increments_target_account_def
      inc_nonce_does_not_affect_other_accounts_def inc_nonce_multiple_times_def
      multiple_accounts_track_nonces_independently_def inc_nonce_bind inc_block_number_bind nonce_sys_nonce
      bt_get_def Let_def)


section \<open>The balances pallet\<close>

definition new_balances :: "string codec \<Rightarrow> u128 codec \<Rightarrow> string balances_pallet \<times> mem" where
  "new_balances ca cb = (balances_new mem_store ca cb [], [])"

definition unknown_account_balance_is_zero :: "string codec \<Rightarrow> u128 codec \<Rightarrow> unit option" where
  "unknown_account_balance_is_zero ca cb = assert_that (balance (fst (new_balances ca cb)) ''alice'' = 0)"

definition set_and_get_balance :: "string codec \<Rightarrow> u128 codec \<Rightarrow> unit option" where
  "set_and_get_balance ca cb = do {
     let p = set_balance mem_store ca cb ''alice'' 100 (new_balances ca cb);
     assert_that (balance (fst p) ''alice'' = 100);
     assert_that (balance (fst p) ''bob'' = 0) }"

definition transfer_ok :: "string codec \<Rightarrow> u128 codec \<Rightarrow> unit option" where
  "transfer_ok ca cb = do {
     let p = set_balance mem_store ca cb ''alice'' 100 (new_balances ca cb);
     let (r, p) = transfer mem_store ca cb ''alice'' ''bob'' 40 p;
     assert_that (r = Ok_unit);
     assert_that (balance (fst p) ''alice'' = 60);
     assert_that (balance (fst p) ''bob'' = 40) }"

definition transfer_exact_balance_empties_sender :: "string codec \<Rightarrow> u128 codec \<Rightarrow> unit option" where
  "transfer_exact_balance_empties_sender ca cb = do {
     let p = set_balance mem_store ca cb ''alice'' 100 (new_balances ca cb);
     let (r, p) = transfer mem_store ca cb ''alice'' ''bob'' 100 p;
     assert_that (r = Ok_unit);
     assert_that (balance (fst p) ''alice'' = 0);
     assert_that (balance (fst p) ''bob'' = 100) }"

definition transfer_insufficient_funds_leaves_balances_unchanged :: "string codec \<Rightarrow> u128 codec \<Rightarrow> unit option" where
  "transfer_insufficient_funds_leaves_balances_unchanged ca cb = do {
     let p = set_balance mem_store ca cb ''alice'' 50 (new_balances ca cb);
     let (r, p) = transfer mem_store ca cb ''alice'' ''bob'' 51 p;
     assert_that (r = Inl ''Not enough funds.'');
     assert_that (balance (fst p) ''alice'' = 50);
     assert_that (balance (fst p) ''bob'' = 0) }"

definition transfer_from_zero_balance_fails :: "string codec \<Rightarrow> u128 codec \<Rightarrow> unit option" where
  "transfer_from_zero_balance_fails ca cb =
     assert_that (fst (transfer mem_store ca cb ''alice'' ''bob'' 1 (new_balances ca cb)) = Inl ''Not enough funds.'')"

definition multiple_transfers_accumulate :: "string codec \<Rightarrow> u128 codec \<Rightarrow> unit option" where
  "multiple_transfers_accumulate ca cb = do {
     let p = set_balance mem_store ca cb ''alice'' 100 (new_balances ca cb);
     p \<leftarrow> unwrap (transfer mem_store ca cb ''alice'' ''bob'' 30 p);
     p \<leftarrow> unwrap (transfer mem_store ca cb ''alice'' ''bob'' 30 p);
     assert_that (balance (fst p) ''alice'' = 40);
     assert_that (balance (fst p) ''bob'' = 60) }"

definition balances_tests :: "string codec \<Rightarrow> u128 codec \<Rightarrow> unit option list" where
  "balances_tests ca cb =
     [unknown_account_balance_is_zero ca cb, set_and_get_balance ca cb, transfer_ok ca cb,
      transfer_exact_balance_empties_sender ca cb, transfer_insufficient_funds_leaves_balances_unchanged ca cb,
      transfer_from_zero_balance_fails ca cb, multiple_transfers_accumulate ca cb]"

lemma new_balances_simps [simp]: "balance (fst (new_balances ca cb)) a = 0"
  by (simp add: new_balances_def balances_new_def load_entries_def mem_store_defs balance_def)

lemma balances_tests_pass: "set (balances_tests ca cb) = {Some ()}"
  by (simp add: balances_tests_def unknown_account_balance_is_zero_def set_and_get_balance_def transfer_ok_def
      transfer_exact_balance_empties_sender_def transfer_insufficient_funds_leaves_balances_unchanged_def
      transfer_from_zero_balance_fails_def multiple_transfers_accumulate_def transfer_def checked_sub_def
      checked_add_def Let_def)

section \<open>The proof-of-existence pallet\<close>

definition new_poe :: "string codec \<Rightarrow> string codec \<Rightarrow> (string, string) poe_pallet \<times> mem" where
  "new_poe cc ca = (poe_new mem_store cc ca [], [])"

definition get_claim_returns_none_for_missing_content :: "string codec \<Rightarrow> string codec \<Rightarrow> unit option" where
  "get_claim_returns_none_for_missing_content cc ca = assert_that (get_claim (fst (new_poe cc ca)) ''ghost'' = None)"

definition create_claim_stores_owner :: "string codec \<Rightarrow> string codec \<Rightarrow> unit option" where
  "create_claim_stores_owner cc ca = do {
     (r, poe) \<leftarrow> create_claim mem_store cc ca ''alice'' ''doc'' (new_poe cc ca);
     assert_that (r = Ok_unit);
     assert_that (get_claim (fst poe) ''doc'' = Some ''alice'') }"

definition create_duplicate_claim_fails :: "string codec \<Rightarrow> string codec \<Rightarrow> unit option" where
  "create_duplicate_claim_fails cc ca = do {
     poe \<leftarrow> Option.bind (create_claim mem_store cc ca ''alice'' ''doc'' (new_poe cc ca)) unwrap;
     (r, poe) \<leftarrow> create_claim mem_store cc ca ''bob'' ''doc'' poe;
     assert_that (r = Inl ''this content is already claimed'');
     assert_that (get_claim (fst poe) ''doc'' = Some ''alice'') }"

definition revoke_claim_removes_it :: "string codec \<Rightarrow> string codec \<Rightarrow> unit option" where
  "revoke_claim_removes_it cc ca = do {
     poe \<leftarrow> Option.bind (create_claim mem_store cc ca ''alice'' ''doc'' (new_poe cc ca)) unwrap;
     let (r, poe) = revoke_claim mem_store cc ''alice'' ''doc'' poe;
     assert_that (r = Ok_unit);
     assert_that (get_claim (fst poe) ''doc'' = None) }"

definition revoke_nonexistent_claim_fails :: "string codec \<Rightarrow> string codec \<Rightarrow> unit option" where
  "revoke_nonexistent_claim_fails cc ca =
     assert_that (fst (revoke_claim mem_store cc ''alice'' ''ghost'' (new_poe cc ca)) = Inl ''claim does not exist'')"

definition revoke_claim_wrong_owner_fails :: "string codec \<Rightarrow> string codec \<Rightarrow> unit option" where
  "revoke_claim_wrong_owner_fails cc ca = do {
     poe \<leftarrow> Option.bind (create_claim mem_store cc ca ''alice'' ''doc'' (new_poe cc ca)) unwrap;
     let (r, poe) = revoke_claim mem_store cc ''bob'' ''doc'' poe;
     assert_that (r = Inl ''caller is not owner'');
     assert_that (get_claim (fst poe) ''doc'' = Some ''alice'') }"

definition reclaim_after_revoke_succeeds :: "string codec \<Rightarrow> string codec \<Rightarrow> unit option" where
  "reclaim_after_revoke_succeeds cc ca = do {
     poe \<leftarrow> Option.bind (create_claim mem_store cc ca ''alice'' ''doc'' (new_poe cc ca)) unwrap;
     poe \<leftarrow> unwrap (revoke_claim mem_store cc ''alice'' ''doc'' poe);
     (r, poe) \<leftarrow> create_claim mem_store cc ca ''bob'' ''doc'' poe;
     assert_that (r = Ok_unit);
     assert_that (get_claim (fst poe) ''doc'' = Some ''bob'') }"

definition multiple_claims_are_independent :: "string codec \<Rightarrow> string codec \<Rightarrow> unit option" where
  "multiple_claims_are_independent cc ca = do {
     poe \<leftarrow> Option.bind (create_claim mem_store cc ca ''alice'' ''doc1'' (new_poe cc ca)) unwrap;
     poe \<leftarrow> Option.bind (create_claim mem_store cc ca ''bob'' ''doc2'' poe) unwrap;
     assert_that (get_claim (fst poe) ''doc1'' = Some ''alice'');
     assert_that (get_claim (fst poe) ''doc2'' = Some ''bob'') }"

definition revoking_one_claim_does_not_affect_others :: "string codec \<Rightarrow> string codec \<Rightarrow> unit option" where
  "revoking_one_claim_does_not_affect_others cc ca = do {
     poe \<leftarrow> Option.bind (create_claim mem_store cc ca ''alice'' ''doc1'' (new_poe cc ca)) unwrap;
     poe \<leftarrow> Option.bind (create_claim mem_store cc ca ''alice'' ''doc2'' poe) unwrap;
     poe \<leftarrow> unwrap (revoke_claim mem_store cc ''alice'' ''doc1'' poe);
     assert_that (get_claim (fst poe) ''doc1'' = None);
     assert_that (get_claim (fst poe) ''doc2'' = Some ''alice'') }"

definition poe_tests :: "string codec \<Rightarrow> string codec \<Rightarrow> unit option list" where
  "poe_tests cc ca =
     [get_claim_returns_none_for_missing_content cc ca, create_claim_stores_owner cc ca,
      create_duplicate_claim_fails cc ca, revoke_claim_removes_it cc ca, revoke_nonexistent_claim_fails cc ca,
      revoke_claim_wrong_owner_fails cc ca, reclaim_after_revoke_succeeds cc ca,
      multiple_claims_are_independent cc ca, revoking_one_claim_does_not_affect_others cc ca]"

lemma new_poe_claims [simp]: "poe_claims (fst (new_poe cc ca)) = []"
  by (simp add: new_poe_def poe_new_def load_entries_def mem_store_defs)

lemma poe_tests_pass: "set (poe_tests cc ca) = {Some ()}"
  by (simp add: poe_tests_def get_claim_returns_none_for_missing_content_def create_claim_stores_owner_def
      create_duplicate_claim_fails_def revoke_claim_removes_it_def revoke_nonexistent_claim_fails_def
      revoke_claim_wrong_owner_fails_def reclaim_after_revoke_succeeds_def multiple_claims_are_independent_def
      revoking_one_claim_does_not_affect_others_def create_claim_def revoke_claim_def get_claim_def
      bt_contains_key_def bt_last_key_def bt_remove_def bt_get_def Let_def)


section \<open>The mempool\<close>

text \<open>A \<open>for\<close> loop that submits, with \<open>unwrap\<close>.\<close>

fun submit_each :: "int list \<Rightarrow> int mempool \<Rightarrow> int mempool option" where
  "submit_each [] pool = Some pool"
| "submit_each (i # is) pool = do { pool \<leftarrow> unwrap (submit i pool); submit_each is pool }"

definition mempool_new_is_empty :: "unit option" where
  "mempool_new_is_empty = do {
     let pool = (mempool_new :: int mempool);
     assert_that (pool_is_empty pool);
     assert_that (pool_len pool = 0) }"

definition mempool_submit_and_drain_all :: "unit option" where
  "mempool_submit_and_drain_all = do {
     pool \<leftarrow> submit_each [1, 2, 3] mempool_new;
     let (batch, pool) = drain_for_block 10 pool;
     assert_that (batch = [1, 2, 3]);
     assert_that (pool_is_empty pool) }"

definition mempool_drain_partial_leaves_remainder :: "unit option" where
  "mempool_drain_partial_leaves_remainder = do {
     pool \<leftarrow> submit_each [0, 1, 2, 3, 4] mempool_new;
     let (batch, pool) = drain_for_block 3 pool;
     assert_that (batch = [0, 1, 2]);
     assert_that (pool_len pool = 2) }"

definition mempool_drain_from_empty_returns_empty_vec :: "unit option" where
  "mempool_drain_from_empty_returns_empty_vec = assert_that (fst (drain_for_block 10 (mempool_new :: int mempool)) = [])"

definition mempool_capacity_rejects_overflow :: "unit option" where
  "mempool_capacity_rejects_overflow = do {
     let (r, pool) = submit 1 (with_capacity 2 :: int mempool);
     assert_that (r = Ok_unit);
     let (r, pool) = submit 2 pool;
     assert_that (r = Ok_unit);
     let (r, pool) = submit 3 pool;
     assert_that (r \<noteq> Ok_unit);
     assert_that (pool_len pool = 2) }"

definition mempool_block_limit_signals_correctly :: "unit option" where
  "mempool_block_limit_signals_correctly = do {
     let pool = with_block_limit 2;
     assert_that (\<not> is_block_ready pool);
     pool \<leftarrow> submit_each [1] pool;
     assert_that (\<not> is_block_ready pool);
     pool \<leftarrow> submit_each [2] pool;
     assert_that (is_block_ready pool);
     let (batch, pool) = drain_for_block 2 pool;
     assert_that (\<not> is_block_ready pool) }"

definition mempool_retain_evicts_matching :: "unit option" where
  "mempool_retain_evicts_matching = do {
     pool \<leftarrow> submit_each [0, 1, 2, 3, 4] mempool_new;
     let pool = retain (\<lambda>x. x mod 2 = 0) pool;
     assert_that (fst (drain_for_block 10 pool) = [0, 2, 4]) }"

definition mempool_remove_by_index :: "unit option" where
  "mempool_remove_by_index = do {
     pool \<leftarrow> submit_each [10, 20, 30] mempool_new;
     let (r, pool) = remove_at 1 pool;
     assert_that (r = Some 20);
     assert_that (pool_len pool = 2);
     assert_that (fst (drain_for_block 10 pool) = [10, 30]) }"

definition mempool_remove_out_of_bounds_returns_none :: "unit option" where
  "mempool_remove_out_of_bounds_returns_none = do {
     pool \<leftarrow> submit_each [1] mempool_new;
     let (r, pool) = remove_at 5 pool;
     assert_that (r = None);
     assert_that (pool_len pool = 1) }"

definition mempool_pending_extrinsics_iter :: "unit option" where
  "mempool_pending_extrinsics_iter = do {
     pool \<leftarrow> submit_each [10, 20] mempool_new;
     assert_that (pending_extrinsics pool = [10, 20]) }"

definition mempool_tests :: "unit option list" where
  "mempool_tests =
     [mempool_new_is_empty, mempool_submit_and_drain_all, mempool_drain_partial_leaves_remainder,
      mempool_drain_from_empty_returns_empty_vec, mempool_capacity_rejects_overflow,
      mempool_block_limit_signals_correctly, mempool_retain_evicts_matching, mempool_remove_by_index,
      mempool_remove_out_of_bounds_returns_none, mempool_pending_extrinsics_iter]"

lemma mempool_tests_pass: "set mempool_tests = {Some ()}"
  by (simp add: mempool_tests_def mempool_new_is_empty_def mempool_submit_and_drain_all_def
      mempool_drain_partial_leaves_remainder_def mempool_drain_from_empty_returns_empty_vec_def
      mempool_capacity_rejects_overflow_def mempool_block_limit_signals_correctly_def mempool_retain_evicts_matching_def
      mempool_remove_by_index_def mempool_remove_out_of_bounds_returns_none_def mempool_pending_extrinsics_iter_def
      mempool_new_def with_capacity_def with_block_limit_def submit_def drain_for_block_eq remove_at_def retain_def
      pool_len_def pool_is_empty_def is_block_ready_def pending_extrinsics_def Let_def)

section \<open>Signatures\<close>

datatype TestCall = TestCall u32

definition new_signed_produces_valid_extrinsic :: "('sk, 'vk) ed25519 \<Rightarrow> TestCall payload_enc \<Rightarrow> unit option" where
  "new_signed_produces_valid_extrinsic E enc = do {
     let ext = new_signed E enc (signing_key E Alice) 0 (TestCall 42);
     assert_that (ext_signer ext = public E Alice);
     assert_that (ext_nonce ext = 0);
     assert_that (verify E enc ext = Ok_unit) }"

definition verify_rejects_tampered_nonce :: "('sk, 'vk) ed25519 \<Rightarrow> TestCall payload_enc \<Rightarrow> unit option" where
  "verify_rejects_tampered_nonce E enc = do {
     let ext = new_signed E enc (signing_key E Alice) 0 (TestCall 1);
     let ext = ext\<lparr>ext_nonce := 99\<rparr>;
     assert_that (verify E enc ext \<noteq> Ok_unit) }"

definition verify_rejects_wrong_signer_field :: "('sk, 'vk) ed25519 \<Rightarrow> TestCall payload_enc \<Rightarrow> unit option" where
  "verify_rejects_wrong_signer_field E enc = do {
     let ext = new_signed E enc (signing_key E Alice) 0 (TestCall 1);
     let ext = ext\<lparr>ext_signer := public E Bob\<rparr>;
     assert_that (verify E enc ext \<noteq> Ok_unit) }"

definition nonces_produce_different_signatures :: "('sk, 'vk) ed25519 \<Rightarrow> TestCall payload_enc \<Rightarrow> unit option" where
  "nonces_produce_different_signatures E enc = do {
     let ext0 = new_signed E enc (signing_key E Alice) 0 (TestCall 1);
     let ext1 = new_signed E enc (signing_key E Alice) 1 (TestCall 1);
     assert_that (ext_signature ext0 \<noteq> ext_signature ext1) }"

definition verify_batch_all_valid :: "('sk, 'vk) ed25519 \<Rightarrow> TestCall payload_enc \<Rightarrow> unit option" where
  "verify_batch_all_valid E enc = do {
     let exts = map (\<lambda>n. new_signed E enc (signing_key E Alice) n (TestCall n)) [0, 1, 2, 3];
     assert_that (list_all (\<lambda>r. r = Ok_unit) (verify_batch E enc exts)) }"

definition verify_batch_catches_tampered_entry :: "('sk, 'vk) ed25519 \<Rightarrow> TestCall payload_enc \<Rightarrow> unit option" where
  "verify_batch_catches_tampered_entry E enc = do {
     let exts = map (\<lambda>n. new_signed E enc (signing_key E Alice) n (TestCall n)) [0, 1, 2];
     let exts = exts[1 := (exts ! 1)\<lparr>ext_nonce := 99\<rparr>];
     let results = verify_batch E enc exts;
     assert_that (results ! 0 = Ok_unit);
     assert_that (results ! 1 \<noteq> Ok_unit);
     assert_that (results ! 2 = Ok_unit) }"

definition signing_tests :: "('sk, 'vk) ed25519 \<Rightarrow> TestCall payload_enc \<Rightarrow> unit option list" where
  "signing_tests E enc = [new_signed_produces_valid_extrinsic E enc, verify_batch_all_valid E enc]"

lemma new_signed_fields: "ext_signer (new_signed E enc sk n c) = AccountId32 (vk_bytes E sk)" "ext_nonce (new_signed E enc sk n c) = n"
  by (simp_all add: new_signed_def Let_def)

lemma signing_tests_pass: "ed25519_ok E \<Longrightarrow> set (signing_tests E enc) = {Some ()}"
  by (simp add: signing_tests_def new_signed_produces_valid_extrinsic_def verify_batch_all_valid_def verify_batch_def
      verify_new_signed new_signed_fields public_def Let_def)

text \<open>
  No signature that a dev account makes of one of the given nonces and calls is accepted for
  another account, nonce or call among them.
\<close>

definition no_forgery :: "('sk, 'vk) ed25519 \<Rightarrow> 'call payload_enc \<Rightarrow> (u32 \<times> 'call) list \<Rightarrow> bool" where
  "no_forgery E enc ms \<longleftrightarrow>
     (\<forall>k k'. \<forall>m \<in> set ms. \<forall>m' \<in> set ms.
        case vk_from_bytes E (as_bytes (public E k)) of
          None \<Rightarrow> True
        | Some vk \<Rightarrow> vk_verify E vk (enc (as_bytes (public E k), m))
                       (sk_sign E (signing_key E k') (enc (as_bytes (public E k'), m'))) \<longrightarrow> k = k' \<and> m = m')"

lemma altered_rejected:
  assumes "no_forgery E enc ms" and "(n, c) \<in> set ms" and "(n', c') \<in> set ms"
    and "verify E enc e = Ok_unit" and "ext_signer e = public E k" and "ext_nonce e = n" and "ext_call e = c"
    and "ext_signature e = ext_signature (new_signed E enc (signing_key E k') n' c')"
  shows "k = k' \<and> n = n' \<and> c = c'"
proof -
  obtain vk where vk: "vk_from_bytes E (as_bytes (public E k)) = Some vk"
    and "vk_verify E vk (enc (as_bytes (public E k), n, c)) (ext_signature e)"
    using assms(4-7) by (auto simp: verify_Ok_iff)
  then have "vk_verify E vk (enc (as_bytes (public E k), (n, c)))
      (sk_sign E (signing_key E k') (enc (as_bytes (public E k'), (n', c'))))"
    using assms(8) by (simp add: new_signed_def public_def Let_def)
  moreover have "case vk_from_bytes E (as_bytes (public E k)) of None \<Rightarrow> True
      | Some vk \<Rightarrow> vk_verify E vk (enc (as_bytes (public E k), (n, c)))
                     (sk_sign E (signing_key E k') (enc (as_bytes (public E k'), (n', c')))) \<longrightarrow> k = k' \<and> (n, c) = (n', c')"
    using assms(1-3) unfolding no_forgery_def by blast
  ultimately show ?thesis
    using vk by simp
qed

lemma signatures_differ:
  assumes "no_forgery E enc ms" and "ed25519_ok E" and "(n, c) \<in> set ms" and "(n', c') \<in> set ms"
    and "ext_signature (new_signed E enc (signing_key E k) n c) = ext_signature (new_signed E enc (signing_key E k') n' c')"
  shows "k = k' \<and> n = n' \<and> c = c'"
proof (rule altered_rejected [OF assms(1,3,4)])
  show "verify E enc (new_signed E enc (signing_key E k) n c) = Ok_unit"
    by (rule verify_new_signed [OF assms(2)])
qed (use assms(5) in \<open>simp_all add: new_signed_def public_def Let_def\<close>)

lemma new_signed_call: "ext_call (new_signed E enc sk n c) = c"
  by (simp add: new_signed_def Let_def)

definition forgery_tests :: "('sk, 'vk) ed25519 \<Rightarrow> TestCall payload_enc \<Rightarrow> unit option list" where
  "forgery_tests E enc =
     [verify_rejects_tampered_nonce E enc, verify_rejects_wrong_signer_field E enc,
      nonces_produce_different_signatures E enc, verify_batch_catches_tampered_entry E enc]"

definition tested_calls :: "(u32 \<times> TestCall) list" where
  "tested_calls = [(0, TestCall 1), (1, TestCall 1), (99, TestCall 1)]"

lemma forgery_tests_pass:
  assumes "ed25519_ok E" and "no_forgery E enc tested_calls"
  shows "set (forgery_tests E enc) = {Some ()}"
proof -
  note alter = altered_rejected [OF assms(2), unfolded tested_calls_def]
  let ?ext = "\<lambda>n. new_signed E enc (signing_key E Alice) n (TestCall 1)"
  have nonce: "verify E enc ((?ext n)\<lparr>ext_nonce := 99\<rparr>) \<noteq> Ok_unit" if "n = 0 \<or> n = 1" for n
    using that alter [of 99 "TestCall 1" n "TestCall 1" "(?ext n)\<lparr>ext_nonce := 99\<rparr>" Alice Alice]
    by (auto simp: new_signed_fields(1) new_signed_call public_def)
  have signer: "verify E enc ((?ext 0)\<lparr>ext_signer := public E Bob\<rparr>) \<noteq> Ok_unit"
    using alter [of 0 "TestCall 1" 0 "TestCall 1" "(?ext 0)\<lparr>ext_signer := public E Bob\<rparr>" Bob Alice]
    by (auto simp: new_signed_fields(2) new_signed_call)
  have differ: "ext_signature (?ext 0) \<noteq> ext_signature (?ext 1)"
    using signatures_differ [OF assms(2,1), of 0 "TestCall 1" 1 "TestCall 1" Alice Alice] by (auto simp: tested_calls_def)
  show ?thesis
    using nonce signer differ
    by (simp add: forgery_tests_def verify_rejects_tampered_nonce_def verify_rejects_wrong_signer_field_def
        nonces_produce_different_signatures_def verify_batch_catches_tampered_entry_def verify_batch_def
        verify_new_signed [OF assms(1)] Let_def)
qed

text \<open>A scheme whose signatures repeat the key and what a payload says after the account passes.\<close>

definition plain_ed25519 :: "(arr32, arr32) ed25519" where
  "plain_ed25519 = \<lparr>sk_from_bytes = (\<lambda>s. s), vk_bytes = (\<lambda>sk. sk),
     sk_sign = (\<lambda>sk m. arr64_of (arr32_list sk @ drop 32 m)),
     vk_from_bytes = Some, vk_verify = (\<lambda>vk m s. s = arr64_of (arr32_list vk @ drop 32 m))\<rparr>"

lemma plain_ed25519_ok [simp]: "ed25519_ok plain_ed25519"
  by (simp add: ed25519_ok_def plain_ed25519_def)

lemma plain_simps [simp]:
  "vk_from_bytes plain_ed25519 = Some" "signing_key plain_ed25519 k = seed k" "public plain_ed25519 k = AccountId32 (seed k)"
  "sk_sign plain_ed25519 sk m = arr64_of (arr32_list sk @ drop 32 m)"
  "vk_verify plain_ed25519 vk m s \<longleftrightarrow> s = arr64_of (arr32_list vk @ drop 32 m)"
  by (simp_all add: public_def signing_key_def plain_ed25519_def)

lemma plain_no_forgery:
  assumes "\<And>m m'. m \<in> set ms \<Longrightarrow> m' \<in> set ms \<Longrightarrow>
    take 7 (body m @ replicate 7 0) = take 7 (body m' @ replicate 7 0) \<Longrightarrow> m = m'"
  shows "no_forgery plain_ed25519 (\<lambda>(a, m). arr32_list a @ body m) ms"
proof -
  have "k = k' \<and> m = m'"
    if "m \<in> set ms" "m' \<in> set ms" "arr64_of (arr32_list (seed k') @ body m') = arr64_of (arr32_list (seed k) @ body m)"
    for k k' m m'
  proof -
    have "take 64 ((arr32_list (seed k') @ body m') @ replicate 64 0) = take 64 ((arr32_list (seed k) @ body m) @ replicate 64 0)"
      using that(3) by (metis arr_list_of(2))
    then have eq: "seed k' = seed k" "take 32 (body m' @ replicate 64 0) = take 32 (body m @ replicate 64 0)"
      by (simp_all add: arr32_list_inject)
    have front: "take 7 (xs @ replicate 7 (0 :: byte)) = take 7 (take 32 (xs @ replicate 64 0))" for xs
      by (simp add: min_def) arith
    have "m = m'"
      by (rule assms [OF that(1,2)]) (simp only: front eq(2))
    with eq(1) show ?thesis by (simp add: seed_inject)
  qed
  then show ?thesis
    unfolding no_forgery_def by (simp add: case_prod_beta)
qed

definition test_payload :: "TestCall payload_enc" where
  "test_payload = (\<lambda>(a, m). arr32_list a @ (case m of (n, TestCall k) \<Rightarrow> word_enc 4 n @ word_enc 4 k))"

lemma nonce_enc [simp]: "length (word_enc 4 n) = 4" "word_enc 4 n = word_enc 4 n' \<longleftrightarrow> n = (n' :: u32)"
proof -
  have "parses (word_par 4 :: u32 parser) (word_enc 4)" by (rule parses_word) simp
  from parses_Nil [OF this, of n] parses_Nil [OF this, of n'] show "word_enc 4 n = word_enc 4 n' \<longleftrightarrow> n = n'"
    by (metis option.inject prod.inject)
qed (simp add: word_enc_def)

lemma plain_unit_tests: "no_forgery plain_ed25519 test_payload tested_calls"
  unfolding test_payload_def by (rule plain_no_forgery) (auto simp: tested_calls_def)

text \<open>The model passes the unit tests of the repository, for whatever codecs and whatever
  signature scheme accepts its own signatures and none of the forgeries the tests try.\<close>

lemma unit_tests_pass:
  assumes "ed25519_ok E" and "no_forgery E enc tested_calls"
  shows "set (system_tests ca cu @ balances_tests ca cb @ poe_tests cc ca @ mempool_tests @ signing_tests E enc @
    forgery_tests E enc) = {Some ()}"
  by (simp add: system_tests_pass balances_tests_pass poe_tests_pass mempool_tests_pass signing_tests_pass [OF assms(1)]
      forgery_tests_pass [OF assms])

end
