(* ===== verification/Integration_Tests.thy ===== *)
theory Integration_Tests
  imports Unit_Tests Ledger_Spec
begin

text \<open>
  The integration tests of \<open>tests/runtime.rs\<close> and \<open>tests/encoding.rs\<close>, run on the model. The
  tests of one binary share a database and run in any order, so the tests of the runtime are
  proved for whatever the database holds when they load it: the height and nonces must be
  within range, and the claims a test creates free. Their outcome is computed on the abstract
  ledger of \<open>Ledger_Spec\<close>. Tests are built with overflow checks.
\<close>

section \<open>\<open>tests/runtime.rs\<close>\<close>

definition signed_transfer :: "('st, 'sk, 'vk) deps \<Rightarrow> AccountKeyring \<Rightarrow> u32 \<Rightarrow> AccountKeyring \<Rightarrow> u128 \<Rightarrow> ext" where
  "signed_transfer D from n to amount =
     new_signed (d_ed25519 D) (d_payload D) (signing_key (d_ed25519 D) from) n
       (RC_balances (Call_transfer (public (d_ed25519 D) to) amount))"

definition signed_claim :: "('st, 'sk, 'vk) deps \<Rightarrow> AccountKeyring \<Rightarrow> u32 \<Rightarrow> string \<Rightarrow> ext" where
  "signed_claim D from n claim =
     new_signed (d_ed25519 D) (d_payload D) (signing_key (d_ed25519 D) from) n
       (RC_proof_of_existence (Call_create_claim claim))"

definition signed_revoke :: "('st, 'sk, 'vk) deps \<Rightarrow> AccountKeyring \<Rightarrow> u32 \<Rightarrow> string \<Rightarrow> ext" where
  "signed_revoke D from n claim =
     new_signed (d_ed25519 D) (d_payload D) (signing_key (d_ed25519 D) from) n
       (RC_proof_of_existence (Call_revoke_claim claim))"

text \<open>\<open>rt.execute_block(next_block(&rt, exts)).unwrap()\<close>\<close>

definition commit_next :: "('st, 'sk, 'vk) deps \<Rightarrow> ext list \<Rightarrow> 'st chain \<Rightarrow> 'st chain option" where
  "commit_next D exts ch = do {
     n \<leftarrow> plain_add True (block_number (rt_system (fst ch))) 1;
     rch \<leftarrow> execute_block D \<lparr>blk_header = \<lparr>hd_block_number = n\<rparr>, blk_extrinsics = exts\<rparr> ch;
     unwrap rch }"

definition load :: "('st, 'sk, 'vk) deps \<Rightarrow> 'st \<Rightarrow> 'st chain" where
  "load D s = (runtime_new D s, s)"

definition give :: "('st, 'sk, 'vk) deps \<Rightarrow> AccountKeyring \<Rightarrow> u128 \<Rightarrow> 'st chain \<Rightarrow> 'st chain" where
  "give D who amount =
     on_balances (set_balance (d_kv D) (c_account (d_codecs D)) (c_u128 (d_codecs D)) (public (d_ed25519 D) who) amount)"

abbreviation bal :: "('st, 'sk, 'vk) deps \<Rightarrow> 'st chain \<Rightarrow> AccountKeyring \<Rightarrow> u128" where
  "bal D ch who \<equiv> balance (rt_balances (fst ch)) (public (d_ed25519 D) who)"

abbreviation cur_nonce :: "('st, 'sk, 'vk) deps \<Rightarrow> 'st chain \<Rightarrow> AccountKeyring \<Rightarrow> u32" where
  "cur_nonce D ch who \<equiv> nonce (rt_system (fst ch)) (public (d_ed25519 D) who)"

abbreviation height :: "'st chain \<Rightarrow> u32" where
  "height ch \<equiv> block_number (rt_system (fst ch))"

definition execute_block_increments_block_number :: "('st, 'sk, 'vk) deps \<Rightarrow> 'st \<Rightarrow> unit option" where
  "execute_block_increments_block_number D s = do {
     let rt = load D s;
     let before = height rt;
     rt \<leftarrow> commit_next D [] rt;
     expected \<leftarrow> plain_add True before 1;
     assert_that (height rt = expected) }"

definition execute_block_rejects_wrong_header_number :: "('st, 'sk, 'vk) deps \<Rightarrow> 'st \<Rightarrow> unit option" where
  "execute_block_rejects_wrong_header_number D s = do {
     let rt = load D s;
     n \<leftarrow> plain_add True (height rt) 5;
     (r, rt) \<leftarrow> execute_block D \<lparr>blk_header = \<lparr>hd_block_number = n\<rparr>, blk_extrinsics = []\<rparr> rt;
     assert_that (r \<noteq> Ok_unit) }"

definition multiple_empty_blocks_advance_block_number :: "('st, 'sk, 'vk) deps \<Rightarrow> 'st \<Rightarrow> unit option" where
  "multiple_empty_blocks_advance_block_number D s = do {
     let rt = load D s;
     let start = height rt;
     rt \<leftarrow> commit_next D [] rt;
     rt \<leftarrow> commit_next D [] rt;
     rt \<leftarrow> commit_next D [] rt;
     expected \<leftarrow> plain_add True start 3;
     assert_that (height rt = expected) }"

definition single_transfer_updates_balances :: "('st, 'sk, 'vk) deps \<Rightarrow> 'st \<Rightarrow> unit option" where
  "single_transfer_updates_balances D s = do {
     let rt = give D Bob 0 (give D Alice 1000 (load D s));
     rt \<leftarrow> commit_next D [signed_transfer D Alice (cur_nonce D rt Alice) Bob 300] rt;
     assert_that (bal D rt Alice = 700);
     assert_that (bal D rt Bob = 300) }"

definition transfer_exact_balance_drains_sender :: "('st, 'sk, 'vk) deps \<Rightarrow> 'st \<Rightarrow> unit option" where
  "transfer_exact_balance_drains_sender D s = do {
     let rt = give D Bob 0 (give D Alice 500 (load D s));
     rt \<leftarrow> commit_next D [signed_transfer D Alice (cur_nonce D rt Alice) Bob 500] rt;
     assert_that (bal D rt Alice = 0);
     assert_that (bal D rt Bob = 500) }"

definition insufficient_balance_fails_dispatch_block_still_commits :: "('st, 'sk, 'vk) deps \<Rightarrow> 'st \<Rightarrow> unit option" where
  "insufficient_balance_fails_dispatch_block_still_commits D s = do {
     let rt = give D Bob 0 (give D Alice 50 (load D s));
     let before = height rt;
     rt \<leftarrow> commit_next D [signed_transfer D Alice (cur_nonce D rt Alice) Bob 9999] rt;
     expected \<leftarrow> plain_add True before 1;
     assert_that (height rt = expected);
     assert_that (bal D rt Alice = 50);
     assert_that (bal D rt Bob = 0) }"

definition two_transfers_in_one_block_from_different_senders :: "('st, 'sk, 'vk) deps \<Rightarrow> 'st \<Rightarrow> unit option" where
  "two_transfers_in_one_block_from_different_senders D s = do {
     let rt = give D Charlie 0 (give D Bob 1000 (give D Alice 1000 (load D s)));
     rt \<leftarrow> commit_next D [signed_transfer D Alice (cur_nonce D rt Alice) Charlie 100,
                          signed_transfer D Bob (cur_nonce D rt Bob) Charlie 200] rt;
     assert_that (bal D rt Alice = 900);
     assert_that (bal D rt Bob = 800);
     assert_that (bal D rt Charlie = 300) }"

definition nonce_increments_after_successful_dispatch :: "('st, 'sk, 'vk) deps \<Rightarrow> 'st \<Rightarrow> unit option" where
  "nonce_increments_after_successful_dispatch D s = do {
     let rt = give D Alice 1000 (load D s);
     let before = cur_nonce D rt Alice;
     rt \<leftarrow> commit_next D [signed_transfer D Alice before Bob 10] rt;
     expected \<leftarrow> plain_add True before 1;
     assert_that (cur_nonce D rt Alice = expected) }"

definition nonce_mismatch_extrinsic_is_skipped :: "('st, 'sk, 'vk) deps \<Rightarrow> 'st \<Rightarrow> unit option" where
  "nonce_mismatch_extrinsic_is_skipped D s = do {
     let rt = give D Bob 0 (give D Alice 1000 (load D s));
     n \<leftarrow> plain_add True (cur_nonce D rt Alice) 100;
     let wrong_nonce_ext = signed_transfer D Alice n Bob 200;
     assert_that (verify (d_ed25519 D) (d_payload D) wrong_nonce_ext = Ok_unit);
     rt \<leftarrow> commit_next D [wrong_nonce_ext] rt;
     assert_that (bal D rt Bob = 0) }"

definition sequential_nonces_across_blocks :: "('st, 'sk, 'vk) deps \<Rightarrow> 'st \<Rightarrow> unit option" where
  "sequential_nonces_across_blocks D s = do {
     let rt = give D Bob 0 (give D Alice 1000 (load D s));
     let n0 = cur_nonce D rt Alice;
     rt \<leftarrow> commit_next D [signed_transfer D Alice n0 Bob 10] rt;
     n0_1 \<leftarrow> plain_add True n0 1;
     assert_that (cur_nonce D rt Alice = n0_1);
     let n1 = cur_nonce D rt Alice;
     rt \<leftarrow> commit_next D [signed_transfer D Alice n1 Bob 10] rt;
     n0_2 \<leftarrow> plain_add True n0 2;
     assert_that (cur_nonce D rt Alice = n0_2);
     assert_that (bal D rt Bob = 20) }"

definition poe_create_claim_recorded_on_chain :: "('st, 'sk, 'vk) deps \<Rightarrow> 'st \<Rightarrow> unit option" where
  "poe_create_claim_recorded_on_chain D s = do {
     let rt = load D s;
     rt \<leftarrow> commit_next D [signed_claim D Alice (cur_nonce D rt Alice) ''rt-poe-create''] rt;
     assert_that (get_claim (rt_poe (fst rt)) ''rt-poe-create'' = Some (public (d_ed25519 D) Alice)) }"

definition poe_duplicate_claim_is_rejected_at_dispatch :: "('st, 'sk, 'vk) deps \<Rightarrow> 'st \<Rightarrow> unit option" where
  "poe_duplicate_claim_is_rejected_at_dispatch D s = do {
     let rt = load D s;
     let a_nonce = cur_nonce D rt Alice;
     let b_nonce = cur_nonce D rt Bob;
     rt \<leftarrow> commit_next D [signed_claim D Alice a_nonce ''rt-poe-duplicate''] rt;
     rt \<leftarrow> commit_next D [signed_claim D Bob b_nonce ''rt-poe-duplicate''] rt;
     assert_that (get_claim (rt_poe (fst rt)) ''rt-poe-duplicate'' = Some (public (d_ed25519 D) Alice)) }"

definition poe_revoke_allows_reclaim_by_new_owner :: "('st, 'sk, 'vk) deps \<Rightarrow> 'st \<Rightarrow> unit option" where
  "poe_revoke_allows_reclaim_by_new_owner D s = do {
     let rt = load D s;
     let a0 = cur_nonce D rt Alice;
     let b0 = cur_nonce D rt Bob;
     rt \<leftarrow> commit_next D [signed_claim D Alice a0 ''rt-poe-revoke-reclaim''] rt;
     a1 \<leftarrow> plain_add True a0 1;
     rt \<leftarrow> commit_next D [signed_revoke D Alice a1 ''rt-poe-revoke-reclaim''] rt;
     assert_that (get_claim (rt_poe (fst rt)) ''rt-poe-revoke-reclaim'' = None);
     rt \<leftarrow> commit_next D [signed_claim D Bob b0 ''rt-poe-revoke-reclaim''] rt;
     assert_that (get_claim (rt_poe (fst rt)) ''rt-poe-revoke-reclaim'' = Some (public (d_ed25519 D) Bob)) }"

definition maybe_apply_genesis_idempotent :: "('st, 'sk, 'vk) deps \<Rightarrow> 'st \<Rightarrow> unit option" where
  "maybe_apply_genesis_idempotent D s = do {
     let rt = load D s;
     let before = height rt;
     rt \<leftarrow> maybe_apply_genesis D rt;
     let after_first = height rt;
     rt \<leftarrow> maybe_apply_genesis D rt;
     assert_that (height rt = after_first);
     if before = 0 then do {
       assert_that (after_first = 1);
       assert_that (bal D rt Alice = 1000000) }
     else Some () }"

definition runtime_tests :: "('st, 'sk, 'vk) deps \<Rightarrow> 'st \<Rightarrow> unit option list" where
  "runtime_tests D s =
     [execute_block_increments_block_number D s, execute_block_rejects_wrong_header_number D s,
      multiple_empty_blocks_advance_block_number D s, single_transfer_updates_balances D s,
      transfer_exact_balance_drains_sender D s, insufficient_balance_fails_dispatch_block_still_commits D s,
      two_transfers_in_one_block_from_different_senders D s, nonce_increments_after_successful_dispatch D s,
      nonce_mismatch_extrinsic_is_skipped D s, sequential_nonces_across_blocks D s,
      poe_create_claim_recorded_on_chain D s, poe_duplicate_claim_is_rejected_at_dispatch D s,
      poe_revoke_allows_reclaim_by_new_owner D s, maybe_apply_genesis_idempotent D s]"

text \<open>What the tests need of the database they load.\<close>

definition small :: "nat \<Rightarrow> 'st chain \<Rightarrow> bool" where
  "small m ch \<longleftrightarrow> unat (height ch) + m < 2 ^ 32 \<and> (\<forall>a. unat (nonce (rt_system (fst ch)) a) + m < 2 ^ 32)"

definition room_for_tests :: "('st, 'sk, 'vk) deps \<Rightarrow> 'st \<Rightarrow> bool" where
  "room_for_tests D s \<longleftrightarrow>
     small 100 (load D s) \<and>
     (\<forall>c \<in> {''rt-poe-create'', ''rt-poe-duplicate'', ''rt-poe-revoke-reclaim''}. get_claim (rt_poe (fst (load D s))) c = None)"

section \<open>Their outcome\<close>

lemma load_simps [simp]: "runtime_wf (fst (load D s))"
  by (simp add: load_def runtime_new_def runtime_wf_def Let_def system_new_def balances_new_def balances_wf_def poe_new_def poe_wf_def)

lemma give_simps [simp]:
  "runtime_wf (fst ch) \<Longrightarrow> runtime_wf (fst (give D who amount ch))"
  "rt_system (fst (give D who amount ch)) = rt_system (fst ch)" "rt_poe (fst (give D who amount ch)) = rt_poe (fst ch)"
  "balance (rt_balances (fst (give D who amount ch))) a = (if a = public (d_ed25519 D) who then amount else balance (rt_balances (fst ch)) a)"
  "small m (give D who amount ch) = small m ch"
  by (simp_all add: give_def on_balances_alt runtime_wf_def small_def)

lemma signed_simps [simp]:
  "ext_signer (signed_transfer D k n to x) = public (d_ed25519 D) k" "ext_nonce (signed_transfer D k n to x) = n"
  "ext_call (signed_transfer D k n to x) = RC_balances (Call_transfer (public (d_ed25519 D) to) x)"
  "ext_signer (signed_claim D k n c) = public (d_ed25519 D) k" "ext_nonce (signed_claim D k n c) = n"
  "ext_call (signed_claim D k n c) = RC_proof_of_existence (Call_create_claim c)"
  "ext_signer (signed_revoke D k n c) = public (d_ed25519 D) k" "ext_nonce (signed_revoke D k n c) = n"
  "ext_call (signed_revoke D k n c) = RC_proof_of_existence (Call_revoke_claim c)"
  by (simp_all add: signed_transfer_def signed_claim_def signed_revoke_def new_signed_def public_def Let_def)

lemma signed_verified:
  assumes "ed25519_ok (d_ed25519 D)"
  shows "verified D (signed_transfer D k n to x)" "verified D (signed_claim D k n c)" "verified D (signed_revoke D k n c)"
  using assms by (simp_all add: verified_def signed_transfer_def signed_claim_def signed_revoke_def verify_new_signed)

lemma word_eq_unat: "w = v \<longleftrightarrow> unat w = unat v"
  by (metis unsigned_word_eqI)

text \<open>A block of the tests acts on the ledger.\<close>

definition after :: "('st, 'sk, 'vk) deps \<Rightarrow> ext list \<Rightarrow> 'st chain \<Rightarrow> ledger" where
  "after D exts ch = fold (ledger_ext (verified D)) exts ((ledger_of (fst ch))\<lparr>lg_height := Suc (unat (height ch))\<rparr>)"

lemma commit_nextI:
  assumes "runtime_wf (fst ch)" and "small m ch" and "length exts < m"
    and "\<And>ch'. runtime_wf (fst ch') \<Longrightarrow> small (m - Suc (length exts)) ch' \<Longrightarrow> unat (height ch') = Suc (unat (height ch)) \<Longrightarrow>
      (\<And>a. unat (nonce (rt_system (fst ch')) a) = lg_nonce (after D exts ch) a) \<Longrightarrow>
      (\<And>a. unat (balance (rt_balances (fst ch')) a) = lg_balance (after D exts ch) a) \<Longrightarrow>
      get_claim (rt_poe (fst ch')) = lg_claim (after D exts ch) \<Longrightarrow> f ch' = Some ()"
  shows "Option.bind (commit_next D exts ch) f = Some ()"
proof -
  let ?b = "\<lparr>blk_header = \<lparr>hd_block_number = height ch + 1\<rparr>, blk_extrinsics = exts\<rparr>"
  have add: "plain_add True (height ch) 1 = Some (height ch + 1)"
    using assms(2,3) by (simp add: plain_add_def small_def)
  have room: "unat (nonce (rt_system (fst ch)) a) + length (by_signer a exts) < 2 ^ 32" for a
    using assms(2,3) length_filter_le [of "\<lambda>e. ext_signer e = a" exts]
    unfolding by_signer_def small_def by (meson add_le_cancel_left le_less_trans less_imp_le)
  then obtain r ch' where ex: "execute_block D ?b ch = Some (r, ch')"
    using execute_block_total [OF assms(1), of ?b D] room assms(2,3) by (auto simp: small_def)
  have r: "r = Ok_unit" using ex by (cases rule: execute_block_SomeE) auto
  have suc: "unat (height ch + 1) = Suc (unat (height ch))"
    using assms(2,3) by (simp add: unat_word_ariths small_def)
  have "ledger_of (fst ch') = after D exts ch"
    using execute_block_refines [OF assms(1) ex] by (simp add: ledger_block_def Let_def suc after_def)
  note view = ledger_of_simps [of "fst ch'", unfolded this]
  have "small (m - Suc (length exts)) ch'"
    unfolding small_def
  proof (intro conjI allI)
    show "unat (height ch') + (m - Suc (length exts)) < 2 ^ 32"
      using assms(2,3) execute_block_number [OF ex] unfolding small_def by linarith
    show "unat (nonce (rt_system (fst ch')) a) + (m - Suc (length exts)) < 2 ^ 32" for a
    proof -
      have "unat (nonce (rt_system (fst ch')) a) \<le> unat (nonce (rt_system (fst ch)) a) + length exts"
        using execute_block_nonce_bound [OF ex, of a] length_filter_le [of "\<lambda>e. ext_signer e = a" exts]
        unfolding by_signer_def by (auto intro: order_trans)
      moreover have "unat (nonce (rt_system (fst ch)) a) + m < 2 ^ 32" using assms(2) by (simp add: small_def)
      ultimately show ?thesis using assms(3) by linarith
    qed
  qed
  then have "f ch' = Some ()"
    by (rule assms(4) [OF execute_block_wf [OF ex assms(1)] _ execute_block_number [OF ex]]) (simp_all add: view)
  then show ?thesis
    by (simp add: commit_next_def add ex r)
qed

text \<open>The facts the tests compute with.\<close>

lemma bind_plain_add:
  "unat a + unat (b :: 'w::len word) < 2 ^ LENGTH('w) \<Longrightarrow>
   Option.bind (plain_add True a b) f = f (a + b) \<and> unat (a + b) = unat a + unat b"
  by (simp add: plain_add_def unat_word_ariths)

lemma small_height: "small m ch \<Longrightarrow> unat (height ch) + m < 4294967296"
  and small_nonce: "small m ch \<Longrightarrow> unat (nonce (rt_system (fst ch)) a) + m < 4294967296"
  by (simp_all add: small_def)

lemma room_small: "room_for_tests D s \<Longrightarrow> small 100 (load D s)"
  by (simp add: room_for_tests_def)

lemma empty_block_tests:
  assumes "room_for_tests D s"
  shows "execute_block_increments_block_number D s = Some ()" and "execute_block_rejects_wrong_header_number D s = Some ()"
    and "multiple_empty_blocks_advance_block_number D s = Some ()"
proof -
  note room = room_small [OF assms] and high = small_height [OF room_small [OF assms]]
  show "execute_block_increments_block_number D s = Some ()"
    unfolding execute_block_increments_block_number_def Let_def
    by (rule commit_nextI [where m = 100]) (use room high in \<open>simp_all add: bind_plain_add word_eq_unat\<close>)
  show "multiple_empty_blocks_advance_block_number D s = Some ()"
    unfolding multiple_empty_blocks_advance_block_number_def Let_def
    by (rule commit_nextI [where m = 100], use room in \<open>simp_all\<close>, rule commit_nextI [where m = 99], simp_all,
        rule commit_nextI [where m = 98]) (use high in \<open>simp_all add: bind_plain_add word_eq_unat\<close>)
  have "height (load D s) + 5 \<noteq> height (load D s) + 1" by simp
  then show "execute_block_rejects_wrong_header_number D s = Some ()"
    using high by (simp add: execute_block_rejects_wrong_header_number_def Let_def bind_plain_add execute_block_alt)
qed

lemma transfer_tests:
  fixes D :: "('st, 'sk, 'vk) deps"
  assumes "room_for_tests D s" and "ed25519_ok (d_ed25519 D)" and "inj (public (d_ed25519 D))"
  shows "single_transfer_updates_balances D s = Some ()" and "transfer_exact_balance_drains_sender D s = Some ()"
    and "insufficient_balance_fails_dispatch_block_still_commits D s = Some ()"
    and "two_transfers_in_one_block_from_different_senders D s = Some ()"
    and "nonce_increments_after_successful_dispatch D s = Some ()"
    and "nonce_mismatch_extrinsic_is_skipped D s = Some ()" and "sequential_nonces_across_blocks D s = Some ()"
proof -
  note room = room_small [OF assms(1)]
  note range = room small_height [OF room] small_nonce [OF room, of "public (d_ed25519 D) Alice"]
  have keys: "public (d_ed25519 D) i = public (d_ed25519 D) j \<longleftrightarrow> i = j" for i j
    using assms(3) by (auto dest: injD)
  note calc = bind_plain_add word_eq_unat after_def ledger_ext_def signed_verified [OF assms(2)] keys
  note start = commit_nextI [where m = 100]
  show "single_transfer_updates_balances D s = Some ()"
    unfolding single_transfer_updates_balances_def Let_def
    by (rule start) (use range in \<open>simp_all add: calc\<close>)
  show "transfer_exact_balance_drains_sender D s = Some ()"
    unfolding transfer_exact_balance_drains_sender_def Let_def
    by (rule start) (use range in \<open>simp_all add: calc\<close>)
  show "insufficient_balance_fails_dispatch_block_still_commits D s = Some ()"
    unfolding insufficient_balance_fails_dispatch_block_still_commits_def Let_def
    by (rule start) (use range in \<open>simp_all add: calc\<close>)
  show "two_transfers_in_one_block_from_different_senders D s = Some ()"
    unfolding two_transfers_in_one_block_from_different_senders_def Let_def
    by (rule start) (use range in \<open>simp_all add: calc\<close>)
  show "nonce_increments_after_successful_dispatch D s = Some ()"
    unfolding nonce_increments_after_successful_dispatch_def Let_def
    by (rule start) (use range in \<open>simp_all add: calc\<close>)
  let ?rt = "give D Bob 0 (give D Alice 1000 (load D s))"
  let ?n = "nonce (rt_system (fst (load D s))) (public (d_ed25519 D) Alice)"
  have n: "plain_add True ?n 100 = Some (?n + 100)" "unat (?n + 100) = unat ?n + 100"
    using range by (simp_all add: plain_add_def unat_word_ariths)
  have valid: "verify (d_ed25519 D) (d_payload D) (signed_transfer D Alice (?n + 100) Bob 200) = Ok_unit"
    using signed_verified(1) [OF assms(2)] by (simp add: verified_def)
  have "Option.bind (commit_next D [signed_transfer D Alice (?n + 100) Bob 200] ?rt) (\<lambda>rt. assert_that (bal D rt Bob = 0)) = Some ()"
    by (rule start) (use range in \<open>simp_all add: calc n(2)\<close>)
  then show "nonce_mismatch_extrinsic_is_skipped D s = Some ()"
    unfolding nonce_mismatch_extrinsic_is_skipped_def Let_def by (simp add: n(1) valid)
  show "sequential_nonces_across_blocks D s = Some ()"
    unfolding sequential_nonces_across_blocks_def Let_def
  proof (rule start)
    fix ch' :: "'st chain"
    let ?exts = "[signed_transfer D Alice (cur_nonce D ?rt Alice) Bob 10]"
    assume wf: "runtime_wf (fst ch')" and small: "small (100 - Suc (length ?exts)) ch'"
      and nonces: "\<And>a. unat (nonce (rt_system (fst ch')) a) = lg_nonce (after D ?exts ?rt) a"
      and balances: "\<And>a. unat (balance (rt_balances (fst ch')) a) = lg_balance (after D ?exts ?rt) a"
    have alice: "unat (cur_nonce D ch' Alice) = Suc (unat ?n)"
      by (simp add: nonces calc)
    have "Option.bind (commit_next D [signed_transfer D Alice (cur_nonce D ch' Alice) Bob 10] ch')
        (\<lambda>rt. Option.bind (plain_add True ?n 2) (\<lambda>n2. Option.bind (assert_that (cur_nonce D rt Alice = n2)) (\<lambda>_. assert_that (bal D rt Bob = 20)))) = Some ()"
      by (rule commit_nextI [where m = 98]) (use range wf small alice in \<open>simp_all add: calc balances\<close>)
    then show "Option.bind (plain_add True (cur_nonce D ?rt Alice) 1)
        (\<lambda>n1. Option.bind (assert_that (cur_nonce D ch' Alice = n1))
          (\<lambda>_. Option.bind (commit_next D [signed_transfer D Alice (cur_nonce D ch' Alice) Bob 10] ch')
            (\<lambda>rt. Option.bind (plain_add True (cur_nonce D ?rt Alice) 2)
              (\<lambda>n2. Option.bind (assert_that (cur_nonce D rt Alice = n2)) (\<lambda>_. assert_that (bal D rt Bob = 20)))))) = Some ()"
      using range alice by (simp add: bind_plain_add word_eq_unat)
  qed (use range in simp_all)
qed

lemma claim_tests:
  fixes D :: "('st, 'sk, 'vk) deps"
  assumes "room_for_tests D s" and "ed25519_ok (d_ed25519 D)" and "inj (public (d_ed25519 D))"
  shows "poe_create_claim_recorded_on_chain D s = Some ()" and "poe_duplicate_claim_is_rejected_at_dispatch D s = Some ()"
    and "poe_revoke_allows_reclaim_by_new_owner D s = Some ()"
proof -
  note room = room_small [OF assms(1)]
  have free: "get_claim (rt_poe (fst (load D s))) ''rt-poe-create'' = None"
    "get_claim (rt_poe (fst (load D s))) ''rt-poe-duplicate'' = None"
    "get_claim (rt_poe (fst (load D s))) ''rt-poe-revoke-reclaim'' = None"
    using assms(1) by (simp_all add: room_for_tests_def)
  have keys: "public (d_ed25519 D) i = public (d_ed25519 D) j \<longleftrightarrow> i = j" for i j
    using assms(3) by (auto dest: injD)
  note calc = after_def ledger_ext_def signed_verified [OF assms(2)] keys free
  note start = commit_nextI [where m = 100] and second = commit_nextI [where m = 98] and third = commit_nextI [where m = 96]
  show "poe_create_claim_recorded_on_chain D s = Some ()"
    unfolding poe_create_claim_recorded_on_chain_def Let_def
    by (rule start) (use room in \<open>simp_all add: calc\<close>)
  show "poe_duplicate_claim_is_rejected_at_dispatch D s = Some ()"
    unfolding poe_duplicate_claim_is_rejected_at_dispatch_def Let_def
    by (rule start, use room in \<open>simp_all\<close>, rule second) (simp_all add: calc)
  have n: "plain_add True (cur_nonce D (load D s) Alice) 1 = Some (cur_nonce D (load D s) Alice + 1)"
    "unat (cur_nonce D (load D s) Alice + 1) = Suc (unat (cur_nonce D (load D s) Alice))"
    using small_nonce [OF room, of "public (d_ed25519 D) Alice"] by (simp_all add: plain_add_def unat_word_ariths)
  show "poe_revoke_allows_reclaim_by_new_owner D s = Some ()"
    unfolding poe_revoke_allows_reclaim_by_new_owner_def Let_def
  proof (rule start)
    fix ch' :: "'st chain"
    let ?n = "cur_nonce D (load D s) Alice" and ?exts = "[signed_claim D Alice (cur_nonce D (load D s) Alice) ''rt-poe-revoke-reclaim'']"
    assume wf: "runtime_wf (fst ch')" and small: "small (100 - Suc (length ?exts)) ch'"
      and nonces: "\<And>a. unat (nonce (rt_system (fst ch')) a) = lg_nonce (after D ?exts (load D s)) a"
      and claims: "get_claim (rt_poe (fst ch')) = lg_claim (after D ?exts (load D s))"
    have "Option.bind (commit_next D [signed_revoke D Alice (?n + 1) ''rt-poe-revoke-reclaim''] ch')
        (\<lambda>rt. Option.bind (assert_that (get_claim (rt_poe (fst rt)) ''rt-poe-revoke-reclaim'' = None))
          (\<lambda>_. Option.bind (commit_next D [signed_claim D Bob (cur_nonce D (load D s) Bob) ''rt-poe-revoke-reclaim''] rt)
            (\<lambda>rt. assert_that (get_claim (rt_poe (fst rt)) ''rt-poe-revoke-reclaim'' = Some (public (d_ed25519 D) Bob))))) = Some ()"
    proof (rule second)
      fix ch2 :: "'st chain"
      let ?exts2 = "[signed_revoke D Alice (?n + 1) ''rt-poe-revoke-reclaim'']"
      assume wf2: "runtime_wf (fst ch2)" and small2: "small (98 - Suc (length ?exts2)) ch2"
        and nonces2: "\<And>a. unat (nonce (rt_system (fst ch2)) a) = lg_nonce (after D ?exts2 ch') a"
        and claims2: "get_claim (rt_poe (fst ch2)) = lg_claim (after D ?exts2 ch')"
      have "Option.bind (commit_next D [signed_claim D Bob (cur_nonce D (load D s) Bob) ''rt-poe-revoke-reclaim''] ch2)
          (\<lambda>rt. assert_that (get_claim (rt_poe (fst rt)) ''rt-poe-revoke-reclaim'' = Some (public (d_ed25519 D) Bob))) = Some ()"
        by (rule third) (use wf2 small2 in \<open>simp_all add: calc n(2) nonces nonces2 claims claims2\<close>)
      then show "Option.bind (assert_that (get_claim (rt_poe (fst ch2)) ''rt-poe-revoke-reclaim'' = None))
          (\<lambda>_. Option.bind (commit_next D [signed_claim D Bob (cur_nonce D (load D s) Bob) ''rt-poe-revoke-reclaim''] ch2)
            (\<lambda>rt. assert_that (get_claim (rt_poe (fst rt)) ''rt-poe-revoke-reclaim'' = Some (public (d_ed25519 D) Bob)))) = Some ()"
        by (simp add: calc n(2) nonces claims claims2)
    qed (use wf small in simp_all)
    then show "Option.bind (plain_add True ?n 1)
        (\<lambda>a1. Option.bind (commit_next D [signed_revoke D Alice a1 ''rt-poe-revoke-reclaim''] ch')
          (\<lambda>rt. Option.bind (assert_that (get_claim (rt_poe (fst rt)) ''rt-poe-revoke-reclaim'' = None))
            (\<lambda>_. Option.bind (commit_next D [signed_claim D Bob (cur_nonce D (load D s) Bob) ''rt-poe-revoke-reclaim''] rt)
              (\<lambda>rt. assert_that (get_claim (rt_poe (fst rt)) ''rt-poe-revoke-reclaim'' = Some (public (d_ed25519 D) Bob)))))) = Some ()"
      by (simp add: n(1))
  qed (use room in simp_all)
qed

lemma genesis_test: "maybe_apply_genesis_idempotent D s = Some ()" if "inj (public (d_ed25519 D))"
proof -
  have keys: "public (d_ed25519 D) i = public (d_ed25519 D) j \<longleftrightarrow> i = j" for i j
    using that by (auto dest: injD)
  show ?thesis
  proof (cases "height (load D s) = 0")
    case True
    let ?rt = "bumped D (fund D Charlie (fund D Bob (fund D Alice (load D s))))"
    have rt: "height ?rt = 1" "bal D ?rt Alice = 1000000"
      using True by (simp_all add: bumped_def fund_def on_balances_alt keys)
    then have "maybe_apply_genesis D ?rt = Some ?rt"
      by (simp add: maybe_apply_genesis_def)
    with rt True show ?thesis
      by (simp add: maybe_apply_genesis_idempotent_def Let_def genesis_fresh)
  next
    case False
    then show ?thesis by (simp add: maybe_apply_genesis_idempotent_def Let_def maybe_apply_genesis_def)
  qed
qed

lemma runtime_tests_pass:
  assumes "room_for_tests D s" and "ed25519_ok (d_ed25519 D)" and "inj (public (d_ed25519 D))"
  shows "set (runtime_tests D s) = {Some ()}"
  by (simp add: runtime_tests_def empty_block_tests [OF assms(1)] transfer_tests [OF assms] claim_tests [OF assms]
      genesis_test [OF assms(3)])

section \<open>\<open>tests/encoding.rs\<close>\<close>

definition transfer_ext :: "('sk, 'vk) ed25519 \<Rightarrow> RuntimeCall payload_enc \<Rightarrow> u32 \<Rightarrow> ext" where
  "transfer_ext E enc n =
     (let call = RC_balances (Call_transfer (public E Bob) 100)
      in new_signed E enc (signing_key E Alice) n call)"

definition claim_ext :: "('sk, 'vk) ed25519 \<Rightarrow> RuntimeCall payload_enc \<Rightarrow> u32 \<Rightarrow> ext" where
  "claim_ext E enc n =
     (let call = RC_proof_of_existence (Call_create_claim ''test-document'')
      in new_signed E enc (signing_key E Alice) n call)"

definition block_with_extrinsics_roundtrip ::
  "('sk, 'vk) ed25519 \<Rightarrow> RuntimeCall payload_enc \<Rightarrow> runtime_block codec \<Rightarrow> unit option" where
  "block_with_extrinsics_roundtrip E enc cb = do {
     let block = \<lparr>blk_header = \<lparr>hd_block_number = 42\<rparr>, blk_extrinsics = [transfer_ext E enc 0, claim_ext E enc 1]\<rparr>;
     decoded \<leftarrow> decode cb (encode cb block);
     assert_that (hd_block_number (blk_header decoded) = 42);
     assert_that (length (blk_extrinsics decoded) = 2);
     assert_that (ext_signer (blk_extrinsics decoded ! 0) = public E Alice);
     assert_that (ext_nonce (blk_extrinsics decoded ! 0) = 0);
     assert_that (ext_nonce (blk_extrinsics decoded ! 1) = 1) }"

definition empty_block_roundtrip :: "runtime_block codec \<Rightarrow> unit option" where
  "empty_block_roundtrip cb = do {
     let block = \<lparr>blk_header = \<lparr>hd_block_number = 1\<rparr>, blk_extrinsics = []\<rparr>;
     decoded \<leftarrow> decode cb (encode cb block);
     assert_that (hd_block_number (blk_header decoded) = 1);
     assert_that (blk_extrinsics decoded = []) }"

definition extrinsic_fields_survive_encode_decode ::
  "('sk, 'vk) ed25519 \<Rightarrow> RuntimeCall payload_enc \<Rightarrow> ext codec \<Rightarrow> unit option" where
  "extrinsic_fields_survive_encode_decode E enc cx = do {
     let ext = transfer_ext E enc 7;
     decoded \<leftarrow> decode cx (encode cx ext);
     assert_that (ext_signer decoded = public E Alice);
     assert_that (ext_nonce decoded = 7);
     assert_that (ext_signature decoded = ext_signature ext) }"

definition encoded_bytes_are_deterministic ::
  "('sk, 'vk) ed25519 \<Rightarrow> RuntimeCall payload_enc \<Rightarrow> ext codec \<Rightarrow> unit option" where
  "encoded_bytes_are_deterministic E enc cx =
     assert_that (encode cx (transfer_ext E enc 3) = encode cx (transfer_ext E enc 3))"

definition different_calls_produce_different_encodings ::
  "('sk, 'vk) ed25519 \<Rightarrow> RuntimeCall payload_enc \<Rightarrow> ext codec \<Rightarrow> unit option" where
  "different_calls_produce_different_encodings E enc cx =
     assert_that (encode cx (transfer_ext E enc 0) \<noteq> encode cx (claim_ext E enc 0))"

definition fresh_extrinsic_has_valid_signature :: "('sk, 'vk) ed25519 \<Rightarrow> RuntimeCall payload_enc \<Rightarrow> unit option" where
  "fresh_extrinsic_has_valid_signature E enc = do {
     assert_that (verify E enc (transfer_ext E enc 0) = Ok_unit);
     assert_that (verify E enc (claim_ext E enc 0) = Ok_unit) }"

definition signature_survives_encode_decode_roundtrip ::
  "('sk, 'vk) ed25519 \<Rightarrow> RuntimeCall payload_enc \<Rightarrow> ext codec \<Rightarrow> unit option" where
  "signature_survives_encode_decode_roundtrip E enc cx = do {
     decoded \<leftarrow> decode cx (encode cx (transfer_ext E enc 3));
     assert_that (verify E enc decoded = Ok_unit) }"

definition tampered_nonce_invalidates_signature :: "('sk, 'vk) ed25519 \<Rightarrow> RuntimeCall payload_enc \<Rightarrow> unit option" where
  "tampered_nonce_invalidates_signature E enc = do {
     let ext = transfer_ext E enc 0;
     let ext = ext\<lparr>ext_nonce := 99\<rparr>;
     assert_that (verify E enc ext \<noteq> Ok_unit) }"

definition swapped_signer_field_invalidates_signature :: "('sk, 'vk) ed25519 \<Rightarrow> RuntimeCall payload_enc \<Rightarrow> unit option" where
  "swapped_signer_field_invalidates_signature E enc = do {
     let ext = transfer_ext E enc 0;
     let ext = ext\<lparr>ext_signer := public E Bob\<rparr>;
     assert_that (verify E enc ext \<noteq> Ok_unit) }"

definition different_nonces_produce_different_signatures ::
  "('sk, 'vk) ed25519 \<Rightarrow> RuntimeCall payload_enc \<Rightarrow> unit option" where
  "different_nonces_produce_different_signatures E enc =
     assert_that (ext_signature (transfer_ext E enc 0) \<noteq> ext_signature (transfer_ext E enc 1))"

definition different_signers_produce_different_signatures ::
  "('sk, 'vk) ed25519 \<Rightarrow> RuntimeCall payload_enc \<Rightarrow> unit option" where
  "different_signers_produce_different_signatures E enc = do {
     let ext_alice = new_signed E enc (signing_key E Alice) 0 (RC_balances (Call_transfer (public E Bob) 50));
     let ext_bob = new_signed E enc (signing_key E Bob) 0 (RC_balances (Call_transfer (public E Alice) 50));
     assert_that (ext_signature ext_alice \<noteq> ext_signature ext_bob) }"

definition verify_batch_accepts_all_valid_extrinsics ::
  "('sk, 'vk) ed25519 \<Rightarrow> RuntimeCall payload_enc \<Rightarrow> unit option" where
  "verify_batch_accepts_all_valid_extrinsics E enc = do {
     let exts = map (transfer_ext E enc) [0, 1, 2, 3, 4];
     let results = verify_batch E enc exts;
     assert_that (list_all (\<lambda>r. r = Ok_unit) results) }"

definition verify_batch_identifies_single_tampered_entry ::
  "('sk, 'vk) ed25519 \<Rightarrow> RuntimeCall payload_enc \<Rightarrow> unit option" where
  "verify_batch_identifies_single_tampered_entry E enc = do {
     let exts = map (transfer_ext E enc) [0, 1, 2, 3];
     let exts = exts[2 := (exts ! 2)\<lparr>ext_nonce := 99\<rparr>];
     let results = verify_batch E enc exts;
     assert_that (results ! 0 = Ok_unit);
     assert_that (results ! 1 = Ok_unit);
     assert_that (results ! 2 \<noteq> Ok_unit);
     assert_that (results ! 3 = Ok_unit) }"

definition verify_batch_on_empty_slice_returns_empty_vec ::
  "('sk, 'vk) ed25519 \<Rightarrow> RuntimeCall payload_enc \<Rightarrow> unit option" where
  "verify_batch_on_empty_slice_returns_empty_vec E enc = assert_that (verify_batch E enc [] = [])"

definition encoding_tests ::
  "('sk, 'vk) ed25519 \<Rightarrow> RuntimeCall payload_enc \<Rightarrow> ext codec \<Rightarrow> runtime_block codec \<Rightarrow> unit option list" where
  "encoding_tests E enc cx cb =
     [block_with_extrinsics_roundtrip E enc cb, empty_block_roundtrip cb, extrinsic_fields_survive_encode_decode E enc cx,
      encoded_bytes_are_deterministic E enc cx, different_calls_produce_different_encodings E enc cx,
      fresh_extrinsic_has_valid_signature E enc, signature_survives_encode_decode_roundtrip E enc cx,
      tampered_nonce_invalidates_signature E enc, swapped_signer_field_invalidates_signature E enc,
      different_nonces_produce_different_signatures E enc, different_signers_produce_different_signatures E enc,
      verify_batch_accepts_all_valid_extrinsics E enc, verify_batch_identifies_single_tampered_entry E enc,
      verify_batch_on_empty_slice_returns_empty_vec E enc]"

lemma test_ext_simps [simp]:
  "ext_signer (transfer_ext E enc n) = public E Alice" "ext_nonce (transfer_ext E enc n) = n"
  "ext_call (transfer_ext E enc n) = RC_balances (Call_transfer (public E Bob) 100)"
  "ext_signer (claim_ext E enc n) = public E Alice" "ext_nonce (claim_ext E enc n) = n"
  "ext_call (claim_ext E enc n) = RC_proof_of_existence (Call_create_claim ''test-document'')"
  by (simp_all add: transfer_ext_def claim_ext_def new_signed_def public_def Let_def)

lemma test_ext_verify:
  "ed25519_ok E \<Longrightarrow> verify E enc (transfer_ext E enc n) = Ok_unit" "ed25519_ok E \<Longrightarrow> verify E enc (claim_ext E enc n) = Ok_unit"
  by (simp_all add: transfer_ext_def claim_ext_def verify_new_signed)

lemma codec_inject: "codec_ok c \<Longrightarrow> encode c x = encode c y \<longleftrightarrow> x = y"
  by (metis codec_ok_def option.inject)

lemma round_trip_tests:
  assumes "ed25519_ok E" and "codec_ok cx" and "codec_ok cb"
  shows "block_with_extrinsics_roundtrip E enc cb = Some ()" and "empty_block_roundtrip cb = Some ()"
    and "extrinsic_fields_survive_encode_decode E enc cx = Some ()" and "encoded_bytes_are_deterministic E enc cx = Some ()"
    and "different_calls_produce_different_encodings E enc cx = Some ()"
    and "signature_survives_encode_decode_roundtrip E enc cx = Some ()"
proof -
  have "transfer_ext E enc 0 \<noteq> claim_ext E enc 0"
    using test_ext_simps(3,6) by (metis RuntimeCall.distinct(1))
  then show "different_calls_produce_different_encodings E enc cx = Some ()"
    by (simp add: different_calls_produce_different_encodings_def codec_inject [OF assms(2)])
qed (use assms in \<open>simp_all add: block_with_extrinsics_roundtrip_def empty_block_roundtrip_def
      extrinsic_fields_survive_encode_decode_def encoded_bytes_are_deterministic_def
      signature_survives_encode_decode_roundtrip_def codec_ok_def test_ext_verify Let_def\<close>)

text \<open>The nonces and calls these tests sign or forge.\<close>

definition nonce_calls :: "('sk, 'vk) ed25519 \<Rightarrow> (u32 \<times> RuntimeCall) list" where
  "nonce_calls E = map (\<lambda>n. (n, RC_balances (Call_transfer (public E Bob) 100))) [0, 1, 2, 99]"

definition signer_calls :: "('sk, 'vk) ed25519 \<Rightarrow> (u32 \<times> RuntimeCall) list" where
  "signer_calls E = map (\<lambda>to. (0, RC_balances (Call_transfer (public E to) 50))) [Bob, Alice]"

lemma signature_tests:
  assumes "ed25519_ok E" and "no_forgery E enc (nonce_calls E)" and "no_forgery E enc (signer_calls E)"
  shows "tampered_nonce_invalidates_signature E enc = Some ()" and "swapped_signer_field_invalidates_signature E enc = Some ()"
    and "different_nonces_produce_different_signatures E enc = Some ()"
    and "different_signers_produce_different_signatures E enc = Some ()"
    and "verify_batch_identifies_single_tampered_entry E enc = Some ()"
proof -
  note alter = altered_rejected [OF assms(2)] and differ = signatures_differ [OF assms(2,1)]
  let ?call = "RC_balances (Call_transfer (public E Bob) 100)"
  have calls: "(n, ?call) \<in> set (nonce_calls E)" if "n \<in> {0, 1, 2, 99}" for n
    using that by (auto simp: nonce_calls_def)
  have nonce: "verify E enc ((transfer_ext E enc n)\<lparr>ext_nonce := 99\<rparr>) \<noteq> Ok_unit" if "n = 0 \<or> n = 2" for n
    using that alter [OF calls calls, of 99 n "(transfer_ext E enc n)\<lparr>ext_nonce := 99\<rparr>" Alice Alice]
    by (auto simp: transfer_ext_def new_signed_fields(1) new_signed_call public_def)
  have signer: "verify E enc ((transfer_ext E enc 0)\<lparr>ext_signer := public E Bob\<rparr>) \<noteq> Ok_unit"
    using alter [OF calls calls, of 0 0 "(transfer_ext E enc 0)\<lparr>ext_signer := public E Bob\<rparr>" Bob Alice]
    by (auto simp: transfer_ext_def new_signed_fields(2) new_signed_call)
  have nonces: "ext_signature (transfer_ext E enc 0) \<noteq> ext_signature (transfer_ext E enc 1)"
    using differ [OF calls calls, of 0 1 Alice Alice] by (auto simp: transfer_ext_def)
  have signers: "ext_signature (new_signed E enc (signing_key E Alice) 0 (RC_balances (Call_transfer (public E Bob) 50))) \<noteq>
      ext_signature (new_signed E enc (signing_key E Bob) 0 (RC_balances (Call_transfer (public E Alice) 50)))"
    using signatures_differ [OF assms(3,1), of 0 "RC_balances (Call_transfer (public E Bob) 50)"
        0 "RC_balances (Call_transfer (public E Alice) 50)" Alice Bob]
    by (auto simp: signer_calls_def)
  show "tampered_nonce_invalidates_signature E enc = Some ()" "swapped_signer_field_invalidates_signature E enc = Some ()"
    "different_nonces_produce_different_signatures E enc = Some ()"
    "different_signers_produce_different_signatures E enc = Some ()"
    using nonce signer nonces signers
    by (simp_all add: tampered_nonce_invalidates_signature_def swapped_signer_field_invalidates_signature_def
        different_nonces_produce_different_signatures_def different_signers_produce_different_signatures_def Let_def)
  show "verify_batch_identifies_single_tampered_entry E enc = Some ()"
    using nonce [of 2] assms(1)
    by (simp add: verify_batch_identifies_single_tampered_entry_def verify_batch_def test_ext_verify numeral_3_eq_3
        numeral_2_eq_2 Let_def)
qed

lemma encoding_tests_pass:
  assumes "ed25519_ok E" and "no_forgery E enc (nonce_calls E)" and "no_forgery E enc (signer_calls E)"
    and "codec_ok cx" and "codec_ok cb"
  shows "set (encoding_tests E enc cx cb) = {Some ()}"
  using assms(1)
  by (simp add: encoding_tests_def round_trip_tests [OF assms(1,4,5)] signature_tests [OF assms(1-3)]
      fresh_extrinsic_has_valid_signature_def verify_batch_accepts_all_valid_extrinsics_def
      verify_batch_on_empty_slice_returns_empty_vec_def verify_batch_def test_ext_verify Let_def)

text \<open>The scheme of the unit tests meets what these tests ask.\<close>

lemma plain_encoding_tests:
  "no_forgery plain_ed25519 ref_payload (nonce_calls plain_ed25519)" "no_forgery plain_ed25519 ref_payload (signer_calls plain_ed25519)"
proof -
  have payload: "ref_payload = (\<lambda>(a, m). arr32_list a @ (case m of (n, c) \<Rightarrow> word_enc 4 n @ call_enc c))"
    by (simp add: ref_payload_def fun_eq_iff)
  show "no_forgery plain_ed25519 ref_payload (nonce_calls plain_ed25519)"
    unfolding payload by (rule plain_no_forgery) (auto simp: nonce_calls_def)
  have accounts: "take 1 (arr32_list (seed Alice)) \<noteq> take 1 (arr32_list (seed Bob))"
    by (simp add: seed_def arr_list_of keyring_name_def byte_str_def byte_of_def)
  show "no_forgery plain_ed25519 ref_payload (signer_calls plain_ed25519)"
    unfolding payload
    by (rule plain_no_forgery) (use accounts accounts [symmetric] in \<open>auto simp: signer_calls_def account_enc_def\<close>)
qed

end
