(* ===== verification/Spec2Isabelle.thy ===== *)
theory Spec2Isabelle
  imports Deployment Author_Rounds Restarts End_To_End Macro_Expansion Integration_Tests
begin

text \<open>
  A verification library for the minimal blockchain of this repository: a runtime of three
  pallets, generated by two attribute macros, on a key-value store; a peer-to-peer node that
  gathers signed extrinsics in a mempool, authors blocks in turn and follows its peers; and
  a command line.

  \<^bold>\<open>The program and its model.\<close>

  \<^item> \<open>BTree_Map\<close>: \<open>std::collections::BTreeMap\<close> as the ordered list of its entries.
  \<^item> \<open>Key_Value_Store\<close> (\<open>src/support.rs\<close>): the trait \<open>KeyValueStore\<close> as a record of its
    methods, \<open>MemStore\<close> (\<open>mem_store\<close>), \<open>RocksDbStore\<close> (\<open>rocks_store\<close>) and the database
    path cell (\<open>init_db_path\<close>).
  \<^item> \<open>System_Pallet\<close>, \<open>Balances_Pallet\<close>, \<open>Proof_Of_Existence\<close> (\<open>src/system.rs\<close>,
    \<open>src/balances.rs\<close>, \<open>src/proof_of_existence.rs\<close>): each pallet as a record and one
    definition per method. Every method that writes takes and returns the pallet and the
    store, because the program writes through to the store. The \<open>Call\<close> enums and
    \<open>Dispatch\<close> implementations are those \<open>macros/src/call/expand.rs\<close> generates.
  \<^item> \<open>Dispatching\<close>: the trait \<open>Dispatch\<close> as the interface \<open>dispatcher\<close>.
  \<^item> \<open>Extrinsics\<close> (\<open>src/support.rs\<close>): accounts, headers, blocks, signed extrinsics,
    \<open>new_signed\<close>, \<open>verify\<close>, \<open>verify_batch\<close>, the dev keyring.
  \<^item> \<open>Runtime\<close> (\<open>src/lib.rs\<close>, \<open>macros/src/runtime/expand.rs\<close>): the runtime struct,
    \<open>RuntimeCall\<close>, \<open>dispatch\<close>, \<open>new\<close>, \<open>execute_block\<close>, genesis. A \<open>chain\<close> is the pair of
    the runtime and its store.
  \<^item> \<open>Mempool\<close> (\<open>src/support.rs\<close>): every operation, and histories of operations.
  \<^item> \<open>Unicode_Text\<close>, \<open>Text_Format\<close>: UTF-8, \<open>trim\<close>, printing and parsing of \<open>u32\<close>,
    hexadecimal. \<open>Debug_Format\<close> (\<open>src/support.rs\<close> and the derived implementations): the
    \<open>Debug\<close> output of the runtime on the builders of the standard library.
  \<^item> \<open>Node\<close> (\<open>src/node.rs\<close>, \<open>src/network.rs\<close>): the slots (\<open>is_my_slot\<close>), the RPC handlers,
    \<open>produce_block\<close>, and the two event loops as the step relations \<open>task_step\<close> and
    \<open>node_step\<close> over the shared runtime, mempool, peer list and channels.
  \<^item> \<open>Server\<close> (\<open>src/node.rs\<close>, \<open>src/network.rs\<close>): \<open>build_swarm\<close>, the set-up of \<open>run\<close> with
    its error paths, the alignment of the ticker, the routes of the RPC server.
  \<^item> \<open>Cli\<close> (\<open>src/main.rs\<close>): \<open>main\<close> with its five commands over a map of databases by
    path (\<open>cli_main\<close>), the two submissions, the demo scenario.
  \<^item> \<open>Macro_Parsing\<close>, \<open>Macro_Expansion\<close> (\<open>macros/src\<close>): what the macros accept, the enums
    and \<open>match\<close> arms they generate, with an evaluator, and their entry points.
  \<^item> \<open>Unit_Tests\<close>, \<open>Integration_Tests\<close>: the unit tests of the four source files that have any
    and the two test binaries under \<open>tests/\<close>, as computations on the model.

  The other theories hold facts and specifications: \<open>Block_Execution\<close> (what a block does to
  the runtime in memory), \<open>Chain\<close> (the runtime and its store over the life of a node, with
  restarts), \<open>Crash\<close> (the same runtime on a store that loses all writes after the first
  \<open>n\<close>), \<open>Ledger_Spec\<close> (the abstract ledger and the refinement), \<open>Node_Facts\<close> (batches,
  gossip, authorship, reachable states), \<open>Network\<close> (any number of nodes with messages in
  flight), \<open>Faulty_Network\<close> (the same with nodes that are killed at any write and come back),
  \<open>Synchronous\<close> (a schedule in which what is published reaches everybody before the next
  slot, and the proof that it is a run of \<open>Network\<close>), \<open>Progress\<close> (what a committee achieves
  under it), \<open>Author_Rounds\<close> (blocks with bad signatures, several productions of one author), \<open>Restarts\<close> (members that restart or join late), \<open>Deployment\<close> (crashes, client and server, the commands), \<open>End_To_End\<close> (from a
  command to every chain). \<open>Scale_Reference\<close>,
  \<open>Reference_Deps\<close> and \<open>Reference_Node\<close> are concrete instances of the parameters, used by the witnesses.

  \<^bold>\<open>How the components fit together.\<close> The pallets rely on the store through the locale
  \<open>reliable_store\<close>, whose lemmas on \<open>storage_map\<close> say how the keys under one prefix mirror a
  map in memory; \<open>mem_store\<close> interprets it, and \<open>rocks_store\<close> satisfies it whenever the
  database handle does what its documentation says (\<open>rocks_healthy\<close>). The block executor
  relies on \<open>dispatcher\<close>, which the two pallets with calls and the runtime interpret.
  \<open>host\<close> adds the codecs to the store, \<open>runtime_host\<close> puts the whole runtime on it. The node
  relies on \<open>fifo_pool\<close>, interpreted by the mempool. The command line relies on
  \<open>nonce_service\<close>, which the server of a node provides (\<open>served_node\<close>). What a network
  keeps of the history of each runtime follows the contract \<open>net_history\<close>, and with restarts
  and crashes \<open>crash_history\<close>: a relation between the initial runtime, what was handed to RPC
  servers and the runtime now that every block keeps; \<open>ran\<close> (which blocks were executed) and
  \<open>durable\<close> (what was charged) provide them. \<open>committee\<close> says which nodes can run in step: they
  agree on codecs, topics and signatures; \<open>lockstep\<close> adds a relation on runtimes that blocks
  keep, and a committee is one for equality and for \<open>same_core\<close>, equality up to the claims.

  \<^bold>\<open>Conventions.\<close> Integers are words of their width; balances are \<open>u128\<close>, block numbers and
  nonces \<open>u32\<close>, slots \<open>u64\<close>. A panic is the value \<open>None\<close> of an \<open>option\<close>; a
  \<open>DispatchResult\<close> is a sum with the message on the left. Strings and contents are byte
  strings in byte order, as Rust compares them. Every loop of the program that is modelled
  runs over a list, so all functions are total and no fuel is used; the event loops, which
  never end, are step relations. The theorems on totality carry the bounds at which the
  program panics: the height and the nonces below \<open>u32::MAX\<close>.

  \<^bold>\<open>Parameters.\<close> What the program takes from outside the repository is an argument of the
  model: the RocksDB handle, the SCALE encodings (\<open>codec_ok\<close>: decoding gives back what was
  encoded), Ed25519 (\<open>ed25519_ok\<close>: an honest signature verifies; \<open>inj (public ..)\<close> where
  distinct dev accounts matter), the hex decoder, the hash of a gossip topic, the iteration
  order of \<open>HashMap\<close>, the wall clock, peer identifiers, the HTTP client, libp2p (\<open>libp2p\<close>),
  the path matcher of axum (\<open>routes_ok\<close>), the file system (\<open>host_env\<close>), the parser of \<open>syn\<close>,
  the table of printable characters. No theorem assumes that signatures cannot be forged:
  \<open>tampering_needs_forgery\<close> says which forgery an altered extrinsic would need.

  \<^bold>\<open>What is shown.\<close>

  \<^item> Runtime: a restart recovers the state, except claims, and later blocks cannot tell the
    difference; the runtime refines the abstract ledger; no extrinsic is applied twice; only
    owners spend or revoke; the supply grows only by transfers to oneself; a block never
    panics within range; replicas agree.
  \<^item> Node: what an author publishes, and that the runtime applies of it, signer by signer,
    what stands before the first bad signature; a follower in the same state
    ends in the author's state; a batch is for each signer the longest run of consecutive
    nonces; exactly one author per slot among nodes that know each other, each author gets
    its turn; the invariant of all reachable node states; the nonce handler gives the next
    usable nonce, from which the extrinsic reaches a block behind the account's others; eviction by peer blocks.
  \<^item> Crashes: what a restart finds after the process died at any write of a block or of the
    genesis, and what that can cost.
  \<^item> Network: whatever is gossiped in whatever order, nothing happens on any node that its
    owner did not sign and hand to some RPC server; what becomes of two authors in one slot and of the blocks after them;
    even with nodes that die at any write and restart, no signed transfer is charged twice.
  \<^item> Synchrony: nodes that know each other, share a clock and hear each other before the next
    slot never stop, never fork, and apply everything that is submitted with the next nonces,
    three extrinsics a slot; a command run against one of them reaches every chain. Members
    that restart keep the agreement on heights, nonces and balances, not on claims.
  \<^item> Deployment: a submission travels from the command line through the server into the
    queue of the mempool; a failed start can be repeated; the state dump tells states apart.
  \<^item> Macros: exactly what is accepted; which generated arms are well typed; the generated
    dispatch routes every call; the dispatch of the model is the one generated from the repository's sources.
  \<^item> Pallets: every branch of every call, and when a claim reaches the disk.
  \<^item> Mempool, genesis, local submissions, demo: the contracts of each. The model passes the
    unit tests and the integration tests; those of the runtime on any database whose height
    and nonces leave room and that does not hold the claims they create.

  Several theorems state behaviour the authors may not have meant, as the code has it: a
  transfer to oneself mints (\<open>self_transfer_mints\<close>), a claim below a held one is not
  persisted (\<open>create_claim_durable_iff\<close>), a rejected block still advances the height
  (\<open>rejected_block_advances_height\<close>), a stale nonce holds up its signer's other extrinsics
  (\<open>stale_nonce_blocks_signer\<close>), so does a forged extrinsic (\<open>produced_block_applied\<close>), a failed call costs a nonce (\<open>failed_call_costs_nonce\<close>), a
  crash between the two writes of a transfer burns the amount (\<open>crash_burns_amount\<close>), a fork
  goes unnoticed (\<open>fork_goes_unnoticed\<close>), so does a difference in claims after a restart
  (\<open>restart_splits_claims\<close>), a node that joins late never catches up (\<open>late_joiner_stuck\<close>), a call argument named \<open>caller\<close> replaces the signer
  (\<open>generated_dispatch_routes\<close>), the nonce handler does not see queued extrinsics
  (\<open>nonce_ignores_queue\<close>), \<open>reset\<close> reports success when it failed
  (\<open>reset_failure_reported_deleted\<close>).

  \<^bold>\<open>Not modelled.\<close> The \<open>clap\<close> parser (a command is a value of \<open>Commands\<close>); the inside of
  libp2p, axum and tokio; log output on the console of a running node; the quoted text of the
  macros as tokens (it is modelled as the tree it stands for). The tests that expect a tampered
  or second signature to differ rest on the strength of Ed25519: they pass for every scheme
  that accepts none of the few forgeries they try (\<open>no_forgery\<close>). Tasks of a node interleave
  at the granularity of one
  branch of an event loop, except that a tick, which reads the peer list twice, is two steps.
  Writes to the store are atomic one by one, and a crash loses a suffix of them.

  \<^bold>\<open>Plan.\<close> Next: progress of a committee whose queue holds extrinsics out of order or whose
  members restart while extrinsics are pending; what a submission of two extrinsics with the
  same nonce to two members leads to.
\<close>

section \<open>The runtime\<close>

text \<open>C1: A node that restarts finds its state again. In every state a node can reach by booting
  on an empty store, genesis, blocks, direct balance writes and earlier restarts, loading
  the runtime from the store gives exactly the same block number, nonces and balances, and
  no claim that was not held. The store is one that keeps the contract of \<open>reliable_store\<close>
  and the codecs decode what they encoded.\<close>

theorem restart_recovers_state:
  assumes "runtime_host D I" and "chain_reach D I (rt, s)"
  shows "rt_system (runtime_new D s) = rt_system rt \<and> rt_balances (runtime_new D s) = rt_balances rt \<and>
         get_claim (rt_poe (runtime_new D s)) \<subseteq>\<^sub>m get_claim (rt_poe rt)"
  using runtime_host.restart_exact [OF assms(1) runtime_host.reach_synced [OF assms]] by blast

theorem restart_recovers_state_witness:
  "\<exists>rt s. chain_reach ref_deps bt_wf (rt, s) \<and> rt_system (runtime_new ref_deps s) = rt_system rt \<and>
     rt_balances (runtime_new ref_deps s) = rt_balances rt \<and> block_number (rt_system rt) = 1 \<and>
     balance (rt_balances (runtime_new ref_deps s)) (public ref_ed25519 Bob) = 1000000"
proof -
  obtain rt s where start: "ref_start = (rt, s)" by (cases ref_start)
  have "chain_reach ref_deps bt_wf (rt, s)" using ref_start_reach start by simp
  with restart_recovers_state [OF ref_runtime_host this] ref_start_simps show ?thesis
    unfolding start by (intro exI [of _ rt] exI [of _ s]) simp
qed

text \<open>C3: No extrinsic is applied twice, over any run of blocks and whatever the blocks contain:
  the applied extrinsics have pairwise different (signer, nonce), and those of one signer
  carry exactly the consecutive nonces from the account's nonce before the run to its nonce
  after it.\<close>

theorem no_replay:
  assumes "run_blocks D bs ch = Some ch'"
  shows "distinct (map (\<lambda>e. (ext_signer e, ext_nonce e)) (applied_run D bs ch)) \<and>
         map (\<lambda>e. unat (ext_nonce e)) (by_signer a (applied_run D bs ch)) =
           [nonce_of ch a ..< nonce_of ch' a]"
proof -
  have nonces: "map (\<lambda>e. unat (ext_nonce e)) (by_signer a (applied_run D bs ch)) = [nonce_of ch a ..< nonce_of ch' a]"
    for a using run_blocks_nonces [OF assms] by blast
  moreover have "distinct (map (\<lambda>e. (ext_signer e, ext_nonce e)) (applied_run D bs ch))"
    by (rule distinct_by_signer) (simp add: nonces)
  ultimately show ?thesis by blast
qed

theorem no_replay_witness:
  "\<exists>ch'. run_blocks ref_deps [ref_block 2 [ref_ext Alice 0 (RC_proof_of_existence (Call_create_claim ''doc''))],
                              ref_block 3 [ref_ext Alice 0 (RC_proof_of_existence (Call_create_claim ''doc''))]]
           ref_start = Some ch' \<and>
     distinct (map (\<lambda>e. (ext_signer e, ext_nonce e))
       (applied_run ref_deps [ref_block 2 [ref_ext Alice 0 (RC_proof_of_existence (Call_create_claim ''doc''))],
                              ref_block 3 [ref_ext Alice 0 (RC_proof_of_existence (Call_create_claim ''doc''))]] ref_start))"
  (is "\<exists>ch'. run_blocks ref_deps ?bs ref_start = Some ch' \<and> _")
proof -
  obtain ch' where "run_blocks ref_deps ?bs ref_start = Some ch'"
    by (rule ref_run [of ?bs]) simp_all
  with no_replay [OF this] show ?thesis by blast
qed

text \<open>C17: Executing a block never panics while the block number and the nonces of its signers are
  within range, whatever the block contains; it advances the height by one, keeps the
  runtime well formed and succeeds exactly when the header carries the next height.\<close>

theorem block_execution_total:
  assumes "runtime_wf (fst ch)" and "unat (block_number (rt_system (fst ch))) < 2 ^ 32 - 1"
    and "\<And>a. nonce_of ch a + length (by_signer a (blk_extrinsics b)) < 2 ^ 32"
  shows "\<exists>r ch'. execute_block D b ch = Some (r, ch') \<and> runtime_wf (fst ch') \<and>
    unat (block_number (rt_system (fst ch'))) = Suc (unat (block_number (rt_system (fst ch)))) \<and>
    (r = Ok_unit \<longleftrightarrow> hd_block_number (blk_header b) = block_number (rt_system (fst ch)) + 1)"
proof -
  obtain r ch' where ex: "execute_block D b ch = Some (r, ch')"
    using execute_block_total [OF assms] by blast
  then have "r = Ok_unit \<longleftrightarrow> hd_block_number (blk_header b) = block_number (rt_system (fst ch)) + 1"
    by (cases rule: execute_block_SomeE) auto
  with ex execute_block_wf [OF ex assms(1)] execute_block_number [OF ex] show ?thesis by blast
qed

theorem block_execution_total_witness:
  "\<exists>ch'. execute_block ref_deps (ref_block 2 [ref_ext Bob 7 (RC_balances (Call_transfer (public ref_ed25519 Alice) 5))])
     ref_start = Some (Ok_unit, ch') \<and> unat (block_number (rt_system (fst ch'))) = 2"
  using block_execution_total [of ref_start
      "ref_block 2 [ref_ext Bob 7 (RC_balances (Call_transfer (public ref_ed25519 Alice) 5))]" ref_deps,
      OF _ _ ref_nonce_room]
  by auto

text \<open>C16: Blocks create no money, except through transfers to oneself: over any run of blocks the
  sum of all balances never shrinks and grows by no more than the amounts of the
  extrinsics whose recipient is their signer.\<close>

theorem token_supply:
  assumes "run_blocks D bs ch = Some ch'" and "runtime_wf (fst ch)"
  shows "issuance ch \<le> issuance ch' \<and>
         issuance ch' \<le> issuance ch + sum_list (map self_amount (concat (map blk_extrinsics bs)))"
  using assms by (rule run_blocks_issuance)

theorem token_supply_witness:
  "\<exists>ch'. run_blocks ref_deps [ref_block 2 [ref_ext Alice 0 (RC_balances (Call_transfer (public ref_ed25519 Bob) 5))]]
     ref_start = Some ch' \<and> issuance ch' = issuance ref_start"
  (is "\<exists>ch'. run_blocks ref_deps ?bs ref_start = Some ch' \<and> _")
proof -
  obtain ch' where "run_blocks ref_deps ?bs ref_start = Some ch'"
    by (rule ref_run [of ?bs]) simp_all
  with token_supply [OF this] show ?thesis by (auto simp: self_amount_def)
qed

text \<open>Only the owner can spend: if a block lowers the balance of an account, the block holds a
  transfer signed by that account whose signature verifies.\<close>

lemma balance_authorization:
  assumes "execute_block D b ch = Some (r, ch')" and "runtime_wf (fst ch)"
    and "unat (balance (rt_balances (fst ch')) a) < unat (balance (rt_balances (fst ch)) a)"
  shows "\<exists>e to amount. e \<in> set (blk_extrinsics b) \<and> ext_signer e = a \<and>
    verify (d_ed25519 D) (d_payload D) e = Ok_unit \<and> ext_call e = RC_balances (Call_transfer to amount)"
proof (rule ccontr)
  let ?P = "\<lambda>e. ext_signer e = a \<and> (\<exists>to amount. ext_call e = RC_balances (Call_transfer to amount))"
  assume "\<not> ?thesis"
  then have "spared D ?P (blk_extrinsics b)" by (auto simp: spared_def)
  then have "unat (balance (rt_balances (fst ch)) a) \<le> unat (balance (rt_balances (fst ch')) a)"
    by (rule execute_block_lift [OF assms(1,2), where
          R = "\<lambda>rt rt'. unat (balance (rt_balances rt) a) \<le> unat (balance (rt_balances rt') a)"])
      (auto dest: dispatch_spends)
  with assms(3) show False by simp
qed

lemma balance_authorization_witness:
  "\<exists>ch'. execute_block ref_deps
       (ref_block 2 [ref_ext Alice 0 (RC_balances (Call_transfer (public ref_ed25519 Bob) 5))]) ref_start =
       Some (Ok_unit, ch') \<and>
     balance (rt_balances (fst ch')) (public ref_ed25519 Alice) = 999995 \<and>
     (\<exists>e. ext_signer e = public ref_ed25519 Alice \<and> verify ref_ed25519 ref_payload e = Ok_unit)"
proof -
  obtain ch' where ex: "execute_block ref_deps
      (ref_block 2 [ref_ext Alice 0 (RC_balances (Call_transfer (public ref_ed25519 Bob) 5))]) ref_start =
      Some (Ok_unit, ch')"
    and bal: "balance (rt_balances (fst ch')) (public ref_ed25519 Alice) = 999995"
    by (rule ref_transfer)
  have "unat (balance (rt_balances (fst ch')) (public ref_ed25519 Alice)) <
        unat (balance (rt_balances (fst ref_start)) (public ref_ed25519 Alice))"
    by (simp add: bal)
  from balance_authorization [OF ex ref_wf(2) this] ex bal show ?thesis
    unfolding ref_deps_simps by blast
qed

text \<open>Only the owner can give up a claim: if a claim held by an account is gone or has
  changed hands after a block, the block holds a revocation of it signed by that account
  whose signature verifies.\<close>

lemma claim_authorization:
  assumes "execute_block D b ch = Some (r, ch')" and "runtime_wf (fst ch)"
    and "get_claim (rt_poe (fst ch)) c = Some a" and "get_claim (rt_poe (fst ch')) c \<noteq> Some a"
  shows "\<exists>e. e \<in> set (blk_extrinsics b) \<and> ext_signer e = a \<and>
    verify (d_ed25519 D) (d_payload D) e = Ok_unit \<and>
    ext_call e = RC_proof_of_existence (Call_revoke_claim c)"
proof (rule ccontr)
  let ?P = "\<lambda>e. ext_signer e = a \<and> ext_call e = RC_proof_of_existence (Call_revoke_claim c)"
  assume "\<not> ?thesis"
  then have "spared D ?P (blk_extrinsics b)" by (auto simp: spared_def)
  then have "get_claim (rt_poe (fst ch)) c = Some a \<longrightarrow> get_claim (rt_poe (fst ch')) c = Some a"
    by (rule execute_block_lift [OF assms(1,2), where
          R = "\<lambda>rt rt'. get_claim (rt_poe rt) c = Some a \<longrightarrow> get_claim (rt_poe rt') c = Some a"])
      (auto simp: runtime_wf_def intro: dispatch_claim_kept)
  with assms(3,4) show False by simp
qed

lemma claim_authorization_witness:
  "\<exists>ch ch'. get_claim (rt_poe (fst ch)) ''doc'' = Some (public ref_ed25519 Alice) \<and>
     execute_block ref_deps (ref_block 2 [ref_ext Alice 0 (RC_proof_of_existence (Call_revoke_claim ''doc''))]) ch =
       Some (Ok_unit, ch') \<and> get_claim (rt_poe (fst ch')) ''doc'' = None \<and>
     (\<exists>e. ext_signer e = public ref_ed25519 Alice \<and> verify ref_ed25519 ref_payload e = Ok_unit)"
proof -
  let ?a = "public ref_ed25519 Alice" and ?call = "RC_proof_of_existence (Call_revoke_claim ''doc'')"
  let ?ch = "((fst ref_start)\<lparr>rt_poe := \<lparr>poe_claims = [(''doc'', ?a)]\<rparr>\<rparr>, snd ref_start)"
  have held: "get_claim (rt_poe (fst ?ch)) ''doc'' = Some ?a" by simp
  have wf: "runtime_wf (fst ?ch)"
    using ref_wf(2) by (simp add: runtime_wf_def poe_wf_def bt_wf_def)
  have sys: "rt_system (fst ?ch) = rt_system (fst ref_start)" by simp
  obtain ch1 r ch' where ex: "execute_block ref_deps (ref_block 2 [ref_ext Alice 0 ?call]) ?ch = Some (Ok_unit, ch')"
    and dis: "runtime_dispatch ref_deps ?a ?call ch1 = Some (r, ch')" and poe: "rt_poe (fst ch1) = rt_poe (fst ?ch)"
    using ref_single [OF wf sys, of Alice ?call] by blast
  have "get_claim (rt_poe (fst ch')) ''doc'' = None"
    using dis poe by (cases rule: revoke_claim_cases [of "(rt_poe (fst ch1), snd ch1)" "''doc''" mem_store
          "c_content ref_codecs" ?a]) (auto simp: bt_remove_def)
  moreover from this have "get_claim (rt_poe (fst ch')) ''doc'' \<noteq> Some ?a" by simp
  from claim_authorization [OF ex wf held this] have
    "\<exists>e. ext_signer e = ?a \<and> verify ref_ed25519 ref_payload e = Ok_unit"
    unfolding ref_deps_simps by blast
  ultimately show ?thesis using held ex by blast
qed

text \<open>C14: Replicas agree. Two nodes with the same runtime state that execute the same blocks, each
  on its own store, with its own codecs and storage failures, go through the same runtime
  states: they both panic or both end in the same one.\<close>

theorem replicas_agree:
  assumes "same_crypto D D'" and "fst ch = fst ch'"
  shows "map_option fst (run_blocks D bs ch) = map_option fst (run_blocks D' bs ch')"
  using assms by (rule run_blocks_agree)

theorem replicas_agree_witness:
  "map_option fst (run_blocks ref_deps [ref_block 2 [ref_ext Alice 0 (RC_balances (Call_transfer (public ref_ed25519 Bob) 5))]]
     ref_start) =
   map_option fst (run_blocks \<lparr>d_kv = rocks_store assoc_rocksdb, d_codecs = ref_codecs, d_ed25519 = ref_ed25519,
       d_payload = ref_payload\<rparr>
     [ref_block 2 [ref_ext Alice 0 (RC_balances (Call_transfer (public ref_ed25519 Bob) 5))]] (fst ref_start, []))"
  by (rule replicas_agree) (simp_all add: same_crypto_def)

text \<open>C13: A restart changes nothing that later blocks do to nonces, height and balances. From any
  reachable state, executing further blocks on the running node and on one restarted from
  its store either panics in both cases or ends with the same system and balances pallets,
  even where the restart lost claims.\<close>

theorem restart_transparent:
  assumes "runtime_host D I" and "chain_reach D I (rt, s)"
  shows "map_option (\<lambda>ch. (rt_system (fst ch), rt_balances (fst ch))) (run_blocks D bs (runtime_new D s, s)) =
         map_option (\<lambda>ch. (rt_system (fst ch), rt_balances (fst ch))) (run_blocks D bs (rt, s))"
proof -
  note synced = runtime_host.reach_synced [OF assms]
  have "chain_reach D I (runtime_new D s, s)"
    using assms(2) by (rule chain_reach.restart)
  then have "runtime_wf (runtime_new D s)"
    using chain_synced_wf [OF runtime_host.reach_synced [OF assms(1)]] by force
  then have "same_core (fst (runtime_new D s, s)) (fst (rt, s))"
    using runtime_host.restart_exact [OF assms(1) synced] chain_synced_wf [OF synced]
    by (simp add: same_core_def)
  then have "rel_option (\<lambda>x y. same_core (fst x) (fst y)) (run_blocks D bs (runtime_new D s, s)) (run_blocks D bs (rt, s))"
    by (rule run_blocks_core [rotated]) (simp add: same_crypto_def)
  then show ?thesis
    by (auto simp: same_core_def elim: option.rel_cases)
qed

theorem restart_transparent_witness:
  "map_option (\<lambda>ch. (rt_system (fst ch), rt_balances (fst ch)))
     (run_blocks ref_deps [ref_block 2 [ref_ext Alice 0 (RC_balances (Call_transfer (public ref_ed25519 Bob) 5))]]
       (runtime_new ref_deps (snd ref_start), snd ref_start)) =
   map_option (\<lambda>ch. (rt_system (fst ch), rt_balances (fst ch)))
     (run_blocks ref_deps [ref_block 2 [ref_ext Alice 0 (RC_balances (Call_transfer (public ref_ed25519 Bob) 5))]] ref_start)"
proof -
  have "chain_reach ref_deps bt_wf (fst ref_start, snd ref_start)" using ref_start_reach by simp
  from restart_transparent [OF ref_runtime_host this] show ?thesis by (simp only: prod.collapse)
qed

text \<open>A block with the wrong number is not without effect: it is rejected, yet the height has
  advanced, in memory and on disk, and nothing else has changed. The block that was due is
  then rejected too.\<close>

lemma rejected_block_advances_height:
  assumes "hd_block_number (blk_header b) \<noteq> block_number (rt_system (fst ch)) + 1"
    and "unat (block_number (rt_system (fst ch))) < 2 ^ 32 - 2"
    and "hd_block_number (blk_header due) = block_number (rt_system (fst ch)) + 1"
  shows "\<exists>ch' ch''. execute_block D b ch = Some (Inl ''block number does not match what is expected'', ch') \<and>
    block_number (rt_system (fst ch')) = block_number (rt_system (fst ch)) + 1 \<and>
    rt_balances (fst ch') = rt_balances (fst ch) \<and> rt_poe (fst ch') = rt_poe (fst ch) \<and>
    nonce (rt_system (fst ch')) = nonce (rt_system (fst ch)) \<and>
    snd ch' = snd (kv_put (d_kv D) (snd ch) PREFIX_BLOCK_NUMBER
                     (encode (c_u32 (d_codecs D)) (block_number (rt_system (fst ch)) + 1))) \<and>
    execute_block D due ch' = Some (Inl ''block number does not match what is expected'', ch'')"
proof -
  have "unat (block_number (rt_system (fst ch)) + 1) \<noteq> 2 ^ 32 - 1"
    using checked_add_one_cases [of "block_number (rt_system (fst ch))"] assms(2) by auto
  moreover have "n + 1 \<noteq> n + 1 + 1" for n :: u32
    by (metis add_cancel_left_right one_neq_zero)
  ultimately have "execute_block D due (bumped D ch) =
      Some (Inl ''block number does not match what is expected'', bumped D (bumped D ch))"
    using assms(3) by (simp add: execute_block_alt)
  moreover have "execute_block D b ch = Some (Inl ''block number does not match what is expected'', bumped D ch)"
    using assms(1,2) by (simp add: execute_block_alt)
  moreover have "snd (bumped D ch) = snd (kv_put (d_kv D) (snd ch) PREFIX_BLOCK_NUMBER
      (encode (c_u32 (d_codecs D)) (block_number (rt_system (fst ch)) + 1)))"
    by (simp add: bumped_def Let_def)
  ultimately show ?thesis by fastforce
qed

lemma rejected_block_advances_height_witness:
  "\<exists>ch' ch''. execute_block ref_deps (ref_block 9 []) ref_start =
       Some (Inl ''block number does not match what is expected'', ch') \<and>
     block_number (rt_system (fst ch')) = 2 \<and>
     execute_block ref_deps (ref_block 2 []) ch' = Some (Inl ''block number does not match what is expected'', ch'')"
  using rejected_block_advances_height [of "ref_block 9 []" ref_start "ref_block 2 []" ref_deps] by auto

text \<open>An extrinsic that verifies and carries the expected nonce, but whose call fails, costs
  its signer the nonce and nothing else: balances and claims stay as they were, the
  signer's nonce grows by one, and no other account's does.\<close>

lemma failed_call_costs_nonce:
  assumes "runtime_wf (fst ch)" and "ext_nonce e = nonce (rt_system (fst ch)) (ext_signer e)"
    and "nonce_of ch (ext_signer e) < 2 ^ 32 - 1"
    and "map_option fst (runtime_dispatch D (ext_signer e) (ext_call e) ch) = Some (Inl err)"
  shows "\<exists>ch'. apply_extrinsic D (e, Ok_unit) ch = Some ch' \<and>
    rt_balances (fst ch') = rt_balances (fst ch) \<and> rt_poe (fst ch') = rt_poe (fst ch) \<and>
    nonce_of ch' a = nonce_of ch a + (if a = ext_signer e then 1 else 0)"
proof -
  have adm: "admissible (e, Ok_unit) (fst ch)"
    using assms(2) by (simp add: admissible_def)
  obtain ch' where "apply_extrinsic D (e, Ok_unit) ch = Some ch'"
    and "rt_balances (fst ch') = rt_balances (fst ch)" and "rt_poe (fst ch') = rt_poe (fst ch)"
    using apply_failing_call [OF assms(1) adm assms(3,4)] by blast
  then show ?thesis
    using apply_extrinsic_nonce(1) [of D e Ok_unit ch ch' a] adm by auto
qed

lemma failed_call_costs_nonce_witness:
  "\<exists>ch ch'. get_claim (rt_poe (fst ch)) ''doc'' = Some (public ref_ed25519 Bob) \<and>
     apply_extrinsic ref_deps
       (ref_ext Alice 0 (RC_proof_of_existence (Call_create_claim ''doc'')), Ok_unit) ch = Some ch' \<and>
     rt_poe (fst ch') = rt_poe (fst ch) \<and> nonce_of ch' (public ref_ed25519 Alice) = 1"
proof -
  let ?ch = "((fst ref_start)\<lparr>rt_poe := \<lparr>poe_claims = [(''doc'', public ref_ed25519 Bob)]\<rparr>\<rparr>, snd ref_start)"
  let ?e = "ref_ext Alice 0 (RC_proof_of_existence (Call_create_claim ''doc''))"
  have wf: "runtime_wf (fst ?ch)"
    using ref_wf(2) by (simp add: runtime_wf_def poe_wf_def bt_wf_def)
  have "map_option fst (runtime_dispatch ref_deps (ext_signer ?e) (ext_call ?e) ?ch) =
      Some (Inl ''this content is already claimed'')"
    by (simp add: create_claim_def bt_contains_key_def bt_get_def)
  from failed_call_costs_nonce [OF wf _ _ this, of "public ref_ed25519 Alice"] obtain ch' where
    "apply_extrinsic ref_deps (?e, Ok_unit) ?ch = Some ch'" and "rt_poe (fst ch') = rt_poe (fst ?ch)"
    and "nonce_of ch' (public ref_ed25519 Alice) = 1"
    by auto
  then show ?thesis
    by (intro exI [of _ ?ch] exI [of _ ch']) simp
qed

text \<open>Calls that fail leave no trace in the pallets: from a well-formed runtime any sequence of
  calls returns, and the sequence with its failing calls left out ends in the same state.\<close>

lemma failing_calls_droppable:
  assumes "runtime_wf (fst ch)"
  shows "dispatch_seq (runtime_dispatch D) (accepted (runtime_dispatch D) xs ch) ch =
           dispatch_seq (runtime_dispatch D) xs ch \<and>
         dispatch_seq (runtime_dispatch D) xs ch \<noteq> None"
  using rt.seq_accepted [OF assms, of D xs] rt.seq_returns [OF assms, of D xs] by auto

text \<open>Extrinsics whose signature does not verify have no effect at all: a block does exactly
  what the block without them does.\<close>

lemma unverified_extrinsics_ignored:
  "execute_block D
     (b\<lparr>blk_extrinsics := filter (\<lambda>e. verify (d_ed25519 D) (d_payload D) e = Ok_unit) (blk_extrinsics b)\<rparr>) ch =
   execute_block D b ch"
  by (simp add: execute_block_alt results_verified apply_extrinsics_verified)

text \<open>C34: Genesis on a chain of height zero returns, funds the three dev accounts with 1000000
  each, leaves every other balance, the nonces and the claims alone and seals block 1; done
  again it changes nothing.\<close>

theorem genesis_effect:
  assumes "block_number (rt_system (fst ch)) = 0"
  shows "\<exists>ch'. maybe_apply_genesis D ch = Some ch' \<and> block_number (rt_system (fst ch')) = 1 \<and>
    balance (rt_balances (fst ch')) a =
      (if a \<in> range (public (d_ed25519 D)) then 1000000 else balance (rt_balances (fst ch)) a) \<and>
    nonce (rt_system (fst ch')) a = nonce (rt_system (fst ch)) a \<and> rt_poe (fst ch') = rt_poe (fst ch) \<and>
    maybe_apply_genesis D ch' = Some ch'"
proof -
  let ?ch' = "bumped D (fund D Charlie (fund D Bob (fund D Alice ch)))"
  have "a \<in> range (public (d_ed25519 D)) \<longleftrightarrow>
      a = public (d_ed25519 D) Alice \<or> a = public (d_ed25519 D) Bob \<or> a = public (d_ed25519 D) Charlie"
    by (auto simp: image_iff) (metis AccountKeyring.exhaust)
  then show ?thesis
    using genesis_fresh [OF assms, of D] assms
    by (intro exI [of _ ?ch']) (simp add: maybe_apply_genesis_def)
qed

theorem genesis_effect_witness:
  "\<exists>ch'. maybe_apply_genesis ref_deps ref_boot = Some ch' \<and>
     balance (rt_balances (fst ch')) (public ref_ed25519 Charlie) = 1000000 \<and>
     maybe_apply_genesis ref_deps ch' = Some ch'"
  using genesis_effect [of ref_boot ref_deps "public ref_ed25519 Charlie"] by auto

text \<open>Genesis happens once in the life of a database: a node that restarts after genesis, and
  after any further blocks, does not fund the dev accounts again.\<close>

lemma genesis_not_repeated:
  assumes "runtime_host D I" and "chain_reach D I ch"
    and "maybe_apply_genesis D ch = Some ch1" and "run_blocks D bs ch1 = Some (rt, s)"
  shows "maybe_apply_genesis D (runtime_new D s, s) = Some (runtime_new D s, s)"
proof -
  have "chain_reach D I ch1"
    using assms(2,3) by (rule chain_reach.genesis)
  moreover note run_blocks_reach [OF this assms(4)]
  ultimately have "rt_system (runtime_new D s) = rt_system rt"
    using runtime_host.restart_exact(1) [OF assms(1) runtime_host.reach_synced [OF assms(1)]] by blast
  moreover have "block_number (rt_system rt) \<noteq> 0"
    using run_blocks_nonzero [OF assms(4) genesis_block_number [OF assms(3)]] by simp
  ultimately show ?thesis by (simp add: maybe_apply_genesis_def)
qed

section \<open>Signatures\<close>

text \<open>Extrinsics signed with \<open>new_signed\<close>, by whatever keys, verify: the batch verification
  of a list of them reports success for each, in order.\<close>

lemma signed_batch_verifies:
  assumes "ed25519_ok E"
  shows "verify_batch E enc (map (\<lambda>(sk, n, call). new_signed E enc sk n call) xs) = replicate (length xs) Ok_unit"
  using verify_new_signed [OF assms]
  by (auto simp: verify_batch_def map_replicate_const [symmetric] case_prod_beta)

text \<open>Tampering needs a forgery: if an extrinsic verifies and one with the same signer and
  signature but another nonce or another call verifies too, then one key accepts one
  signature for two different messages, provided the payload encoding is injective.\<close>

lemma tampering_needs_forgery:
  assumes "inj enc" and "verify E enc e = Ok_unit" and "verify E enc e' = Ok_unit"
    and "ext_signer e' = ext_signer e" and "ext_signature e' = ext_signature e"
    and "(ext_nonce e', ext_call e') \<noteq> (ext_nonce e, ext_call e)"
  shows "\<exists>vk m m'. vk_from_bytes E (as_bytes (ext_signer e)) = Some vk \<and> m \<noteq> m' \<and>
    vk_verify E vk m (ext_signature e) \<and> vk_verify E vk m' (ext_signature e)"
proof -
  let ?m = "\<lambda>e. enc (as_bytes (ext_signer e), ext_nonce e, ext_call e)"
  have "?m e \<noteq> ?m e'"
    using assms(1,4,6) by (auto dest: injD)
  then show ?thesis
    using assms(2-5) by (metis option.inject verify_Ok_iff)
qed

section \<open>The node\<close>

text \<open>C18: Every node that runs keeps its invariant, whatever messages, peers and requests come and
  go: its peer list is sorted and contains itself, so that deciding the author of a slot
  never divides by zero; its mempool is the unbounded one of block limit 3; the chain is
  past genesis and its store is in step with it.\<close>

theorem node_invariant:
  assumes "node_reach N I n" and "runtime_host (rt_deps N) I"
  shows "sorted (ns_peers n) \<and> ns_my_id n \<in> set (ns_peers n) \<and>
    is_my_slot now (ns_my_id n) (ns_peers n) \<noteq> None \<and>
    mp_max_capacity (ns_pool n) = None \<and> mp_block_limit (ns_pool n) = Some 3 \<and>
    block_number (rt_system (fst (ns_chain n))) \<noteq> 0 \<and> chain_synced (rt_deps N) I (ns_chain n)"
  using node_reach_inv [OF assms(1)] runtime_host.reach_synced [OF assms(2)]
  by (auto simp: node_inv_def peers_ok_def is_my_slot_def Let_def)

theorem node_invariant_witness:
  "node_reach ref_node bt_wf ref_state \<and> is_my_slot 40 (ns_my_id ref_state) (ns_peers ref_state) \<noteq> None \<and>
   chain_synced ref_deps bt_wf (ns_chain ref_state)"
  using node_invariant [OF ref_state_reach, of 40] ref_runtime_host ref_state_reach by simp

text \<open>C4: What a block author publishes, and how much of it counts. The author publishes the next
  block with the batch it selected, and executes it. No signature is checked on the way into
  the mempool or into the block, so the block may hold extrinsics with bad signatures: of
  each signer's extrinsics in the block, whatever order the hash map yields the signers in,
  the runtime applies exactly those before that signer's first bad signature, and the nonce
  grows by their number. The whole block is applied just when all its signatures verify.\<close>

theorem produced_block_applied:
  assumes "hash_order_ok (n_hash_order N)" and "length (drained pool) < 2 ^ 32"
    and "produce_block N (ch, pool) = Some (ch', pool', reqs)"
  shows "\<exists>batch. select_batch (n_overflow_checks N) (n_hash_order N) (fst ch) (drained pool) = Some batch \<and>
    reqs = [\<lparr>pr_topic = n_topic_hash N block_topic, pr_data = encode (n_block N) (next_block ch batch)\<rparr>] \<and>
    (\<forall>a. by_signer a (applied_block (rt_deps N) (next_block ch batch) ch) =
           takeWhile (\<lambda>e. verify (d_ed25519 N) (d_payload N) e = Ok_unit) (by_signer a batch) \<and>
         nonce_of ch' a = nonce_of ch a +
           length (takeWhile (\<lambda>e. verify (d_ed25519 N) (d_payload N) e = Ok_unit) (by_signer a batch))) \<and>
    (applied_block (rt_deps N) (next_block ch batch) ch = batch \<longleftrightarrow>
       (\<forall>e \<in> set batch. verify (d_ed25519 N) (d_payload N) e = Ok_unit))"
proof -
  obtain batch where sel: "select_batch (n_overflow_checks N) (n_hash_order N) (fst ch) (drained pool) = Some batch"
    and ex: "execute_block (rt_deps N) (next_block ch batch) ch = Some (Ok_unit, ch')"
    and reqs: "reqs = [\<lparr>pr_topic = n_topic_hash N block_topic, pr_data = encode (n_block N) (next_block ch batch)\<rparr>]"
    using produce_block_SomeE [OF assms(3)] by metis
  have "length (by_signer a (drained pool)) < 2 ^ 32" for a
    using assms(2) le_less_trans [OF length_filter_le] by (simp add: by_signer_def)
  note applied_produced [OF assms(1) sel this ex]
  moreover have "applied_block (rt_deps N) (next_block ch batch) ch = batch"
    if "\<forall>e \<in> set batch. verify (d_ed25519 N) (d_payload N) e = Ok_unit"
    using sel ex assms(1) that by (rule applied_batch)
  ultimately show ?thesis
    using sel reqs applied_block_verified [of _ "rt_deps N" "next_block ch batch" ch] by (auto simp: deps.truncate_def)
qed

theorem produced_block_applied_witness:
  "\<exists>ch' pool' batch. produce_block ref_node (ref_start, ref_forged_pool) =
       Some (ch', pool', [\<lparr>pr_topic = block_topic, pr_data = encode block_codec (next_block ref_start batch)\<rparr>]) \<and>
     by_signer (public ref_ed25519 Alice) batch = [ref_claim 0, ref_forged, ref_claim 2] \<and>
     by_signer (public ref_ed25519 Alice) (applied_block ref_deps (next_block ref_start batch) ref_start) = [ref_claim 0] \<and>
     nonce_of ch' (public ref_ed25519 Alice) = 1"
proof -
  let ?a = "public ref_ed25519 Alice"
  obtain ch' pool' reqs where pb: "produce_block ref_node (ref_start, ref_forged_pool) = Some (ch', pool', reqs)"
    using produce_block_total [of ref_node ref_start ref_forged_pool] ref_nonce_room [of "drained ref_forged_pool"] by auto
  from produced_block_applied [OF _ _ this] obtain batch where
    sel: "select_batch True rev (fst ref_start) (drained ref_forged_pool) = Some batch"
    and reqs: "reqs = [\<lparr>pr_topic = block_topic, pr_data = encode block_codec (next_block ref_start batch)\<rparr>]"
    and app: "by_signer ?a (applied_block ref_deps (next_block ref_start batch) ref_start) =
        takeWhile (\<lambda>e. verify ref_ed25519 ref_payload e = Ok_unit) (by_signer ?a batch)"
      "nonce_of ch' ?a = length (takeWhile (\<lambda>e. verify ref_ed25519 ref_payload e = Ok_unit) (by_signer ?a batch))"
    by auto
  have "by_signer ?a batch = [ref_claim 0, ref_forged, ref_claim 2]"
    using select_batch_by_signer [OF _ sel, of ?a] by (simp add: signer_run_def plain_add_def)
  with pb reqs app show ?thesis by auto
qed

text \<open>C5: A follower ends up where the author is. The bytes an author publishes for a block it
  produced reach a follower as that block, and a follower whose runtime was the author's
  before executes it successfully and has the author's runtime after, on a store of its
  own.\<close>

theorem follower_reaches_author_state:
  fixes N :: "('s, 'sk, 'vk) node_deps" and M :: "('t, 'sk, 'vk) node_deps"
  assumes "produce_block N (ch, pool) = Some (ch', pool', reqs)"
    and "same_crypto (rt_deps N) (rt_deps M)" and "n_block M = n_block N" and "codec_ok (n_block N)"
    and "n_topic_hash M = n_topic_hash N" and "n_topic_hash N extrinsic_topic \<noteq> n_topic_hash N block_topic"
    and "fst (ns_chain n) = fst ch" and "ns_rx_blk n = []"
  shows "\<exists>req b n'. reqs = [req] \<and> ns_rx_blk (on_message M (pr_topic req) (pr_data req) n) = [b] \<and>
    on_peer_block M b n = Some n' \<and> fst (ns_chain n') = fst ch'"
proof -
  obtain batch where ex: "execute_block (rt_deps N) (next_block ch batch) ch = Some (Ok_unit, ch')"
    and reqs: "reqs = [\<lparr>pr_topic = n_topic_hash N block_topic, pr_data = encode (n_block N) (next_block ch batch)\<rparr>]"
    using produce_block_SomeE [OF assms(1)] by metis
  have "agree (execute_block (rt_deps N) (next_block ch batch) ch)
              (execute_block (rt_deps M) (next_block ch batch) (ns_chain n))"
    using assms(2,7) by (intro execute_block_agree) simp_all
  from agree_SomeD [OF this ex] obtain ch1 where
    "execute_block (rt_deps M) (next_block ch batch) (ns_chain n) = Some (Ok_unit, ch1)"
    and "fst ch1 = fst ch'" by blast
  then have "\<exists>n'. on_peer_block M (next_block ch batch) n = Some n' \<and> fst (ns_chain n') = fst ch'"
    by (simp add: on_peer_block_def Let_def)
  moreover have "ns_rx_blk (on_message M (n_topic_hash N block_topic) (encode (n_block N) (next_block ch batch)) n) =
      [next_block ch batch]"
    using assms(3-6,8) by (simp add: on_message_def eq_commute)
  ultimately show ?thesis
    unfolding reqs by auto
qed

theorem follower_reaches_author_state_witness:
  "\<exists>ch' pool' req b n'. produce_block ref_node (ref_start, ref_pool) = Some (ch', pool', [req]) \<and>
     ns_rx_blk (on_message ref_node (pr_topic req) (pr_data req) ref_state) = [b] \<and>
     on_peer_block ref_node b ref_state = Some n' \<and> fst (ns_chain n') = fst ch'"
proof -
  obtain ch' pool' reqs where pb: "produce_block ref_node (ref_start, ref_pool) = Some (ch', pool', reqs)"
    by (rule ref_produce)
  from follower_reaches_author_state [OF this, of ref_node ref_state] have
    "\<exists>req b n'. reqs = [req] \<and> ns_rx_blk (on_message ref_node (pr_topic req) (pr_data req) ref_state) = [b] \<and>
      on_peer_block ref_node b ref_state = Some n' \<and> fst (ns_chain n') = fst ch'"
    by (simp add: same_crypto_def extrinsic_topic_def block_topic_def ref_state_def)
  with pb show ?thesis by blast
qed

text \<open>C29: Block production returns while the height and the nonces are in range: it takes the
  oldest candidates out of the pool, executes the next block successfully and asks to
  publish exactly one block.\<close>

theorem block_production_total:
  assumes "hash_order_ok (n_hash_order N)" and "runtime_wf (fst ch)"
    and "unat (block_number (rt_system (fst ch))) < 2 ^ 32 - 1"
    and "\<And>a. nonce_of ch a + length (by_signer a (drained pool)) < 2 ^ 32"
  shows "\<exists>ch' pool' req. produce_block N (ch, pool) = Some (ch', pool', [req]) \<and>
    unat (block_number (rt_system (fst ch'))) = Suc (unat (block_number (rt_system (fst ch)))) \<and>
    drained pool @ mp_pending pool' = mp_pending pool"
proof -
  obtain ch' pool' reqs where pb: "produce_block N (ch, pool) = Some (ch', pool', reqs)"
    using produce_block_total [OF assms] by blast
  obtain batch req where "execute_block (rt_deps N) (next_block ch batch) ch = Some (Ok_unit, ch')"
    and "pool' = rest_pool pool" and "reqs = [req]"
    using produce_block_SomeE [OF pb] by metis
  with pb show ?thesis
    by (auto simp: drained_def rest_pool_def dest: execute_block_number)
qed

theorem block_production_total_witness:
  "\<exists>ch' pool' req. produce_block ref_node (ref_start, ref_pool) = Some (ch', pool', [req]) \<and>
     unat (block_number (rt_system (fst ch'))) = 2"
  using block_production_total [of ref_node ref_start ref_pool, OF _ _ _ ref_nonce_room] by auto

text \<open>What the author takes of one signer: the longest run of consecutive nonces from the
  account's nonce that the sorted candidates of that signer start with. The run is
  consecutive, it is a prefix of the sorted candidates, and the next candidate, if there is
  one, does not continue it.\<close>

lemma batch_is_maximal_run:
  assumes "hash_order_ok ord" and "select_batch oc ord rt xs = Some batch"
  shows "prefix (by_signer a batch) (sort_key ext_nonce (by_signer a xs)) \<and>
    consec (nonce (rt_system rt) a) (by_signer a batch) \<and>
    (length (by_signer a batch) = length (by_signer a xs) \<or>
     ext_nonce (sort_key ext_nonce (by_signer a xs) ! length (by_signer a batch)) \<noteq>
       nonce (rt_system rt) a + word_of_nat (length (by_signer a batch)))"
proof -
  have run: "take_run oc (nonce (rt_system rt) a) (sort_key ext_nonce (by_signer a xs)) = Some (by_signer a batch)"
    using select_batch_by_signer [OF assms] by (simp add: signer_run_def)
  show ?thesis
    using take_run_prefix [OF run] take_run_consec [OF run] take_run_stops [OF run]
      prefix_length_le [OF take_run_prefix [OF run]] by auto
qed

text \<open>The iteration order of the hash map decides only how the signers' runs are
  interleaved: two orders give batches with the same extrinsics, in the same order for each
  signer.\<close>

lemma hash_order_irrelevant:
  assumes "hash_order_ok ord" and "hash_order_ok ord'"
    and "select_batch oc ord rt xs = Some batch" and "select_batch oc ord' rt xs = Some batch'"
  shows "by_signer a batch = by_signer a batch' \<and> mset batch = mset batch'"
proof -
  have same: "by_signer a batch = by_signer a batch'" for a
    using select_batch_by_signer [OF assms(1,3), of a] select_batch_by_signer [OF assms(2,4), of a] by simp
  have "count (mset xs) e = count (mset (by_signer (ext_signer e) xs)) e" for xs :: "ext list" and e
    by (induction xs) auto
  then have "mset batch = mset batch'"
    using same by (metis multiset_eqI)
  with same show ?thesis by blast
qed

text \<open>C30: One stale extrinsic spoils a signer's whole slot: if a drained candidate carries a nonce
  below its signer's, the published block holds no extrinsic of that signer, however valid
  the others are, and none of the drained candidates is back in the pool.\<close>

theorem stale_nonce_blocks_signer:
  assumes "hash_order_ok (n_hash_order N)" and "produce_block N (ch, pool) = Some (ch', pool', reqs)"
    and "e \<in> set (drained pool)" and "ext_nonce e < nonce (rt_system (fst ch)) (ext_signer e)"
  shows "\<exists>batch. reqs = [\<lparr>pr_topic = n_topic_hash N block_topic, pr_data = encode (n_block N) (next_block ch batch)\<rparr>] \<and>
    by_signer (ext_signer e) batch = [] \<and> drained pool @ mp_pending pool' = mp_pending pool"
proof -
  obtain batch where
    sel: "select_batch (n_overflow_checks N) (n_hash_order N) (fst ch) (drained pool) = Some batch"
    and pool': "pool' = rest_pool pool"
    and reqs: "reqs = [\<lparr>pr_topic = n_topic_hash N block_topic, pr_data = encode (n_block N) (next_block ch batch)\<rparr>]"
    using produce_block_SomeE [OF assms(2)] by metis
  have "by_signer (ext_signer e) batch = []"
    using select_batch_by_signer [OF assms(1) sel, of "ext_signer e"] assms(3,4)
    by (auto simp: signer_run_def by_signer_def intro: take_run_stale)
  with reqs show ?thesis by (intro exI [of _ batch]) (simp add: pool' drained_def rest_pool_def)
qed

theorem stale_nonce_blocks_signer_witness:
  "\<exists>ch' pool' batch. produce_block ref_node (ref_later, ref_stale_pool) =
       Some (ch', pool', [\<lparr>pr_topic = block_topic, pr_data = encode block_codec (next_block ref_later batch)\<rparr>]) \<and>
     by_signer (public ref_ed25519 Alice) batch = [] \<and> mp_pending pool' = []"
proof -
  obtain ch' pool' reqs where pb: "produce_block ref_node (ref_later, ref_stale_pool) = Some (ch', pool', reqs)"
    by (rule ref_stale_produce)
  from stale_nonce_blocks_signer [OF _ this, of "ref_claim 0"] have
    "\<exists>batch. reqs = [\<lparr>pr_topic = block_topic, pr_data = encode block_codec (next_block ref_later batch)\<rparr>] \<and>
      by_signer (public ref_ed25519 Alice) batch = [] \<and> mp_pending pool' = []"
    by simp
  with pb show ?thesis by blast
qed

text \<open>A peer block that is accepted clears its extrinsics out of the mempool, every pending one
  with a (signer, nonce) of the block and no other, in order; one that is rejected leaves
  the mempool alone.\<close>

lemma peer_block_evicts:
  assumes "on_peer_block N b n = Some n'"
  shows "mp_pending (ns_pool n') =
    (if hd_block_number (blk_header b) = block_number (rt_system (fst (ns_chain n))) + 1
     then filter (\<lambda>e. (ext_signer e, ext_nonce e) \<notin> (\<lambda>x. (ext_signer x, ext_nonce x)) ` set (blk_extrinsics b))
            (mp_pending (ns_pool n))
     else mp_pending (ns_pool n))"
proof -
  obtain r ch where ex: "execute_block (rt_deps N) b (ns_chain n) = Some (r, ch)"
    using assms by (auto simp: on_peer_block_def Let_def split: option.splits)
  then show ?thesis
  proof (cases rule: execute_block_SomeE)
    case bad_header
    then show ?thesis
      using assms ex by (auto simp: on_peer_block_def Let_def)
  next
    case run
    then show ?thesis
      using assms ex
      by (auto simp: on_peer_block_def Let_def retain_def list_ex_iff image_iff intro!: filter_cong) metis+
  qed
qed

section \<open>Authorship and requests\<close>

text \<open>Every slot has exactly one author among the peers: of the nodes that hold the same peer
  list, one and only one finds that the slot is its own.\<close>

lemma unique_slot_author:
  assumes "peers \<noteq> []"
  shows "\<exists>!p. p \<in> set peers \<and> is_my_slot now p peers = Some True"
proof (rule ex1I)
  let ?p = "peers ! (unat (current_slot now) mod length peers)"
  show "?p \<in> set peers \<and> is_my_slot now ?p peers = Some True"
    using assms by (simp add: is_my_slot_nth)
qed (simp add: is_my_slot_nth)

lemma unique_slot_author_witness:
  "\<exists>!p. p \<in> set [1, 2, 5 :: nat] \<and> is_my_slot 40 p [1, 2, 5] = Some True"
  by (rule unique_slot_author) simp

text \<open>Every peer gets a slot within one round of the list, from any time on.\<close>

lemma slot_within_round:
  assumes "p \<in> set peers" and "unat now + 20 * length peers < 2 ^ 64"
  shows "\<exists>k < length peers. is_my_slot (now + 20 * word_of_nat k) p peers = Some True"
proof -
  obtain i where i: "i < length peers" "peers ! i = p"
    using assms(1) by (auto simp: in_set_conv_nth)
  obtain k where k: "k < length peers" "(unat (current_slot now) + k) mod length peers = i"
    using mod_hits [OF i(1)] by blast
  have "unat (current_slot (now + 20 * word_of_nat k)) = unat (current_slot now) + k"
    using assms(2) k(1) by (intro current_slot_later) simp
  then have "is_my_slot (now + 20 * word_of_nat k) p peers = Some True"
    using i k by (auto simp: is_my_slot_nth)
  with k(1) show ?thesis by blast
qed

text \<open>C24: The nonce RPC gives the next usable nonce. Let an account's pending extrinsics form a run
  of consecutive nonces from its nonce, and submit an extrinsic with the nonce the handler
  returned to the mempool. If the mempool now fits into one block, the next block the author
  produces holds the whole run and the new extrinsic at its end. A longer mempool, in which
  the run stands in order and verifies, is emptied over several blocks, and these together
  hold the run, in order, and the new extrinsic at its end, and have applied all of it. No
  production panics while height and nonces have room.\<close>

theorem rpc_nonce_extends_run:
  assumes "hash_order_ok (n_hash_order N)" and "n_hex_decode N hex = Inr bs" and "length bs = 32" and "runtime_wf (fst ch)"
    and "0 < k" and "unat (block_number (rt_system (fst ch))) + k < 2 ^ 32"
    and "\<And>c. nonce_of ch c + length (by_signer c (mp_pending pool)) + 1 < 2 ^ 32"
    and "consec (nonce (rt_system (fst ch)) (account_of bs)) (sort_key ext_nonce (by_signer (account_of bs) (mp_pending pool)))"
    and "nonce_handler N (fst ch) pool hex = Some (Inr body)" and "parse_u32 (trim body) = Some (ext_nonce e)"
    and "ext_signer e = account_of bs" and "submit e pool = (Ok_unit, pool1)"
  shows "(length (mp_pending pool1) \<le> drain_limit pool1 \<longrightarrow>
      (\<exists>ch' pool' batch. produce_block N (ch, pool1) = Some (ch', pool', [block_req N (next_block ch batch)]) \<and>
         by_signer (account_of bs) batch = sort_key ext_nonce (by_signer (account_of bs) (mp_pending pool)) @ [e])) \<and>
    (length (mp_pending pool1) \<le> k * drain_limit pool1 \<longrightarrow>
     consec (nonce (rt_system (fst ch)) (account_of bs)) (by_signer (account_of bs) (mp_pending pool)) \<longrightarrow>
     (\<forall>x \<in> set (by_signer (account_of bs) (mp_pending pool1)). verify (d_ed25519 N) (d_payload N) x = Ok_unit) \<longrightarrow>
      (\<exists>ch' pool' blocks. produce_rounds N k (ch, pool1) = Some (ch', pool', map (block_req N) blocks) \<and>
         by_signer (account_of bs) (concat (map blk_extrinsics blocks)) = by_signer (account_of bs) (mp_pending pool) @ [e] \<and>
         nonce_of ch' (account_of bs) = Suc (unat (ext_nonce e))))"
proof -
  let ?a = "account_of bs" and ?n = "nonce (rt_system (fst ch)) (account_of bs)"
  let ?xs = "by_signer ?a (mp_pending pool)"
  have pool1: "mp_pending pool1 = mp_pending pool @ [e]"
    using assms(12) by (auto simp: submit_def split: if_splits)
  note next_nonce = rpc_nonce_continues [OF assms(2,3,8) assms(7) assms(9,10)]
  have room: "nonce_of ch c + length (by_signer c (mp_pending pool1)) < 2 ^ 32" for c
    using assms(7) [of c] by (simp add: pool1)
  have height: "unat (block_number (rt_system (fst ch))) < 2 ^ 32 - 1"
    using assms(5,6) by simp
  have "\<exists>ch' pool' batch. produce_block N (ch, pool1) = Some (ch', pool', [block_req N (next_block ch batch)]) \<and>
      by_signer ?a batch = sort_key ext_nonce ?xs @ [e]" if "length (mp_pending pool1) \<le> drain_limit pool1"
  proof -
    have drained: "drained pool1 = mp_pending pool1" using that by (simp add: drained_def)
    obtain ch' pool' reqs where pb: "produce_block N (ch, pool1) = Some (ch', pool', reqs)"
      using produce_block_total [OF assms(1,4) height, of pool1] room drained by auto
    from pb obtain batch where sel: "select_batch (n_overflow_checks N) (n_hash_order N) (fst ch) (drained pool1) = Some batch"
      and reqs: "reqs = [block_req N (next_block ch batch)]"
      by (rule produce_block_SomeE)
    have "consec ?n (sort_key ext_nonce ?xs @ [e])"
      using assms(8) next_nonce(1) by (simp add: consec_append)
    then have "signer_run (n_overflow_checks N) (fst ch) (drained pool1) ?a = Some (sort_key ext_nonce ?xs @ [e])"
      using next_nonce(3) room [of ?a] assms(11) by (simp add: signer_run_def drained pool1 take_run_all)
    then show ?thesis
      using pb reqs select_batch_by_signer [OF assms(1) sel, of ?a] by auto
  qed
  moreover have "\<exists>ch' pool' blocks. produce_rounds N k (ch, pool1) = Some (ch', pool', map (block_req N) blocks) \<and>
      by_signer ?a (concat (map blk_extrinsics blocks)) = ?xs @ [e] \<and> nonce_of ch' ?a = Suc (unat (ext_nonce e))"
    if "length (mp_pending pool1) \<le> k * drain_limit pool1" and "consec ?n ?xs"
      and "\<forall>x \<in> set (by_signer ?a (mp_pending pool1)). verify (d_ed25519 N) (d_payload N) x = Ok_unit"
  proof -
    have "consec ?n (by_signer ?a (mp_pending pool1))"
      using that(2) next_nonce(1) assms(11) by (simp add: pool1 consec_append)
    from rounds_in_order [OF assms(1,4,6) room this _ that(1)] that(3) show ?thesis
      using next_nonce(2) assms(11) by (auto simp: pool1)
  qed
  ultimately show ?thesis by blast
qed

theorem rpc_nonce_extends_run_witness:
  "nonce_handler ref_node (fst ref_start) (ref_queue 3) (hex_of (arr32_list (seed Alice))) = Some (Inr ''1'') \<and>
   nonce_handler ref_node (fst ref_start) (ref_queue 1) (hex_of (arr32_list (seed Alice))) = Some (Inr ''1'') \<and>
   (\<exists>ch' pool' batch. produce_block ref_node (ref_start, snd (submit (ref_claim 1) (ref_queue 3))) =
        Some (ch', pool', [block_req ref_node (next_block ref_start batch)]) \<and>
      by_signer (public ref_ed25519 Alice) batch = [ref_claim 0, ref_claim 1]) \<and>
   (\<exists>ch' pool' blocks. produce_rounds ref_node 2 (ref_start, snd (submit (ref_claim 1) (ref_queue 1))) =
        Some (ch', pool', map (block_req ref_node) blocks) \<and>
      by_signer (public ref_ed25519 Alice) (concat (map blk_extrinsics blocks)) = [ref_claim 0, ref_claim 1] \<and>
      nonce_of ch' (public ref_ed25519 Alice) = 2)"
proof -
  let ?bs = "arr32_list (seed Alice)"
  have acc: "AccountId32 (seed Alice) = public ref_ed25519 Alice" by (simp add: public_ref)
  have dec: "n_hex_decode ref_node (hex_of ?bs) = Inr ?bs" by simp
  have one: "u32_to_string 1 = ''1''"
    by (simp add: u32_to_string_def dec_digits.simps dec_digit_def char_of_def bit_simps)
  have hdl: "nonce_handler ref_node (fst ref_start) (ref_queue l) (hex_of ?bs) = Some (Inr ''1'')" for l
    using nonce_handler_value [OF dec, of "fst ref_start" "ref_queue l"] one by (simp add: acc ref_queue_def)
  have parse: "parse_u32 (trim ''1'') = Some (ext_nonce (ref_claim 1))"
    using parse_to_string [of 1] by (simp add: one)
  have sub: "submit (ref_claim 1) (ref_queue l) = (Ok_unit, snd (submit (ref_claim 1) (ref_queue l)))" for l
    by (simp add: submit_def ref_queue_def)
  have room: "nonce_of ref_start c + length (by_signer c (mp_pending (ref_queue l))) + 1 < 2 ^ 32" for c l
    by (simp add: ref_queue_def)
  have con: "consec (nonce (rt_system (fst ref_start)) (account_of ?bs))
      (sort_key ext_nonce (by_signer (account_of ?bs) (mp_pending (ref_queue l))))" for l
    by (simp add: acc ref_queue_def)
  note ext = rpc_nonce_extends_run [OF _ dec _ ref_wf(2) _ _ room con hdl parse _ sub, of 2]
  have "\<exists>ch' pool' batch. produce_block ref_node (ref_start, snd (submit (ref_claim 1) (ref_queue 3))) =
        Some (ch', pool', [block_req ref_node (next_block ref_start batch)]) \<and>
      by_signer (public ref_ed25519 Alice) batch = [ref_claim 0, ref_claim 1]"
    using ext [of 3] by (simp add: acc submit_def ref_queue_def block_limit_def)
  moreover have "\<exists>ch' pool' blocks. produce_rounds ref_node 2 (ref_start, snd (submit (ref_claim 1) (ref_queue 1))) =
        Some (ch', pool', map (block_req ref_node) blocks) \<and>
      by_signer (public ref_ed25519 Alice) (concat (map blk_extrinsics blocks)) = [ref_claim 0, ref_claim 1] \<and>
      nonce_of ch' (public ref_ed25519 Alice) = 2"
    using ext [of 1] by (simp add: acc submit_def ref_queue_def block_limit_def flip: numeral_2_eq_2)
  ultimately show ?thesis using hdl by simp
qed

text \<open>A submitted extrinsic arrives. The bytes of an encoded extrinsic are accepted by the RPC
  handler; the extrinsic is queued for the node's own pool, enters it at the end, and the
  bytes are queued for the peers, who decode them to the same extrinsic. Bytes that do not
  decode are refused and change nothing.\<close>

lemma submitted_extrinsic_arrives:
  fixes N :: "('s, 'sk, 'vk) node_deps" and M :: "('t, 'sk, 'vk) node_deps"
  assumes "codec_ok (n_ext N)" and "n_ext M = n_ext N" and "n_topic_hash M = n_topic_hash N"
    and "mp_max_capacity (ns_pool n) = None" and "decode (n_ext N) junk = None"
  shows "fst (submit_handler N (encode (n_ext N) e)) = ACCEPTED \<and>
    ns_rx_ext (on_rpc_submit N (encode (n_ext N) e) n) = ns_rx_ext n @ [e] \<and>
    mp_pending (ns_pool (on_extrinsic e n)) = mp_pending (ns_pool n) @ [e] \<and>
    (\<exists>req. ns_rx_pub (on_rpc_submit N (encode (n_ext N) e) n) = ns_rx_pub n @ [req] \<and>
           ns_rx_ext (on_message M (pr_topic req) (pr_data req) m) = ns_rx_ext m @ [e]) \<and>
    fst (submit_handler N junk) = BAD_REQUEST \<and> on_rpc_submit N junk n = n"
  using assms
  by (simp add: submit_handler_def on_rpc_submit_def on_extrinsic_def submit_def on_message_def)

text \<open>The peer list counts connections, not peers, but forgets peers: a peer with two
  connections appears twice, so it authors twice as often, and closing one of the two
  connections removes it although the other is open.\<close>

lemma duplicate_connection:
  assumes "peer \<notin> set (ns_peers n)"
  shows "count_list (ns_peers (on_connected peer (on_connected peer n))) peer = 2 \<and>
         peer \<notin> set (ns_peers (on_disconnected peer (on_connected peer (on_connected peer n))))"
proof -
  have "count (mset (sort (sort (ns_peers n @ [peer]) @ [peer]))) peer = 2"
    using assms by simp
  then have "count_list (sort (sort (ns_peers n @ [peer]) @ [peer])) peer = 2"
    by (simp only: count_mset)
  then show ?thesis by (simp add: on_connected_def on_disconnected_def)
qed

section \<open>The ledger the runtime implements\<close>

text \<open>C2: The runtime implements the ledger: over any run of blocks, the heights, nonces, balances
  and claims of the runtime are those of the specification on natural numbers and functions,
  in which a call either has its effect or none.\<close>

theorem runtime_implements_ledger:
  assumes "runtime_wf (fst ch)" and "run_blocks D bs ch = Some ch'"
  shows "ledger_of (fst ch') = fold (ledger_block (verified D)) bs (ledger_of (fst ch))"
  using assms by (rule run_blocks_refines)

theorem runtime_implements_ledger_witness:
  "\<exists>ch'. run_blocks ref_deps [ref_block 2 [ref_claim 0]] ref_start = Some ch' \<and>
     ledger_of (fst ch') = fold (ledger_block (verified ref_deps)) [ref_block 2 [ref_claim 0]] (ledger_of (fst ref_start))"
proof -
  obtain ch' where "run_blocks ref_deps [ref_block 2 [ref_claim 0]] ref_start = Some ch'"
    by (rule ref_run [of "[ref_block 2 [ref_claim 0]]"]) simp_all
  with runtime_implements_ledger [OF ref_wf(2) this] show ?thesis by blast
qed

section \<open>The command line\<close>

text \<open>The demo scenario, from an empty database: it runs without a panic, its six blocks are
  all accepted, Alice, Bob and Charlie end with 66, 29 and 5 of the 100 tokens, and of the
  claims only Charlie's is left.\<close>

lemma demo_outcome:
  assumes "runtime_host D I" and "I s" and "\<And>k. kv_get (d_kv D) s k = None"
    and "ed25519_ok (d_ed25519 D)" and "inj (public (d_ed25519 D))"
  shows "\<exists>ch. run_demo D s = Some ch \<and> unat (block_number (rt_system (fst ch))) = 6 \<and>
    unat (balance (rt_balances (fst ch)) (public (d_ed25519 D) Alice)) = 66 \<and>
    unat (balance (rt_balances (fst ch)) (public (d_ed25519 D) Bob)) = 29 \<and>
    unat (balance (rt_balances (fst ch)) (public (d_ed25519 D) Charlie)) = 5 \<and>
    get_claim (rt_poe (fst ch)) = [''Copyright on my work'' \<mapsto> public (d_ed25519 D) Charlie]"
  by (rule run_demo_ledger [OF assms]) (simp only: ledger_of_simps, blast)

lemma demo_outcome_witness:
  "\<exists>ch. run_demo ref_deps [] = Some ch \<and> unat (balance (rt_balances (fst ch)) (public ref_ed25519 Alice)) = 66"
proof -
  have "inj (public ref_ed25519)" by (simp add: inj_def)
  with demo_outcome [OF ref_runtime_host, of "[]"] show ?thesis by (auto simp: mem_store_defs)
qed

text \<open>C35: \<open>submit-transfer\<close> without a node sets the sender's balance to ten times the amount,
  whatever it was, and seals a block with the transfer: the sender ends with nine times the
  amount, the recipient with the amount more, height and nonce grow by one.\<close>

theorem cli_local_transfer:
  fixes N :: "('st, 'sk, 'vk) node_deps"
  assumes "ed25519_ok (d_ed25519 N)" and "from_name from = Some a" and "from_name to = Some b"
    and "public (d_ed25519 N) a \<noteq> public (d_ed25519 N) b"
    and "unat (block_number (rt_system (runtime_new (rt_deps N) s))) < 2 ^ 32 - 1"
    and "unat (nonce (rt_system (runtime_new (rt_deps N) s)) (public (d_ed25519 N) a)) < 2 ^ 32 - 1"
    and "unat (balance (rt_balances (runtime_new (rt_deps N) s)) (public (d_ed25519 N) b)) + unat amount < 2 ^ 128"
    and "unat amount * 10 < 2 ^ 128"
  shows "\<exists>ch'. submit_transfer N get from to amount None (Some s) = Some (Ran Ok_unit ch') \<and>
    unat (balance (rt_balances (fst ch')) (public (d_ed25519 N) a)) = unat amount * 9 \<and>
    unat (balance (rt_balances (fst ch')) (public (d_ed25519 N) b)) =
      unat (balance (rt_balances (runtime_new (rt_deps N) s)) (public (d_ed25519 N) b)) + unat amount \<and>
    nonce_of ch' (public (d_ed25519 N) a) =
      Suc (unat (nonce (rt_system (runtime_new (rt_deps N) s)) (public (d_ed25519 N) a))) \<and>
    unat (block_number (rt_system (fst ch'))) = Suc (unat (block_number (rt_system (runtime_new (rt_deps N) s))))"
proof -
  let ?a = "public (d_ed25519 N) a" and ?b = "public (d_ed25519 N) b"
  let ?call = "RC_balances (Call_transfer ?b amount)"
  let ?ch = "on_balances (set_balance (d_kv N) (c_account (d_codecs N)) (c_u128 (d_codecs N)) ?a (amount * 10))
      (runtime_new (rt_deps N) s, s)"
  have ten: "unat (amount * 10) = unat amount * 10"
    using assms(8) by (simp add: unat_word_ariths)
  obtain ch' where run: "local_submit N a ?call ?ch = Some (Ran Ok_unit ch')"
    and l: "ledger_of (fst ch') = ledger_call ?a ?call
      ((ledger_of (fst ?ch))\<lparr>lg_height := Suc (lg_height (ledger_of (fst ?ch))),
         lg_nonce := (lg_nonce (ledger_of (fst ?ch)))(?a := Suc (nonce_of ?ch ?a))\<rparr>)"
    using local_submit_ledger [of ?ch N a ?call] assms(1,5,6) by auto
  have "submit_transfer N get from to amount None (Some s) = Some (Ran Ok_unit ch')"
    using assms(2,3,8) run by (simp add: submit_transfer_def Let_def plain_mul_def)
  moreover have "lg_balance (ledger_of (fst ch')) ?a = unat amount * 9"
    "lg_balance (ledger_of (fst ch')) ?b =
       unat (balance (rt_balances (runtime_new (rt_deps N) s)) ?b) + unat amount"
    "lg_nonce (ledger_of (fst ch')) ?a = Suc (unat (nonce (rt_system (runtime_new (rt_deps N) s)) ?a))"
    "lg_height (ledger_of (fst ch')) = Suc (unat (block_number (rt_system (runtime_new (rt_deps N) s))))"
    unfolding l using assms(4,7) ten by auto
  ultimately show ?thesis by (simp only: ledger_of_simps) blast
qed

theorem cli_local_transfer_witness:
  "\<exists>ch'. submit_transfer ref_node (\<lambda>_. Inl ''offline'') ''alice'' ''bob'' 500 None (Some []) = Some (Ran Ok_unit ch') \<and>
     unat (balance (rt_balances (fst ch')) (public ref_ed25519 Alice)) = 4500"
proof -
  have "from_name ''alice'' = Some Alice" "from_name ''bob'' = Some Bob"
    by (simp_all add: from_name_def ascii_lower_def Let_def)
  from cli_local_transfer [of ref_node, OF _ this, of "[]" 500 "\<lambda>_. Inl ''offline''"] ref_boot_simps show ?thesis
    unfolding ref_boot_def by auto
qed

text \<open>\<open>submit-transfer\<close> to a node: the command asks for the account's nonce, signs the
  transfer with it and posts it. When the answer is the one the node's nonce handler gives,
  the posted bytes decode to a transfer of the sender that verifies, carries exactly the
  nonce the node printed, and is accepted by the node's submit handler.\<close>

lemma cli_remote_transfer:
  assumes "ed25519_ok (d_ed25519 N)" and "codec_ok (n_ext N)"
    and "from_name from = Some a" and "from_name to = Some b"
    and "nonce_handler N rt pool (hex_of (arr32_list (as_bytes (public (d_ed25519 N) a)))) = Some (Inr body)"
    and "n_hex_decode N (hex_of (arr32_list (as_bytes (public (d_ed25519 N) a)))) =
           Inr (arr32_list (as_bytes (public (d_ed25519 N) a)))"
    and "get (url @ ''/nonce/'' @ hex_of (arr32_list (as_bytes (public (d_ed25519 N) a)))) = Inr body"
  shows "\<exists>bytes e. submit_transfer N get from to amount (Some url) db = Some (Posted (url @ ''/submit'') bytes) \<and>
    decode (n_ext N) bytes = Some e \<and> ext_signer e = public (d_ed25519 N) a \<and>
    ext_call e = RC_balances (Call_transfer (public (d_ed25519 N) b) amount) \<and>
    u32_to_string (ext_nonce e) = body \<and> verify (d_ed25519 N) (d_payload N) e = Ok_unit \<and>
    fst (submit_handler N bytes) = ACCEPTED"
proof -
  obtain n where n: "body = u32_to_string n"
    using assms(5,6) by (auto simp: nonce_handler_def Let_def)
  let ?e = "new_signed (d_ed25519 N) (d_payload N) (signing_key (d_ed25519 N) a) n
      (RC_balances (Call_transfer (public (d_ed25519 N) b) amount))"
  have "submit_transfer N get from to amount (Some url) db = Some (Posted (url @ ''/submit'') (encode (n_ext N) ?e))"
    using assms(3,4,7) by (simp add: submit_transfer_def remote_submit_def Let_def n parse_to_string)
  then show ?thesis
    using assms(1,2) by (intro exI [of _ "encode (n_ext N) ?e"] exI [of _ ?e])
      (simp add: n verify_new_signed submit_handler_def)
qed

end
